(* ===== verification/Go_Prelude.thy ===== *)
theory Go_Prelude
  imports Main "HOL-Library.AList" "HOL-Library.Sublist" "HOL-Library.Multiset"
    "HOL-Library.List_Lexorder" "HOL-Library.Char_ord"
begin

text \<open>
  What the components share: Go error values and the Go standard-library string routines the
  operator calls (\<^verbatim>\<open>strings\<close>, \<^verbatim>\<open>bufio.Scanner\<close>), Go maps with their unspecified iteration
  order, and the generic lemmas the component proofs use.

  A Go \<^verbatim>\<open>string\<close> is a byte sequence, here a \<^typ>\<open>string\<close> (a list of 8-bit characters).
  A Go \<^verbatim>\<open>map\<close> is an association list with distinct keys; an iteration over it goes through an
  argument \<open>iter\<close> that may return any permutation of the entries.
\<close>

section \<open>Collections\<close>

named_theorems go_str \<open>rewriting the string routines\<close>
named_theorems go_map \<open>lookups and keys of Go maps\<close>
named_theorems go_err \<open>classification of error values\<close>

section \<open>Error values\<close>

text \<open>
  A Go error is a leaf with a text, an API status error (with the reason the Kubernetes
  helpers \<^verbatim>\<open>errors.IsNotFound\<close> and \<^verbatim>\<open>errors.IsAlreadyExists\<close> look at), an operating-system error,
  or an error wrapped by \<^verbatim>\<open>fmt.Errorf("prefix: %w", err)\<close>, which both helpers see through.
\<close>

datatype api_reason = NotFound | AlreadyExists | Forbidden | Conflict | OtherReason

datatype errno = ENOENT | EEXIST | ENOTDIR | EISDIR | ELOOP | EIO

datatype goerr =
    Plain string
  | Status api_reason string
  | Sys errno string
  | Wrap string goerr

type_synonym 'a result = "goerr + 'a"

fun errno_text :: "errno \<Rightarrow> string" where
  "errno_text ENOENT = ''no such file or directory''"
| "errno_text EEXIST = ''file exists''"
| "errno_text ENOTDIR = ''not a directory''"
| "errno_text EISDIR = ''is a directory''"
| "errno_text ELOOP = ''too many levels of symbolic links''"
| "errno_text EIO = ''input/output error''"

text \<open>The text \<^verbatim>\<open>err.Error()\<close> returns.\<close>

fun err_text :: "goerr \<Rightarrow> string" where
  "err_text (Plain m) = m"
| "err_text (Status r m) = m"
| "err_text (Sys n op) = op @ '': '' @ errno_text n"
| "err_text (Wrap p e) = p @ '': '' @ err_text e"

fun api_reason_of :: "goerr \<Rightarrow> api_reason option" where
  "api_reason_of (Plain m) = None"
| "api_reason_of (Status r m) = Some r"
| "api_reason_of (Sys n op) = None"
| "api_reason_of (Wrap p e) = api_reason_of e"

definition is_not_found :: "goerr \<Rightarrow> bool" where
  "is_not_found e \<longleftrightarrow> api_reason_of e = Some NotFound"

definition is_already_exists :: "goerr \<Rightarrow> bool" where
  "is_already_exists e \<longleftrightarrow> api_reason_of e = Some AlreadyExists"

text \<open>\<^verbatim>\<open>os.IsNotExist\<close> does not unwrap: it looks at the error value itself.\<close>

fun is_not_exist :: "goerr \<Rightarrow> bool" where
  "is_not_exist (Sys n op) \<longleftrightarrow> n = ENOENT"
| "is_not_exist e \<longleftrightarrow> False"

lemma is_not_found_simps [simp, go_err]:
  "is_not_found (Plain m) = False"
  "is_not_found (Status r m) = (r = NotFound)"
  "is_not_found (Sys n op) = False"
  "is_not_found (Wrap p e) = is_not_found e"
  by (simp_all add: is_not_found_def)

lemma is_already_exists_simps [simp, go_err]:
  "is_already_exists (Plain m) = False"
  "is_already_exists (Status r m) = (r = AlreadyExists)"
  "is_already_exists (Sys n op) = False"
  "is_already_exists (Wrap p e) = is_already_exists e"
  by (simp_all add: is_already_exists_def)

lemma is_not_found_not_already_exists:
  "is_not_found e \<Longrightarrow> \<not> is_already_exists e"
  by (simp add: is_not_found_def is_already_exists_def)

section \<open>The string routines\<close>

text \<open>\<^verbatim>\<open>strings.HasPrefix(s, p)\<close> and \<^verbatim>\<open>strings.Contains(s, sub)\<close>.\<close>

fun has_prefix :: "string \<Rightarrow> string \<Rightarrow> bool" where
  "has_prefix s [] = True"
| "has_prefix [] (p # ps) = False"
| "has_prefix (c # cs) (p # ps) = (c = p \<and> has_prefix cs ps)"

fun contains :: "string \<Rightarrow> string \<Rightarrow> bool" where
  "contains [] sub = has_prefix [] sub"
| "contains (c # cs) sub = (has_prefix (c # cs) sub \<or> contains cs sub)"

lemma has_prefix_prefix [go_str]: "has_prefix s p \<longleftrightarrow> prefix p s"
  by (induction s p rule: has_prefix.induct) auto

lemma contains_iff [go_str]: "contains s sub \<longleftrightarrow> (\<exists>us vs. s = us @ sub @ vs)"
proof (induction s)
  case Nil
  show ?case by (simp add: has_prefix_prefix)
next
  case (Cons c cs)
  have "(\<exists>us vs. c # cs = us @ sub @ vs) \<longleftrightarrow>
      prefix sub (c # cs) \<or> (\<exists>us vs. cs = us @ sub @ vs)"
    by (auto simp: prefix_def Cons_eq_append_conv)
  with Cons show ?case by (simp add: has_prefix_prefix)
qed

text \<open>\<^verbatim>\<open>strings.Split(s, sep)\<close> for a one-byte separator, and \<^verbatim>\<open>strings.Join\<close>.\<close>

fun split_on :: "char \<Rightarrow> string \<Rightarrow> string list" where
  "split_on c [] = [[]]"
| "split_on c (x # xs) =
     (if x = c then [] # split_on c xs
      else (case split_on c xs of [] \<Rightarrow> [[x]] | p # ps \<Rightarrow> (x # p) # ps))"

fun join :: "string \<Rightarrow> string list \<Rightarrow> string" where
  "join sep [] = []"
| "join sep [p] = p"
| "join sep (p # q # ps) = p @ sep @ join sep (q # ps)"

lemma split_on_not_Nil [simp]: "split_on c s \<noteq> []"
  by (cases s) (auto split: list.splits)

lemma split_on_no_sep [go_str]: "c \<notin> set s \<Longrightarrow> split_on c s = [s]"
  by (induction s) auto

lemma split_on_append_sep [go_str]:
  "c \<notin> set s \<Longrightarrow> split_on c (s @ c # t) = s # split_on c t"
  by (induction s) auto

lemma split_on_join [go_str]:
  "ps \<noteq> [] \<Longrightarrow> (\<forall>p\<in>set ps. c \<notin> set p) \<Longrightarrow> split_on c (join [c] ps) = ps"
  by (induction "[c]" ps rule: join.induct) (auto simp: split_on_no_sep split_on_append_sep)

lemma join_split_on [go_str]: "join [c] (split_on c s) = s"
proof (induction s)
  case Nil
  show ?case by simp
next
  case (Cons x xs)
  have step: "join [c] ((x # p) # ps) = x # join [c] (p # ps)" for p ps
    by (cases ps) simp_all
  from Cons show ?case
    by (cases "split_on c xs") (simp_all add: step)
qed

lemma split_on_pieces: "p \<in> set (split_on c s) \<Longrightarrow> c \<notin> set p"
  by (induction s arbitrary: p) (auto split: if_splits list.splits)

text \<open>
  The verb \<^verbatim>\<open>%q\<close>: the text in double quotes, with Go escapes for quotes, backslashes and the
  control characters. Bytes outside ASCII stay as they are, as they do in printable text.
\<close>

definition hex_digit :: "nat \<Rightarrow> char" where
  "hex_digit n = (''0123456789abcdef'' ! (n mod 16))"

definition quote_char :: "char \<Rightarrow> string" where
  "quote_char c =
     (if c = CHR 0x22 \<or> c = CHR 0x5C then [CHR 0x5C, c]
      else case map_of [(CHR 0x07, CHR ''a''), (CHR 0x08, CHR ''b''), (CHR 0x0C, CHR ''f''),
             (CHR 0x0A, CHR ''n''), (CHR 0x0D, CHR ''r''), (CHR 0x09, CHR ''t''),
             (CHR 0x0B, CHR ''v'')] c of
           Some e \<Rightarrow> [CHR 0x5C, e]
         | None \<Rightarrow>
            (let n = of_char c :: nat in
             if n < 32 \<or> n = 127 then [CHR 0x5C, CHR ''x'', hex_digit (n div 16), hex_digit n]
             else [c]))"

definition go_quote :: "string \<Rightarrow> string" where
  "go_quote s = [CHR 0x22] @ concat (map quote_char s) @ [CHR 0x22]"

text \<open>\<^verbatim>\<open>strings.Cut(s, "=")\<close>: the text before and after the first separator.\<close>

definition cut :: "char \<Rightarrow> string \<Rightarrow> (string \<times> string) option" where
  "cut c s = (if c \<in> set s
     then Some (takeWhile (\<lambda>x. x \<noteq> c) s, tl (dropWhile (\<lambda>x. x \<noteq> c) s)) else None)"

lemma cut_append [simp, go_str]: "c \<notin> set k \<Longrightarrow> cut c (k @ c # v) = Some (k, v)"
  by (simp add: cut_def takeWhile_append dropWhile_append)

lemma cut_SomeD: "cut c s = Some (k, v) \<Longrightarrow> s = k @ c # v \<and> c \<notin> set k"
proof -
  assume a: "cut c s = Some (k, v)"
  then have c: "c \<in> set s" and k: "k = takeWhile (\<lambda>x. x \<noteq> c) s"
    and v: "v = tl (dropWhile (\<lambda>x. x \<noteq> c) s)" by (auto simp: cut_def split: if_splits)
  from c have "dropWhile (\<lambda>x. x \<noteq> c) s = c # v"
    unfolding v by (induction s) auto
  with k have "s = k @ c # v" by (metis takeWhile_dropWhile_id)
  moreover have "c \<notin> set k" unfolding k by (auto dest: set_takeWhileD)
  ultimately show ?thesis by blast
qed

text \<open>
  \<^verbatim>\<open>strings.TrimSpace\<close> removes the code points with the property White\_Space at both ends. On
  bytes these are the UTF-8 encodings below; each starts with a byte that cannot occur inside
  an encoding, so matching an encoding at either end is what decoding a rune there finds.
\<close>

definition space_encodings :: "string list" where
  "space_encodings =
     [[CHR 0x09], [CHR 0x0A], [CHR 0x0B], [CHR 0x0C], [CHR 0x0D], [CHR 0x20],
      [CHR 0xC2, CHR 0x85], [CHR 0xC2, CHR 0xA0], [CHR 0xE1, CHR 0x9A, CHR 0x80],
      [CHR 0xE2, CHR 0x80, CHR 0x80], [CHR 0xE2, CHR 0x80, CHR 0x81],
      [CHR 0xE2, CHR 0x80, CHR 0x82], [CHR 0xE2, CHR 0x80, CHR 0x83],
      [CHR 0xE2, CHR 0x80, CHR 0x84], [CHR 0xE2, CHR 0x80, CHR 0x85],
      [CHR 0xE2, CHR 0x80, CHR 0x86], [CHR 0xE2, CHR 0x80, CHR 0x87],
      [CHR 0xE2, CHR 0x80, CHR 0x88], [CHR 0xE2, CHR 0x80, CHR 0x89],
      [CHR 0xE2, CHR 0x80, CHR 0x8A], [CHR 0xE2, CHR 0x80, CHR 0xA8],
      [CHR 0xE2, CHR 0x80, CHR 0xA9], [CHR 0xE2, CHR 0x80, CHR 0xAF],
      [CHR 0xE2, CHR 0x81, CHR 0x9F], [CHR 0xE3, CHR 0x80, CHR 0x80]]"

definition lead_len :: "string list \<Rightarrow> string \<Rightarrow> nat" where
  "lead_len encs s = (case find (\<lambda>e. has_prefix s e) encs of None \<Rightarrow> 0 | Some e \<Rightarrow> length e)"

lemma lead_len_le: "lead_len encs s \<le> length s"
  by (auto simp: lead_len_def has_prefix_prefix prefix_length_le
      dest: find_Some_iff [THEN iffD1] split: option.splits)

function trim_lead :: "string list \<Rightarrow> string \<Rightarrow> string" where
  "trim_lead encs s =
     (if lead_len encs s = 0 then s else trim_lead encs (drop (lead_len encs s) s))"
  by pat_completeness auto
termination
proof (relation "measure (\<lambda>(encs, s). length s)")
  fix encs s
  assume "lead_len encs s \<noteq> 0"
  with lead_len_le [of encs s] have "length (drop (lead_len encs s) s) < length s" by simp
  then show "((encs, drop (lead_len encs s) s), encs, s) \<in> measure (\<lambda>(encs, s). length s)"
    by simp
qed simp

declare trim_lead.simps [simp del]

definition trim_space :: "string \<Rightarrow> string" where
  "trim_space s =
     rev (trim_lead (map rev space_encodings) (rev (trim_lead space_encodings s)))"

lemma trim_lead_id: "lead_len encs s = 0 \<Longrightarrow> trim_lead encs s = s"
  by (subst trim_lead.simps) simp

lemma lead_len_0_iff:
  "[] \<notin> set encs \<Longrightarrow> lead_len encs s = 0 \<longleftrightarrow> (\<forall>e\<in>set encs. \<not> prefix e s)"
proof (cases "find (\<lambda>e. has_prefix s e) encs")
  case None
  then have "\<forall>e\<in>set encs. \<not> prefix e s" by (auto simp: find_None_iff has_prefix_prefix)
  with None show ?thesis by (simp add: lead_len_def)
next
  case (Some e)
  assume ne: "[] \<notin> set encs"
  from Some have "e \<in> set encs" and "prefix e s"
    by (auto simp: find_Some_iff has_prefix_prefix)
  with Some ne show ?thesis by (auto simp: lead_len_def)
qed

text \<open>No white space at either end, the case in which trimming changes nothing.\<close>

definition starts_space :: "string \<Rightarrow> bool" where
  "starts_space s \<longleftrightarrow> (\<exists>e\<in>set space_encodings. prefix e s)"

definition ends_space :: "string \<Rightarrow> bool" where
  "ends_space s \<longleftrightarrow> (\<exists>e\<in>set space_encodings. suffix e s)"

lemma space_encodings_nonempty: "[] \<notin> set space_encodings"
  by (simp add: space_encodings_def)

lemma space_encodings_no_equals: "e \<in> set space_encodings \<Longrightarrow> CHR ''='' \<notin> set e"
  by (auto simp: space_encodings_def)

lemma trim_space_id [go_str]:
  assumes "\<not> starts_space s" and "\<not> ends_space s"
  shows "trim_space s = s"
proof -
  have "lead_len space_encodings s = 0"
    using assms(1) by (simp add: lead_len_0_iff space_encodings_nonempty starts_space_def)
  then have 1: "trim_lead space_encodings s = s" by (rule trim_lead_id)
  have "[] \<notin> set (map rev space_encodings)" using space_encodings_nonempty by auto
  then have "lead_len (map rev space_encodings) (rev s) = 0"
    using assms(2) by (auto simp: lead_len_0_iff ends_space_def suffix_to_prefix)
  then have "trim_lead (map rev space_encodings) (rev s) = rev s" by (rule trim_lead_id)
  with 1 show ?thesis by (simp add: trim_space_def)
qed

lemma lead_len_trim_lead: "lead_len encs (trim_lead encs s) = 0"
proof (induction encs s rule: trim_lead.induct)
  case (1 encs s)
  then show ?case by (cases "lead_len encs s = 0") (simp_all add: trim_lead.simps [of encs s])
qed

lemma trim_lead_drop: "\<exists>k. trim_lead encs s = drop k s"
proof (induction encs s rule: trim_lead.induct)
  case (1 encs s)
  show ?case
  proof (cases "lead_len encs s = 0")
    case True
    then show ?thesis by (simp add: trim_lead_id) (metis drop0)
  next
    case False
    with 1 show ?thesis by (simp add: trim_lead.simps [of encs s]) blast
  qed
qed

lemma trim_space_infix:
  "\<exists>j k. trim_space s = take j (trim_lead space_encodings s) \<and> trim_lead space_encodings s = drop k s"
proof -
  define t where "t = trim_lead space_encodings s"
  obtain j where "trim_lead (map rev space_encodings) (rev t) = drop j (rev t)"
    using trim_lead_drop by blast
  then have "trim_space s = take (length t - j) t" by (simp add: trim_space_def t_def rev_drop)
  then show ?thesis using trim_lead_drop [of space_encodings s] unfolding t_def by blast
qed

lemma set_trim_space: "set (trim_space s) \<subseteq> set s"
  using trim_space_infix [of s] by (metis set_take_subset set_drop_subset subset_trans)

lemma length_trim_space: "length (trim_space s) \<le> length s"
  using trim_space_infix [of s] by auto

lemma trim_space_ends: "\<not> ends_space (trim_space s)"
proof -
  have "[] \<notin> set (map rev space_encodings)" using space_encodings_nonempty by auto
  then show ?thesis
    using lead_len_trim_lead [of "map rev space_encodings" "rev (trim_lead space_encodings s)"]
    by (auto simp: lead_len_0_iff ends_space_def trim_space_def suffix_to_prefix)
qed

lemma trim_space_starts: "\<not> starts_space (trim_space s)"
proof -
  have "prefix (trim_space s) (trim_lead space_encodings s)"
    using trim_space_infix [of s] by (metis take_is_prefix)
  moreover have "\<not> starts_space (trim_lead space_encodings s)"
    using lead_len_trim_lead [of space_encodings s]
    by (simp add: lead_len_0_iff space_encodings_nonempty starts_space_def)
  ultimately show ?thesis by (auto simp: starts_space_def intro: prefix_order.trans)
qed

section \<open>Line scanning\<close>

text \<open>
  \<^verbatim>\<open>bufio.Scanner\<close> with the default split function: the lines of the input, a last line
  without a newline included, each with one trailing carriage return dropped. The token buffer
  holds 64 KiB; a longer line ends the scan with \<^verbatim>\<open>bufio.ErrTooLong\<close>.
\<close>

definition newline :: char where
  "newline = CHR 0x0A"

definition max_token :: nat where
  "max_token = 65536"

fun raw_lines :: "string \<Rightarrow> string list" where
  "raw_lines [] = []"
| "raw_lines (c # cs) =
     (if c = newline then [] # raw_lines cs
      else (case raw_lines cs of [] \<Rightarrow> [[c]] | l # ls \<Rightarrow> (c # l) # ls))"

definition drop_cr :: "string \<Rightarrow> string" where
  "drop_cr l = (if l \<noteq> [] \<and> last l = CHR 0x0D then butlast l else l)"

fun scan_tokens :: "string list \<Rightarrow> string list \<times> goerr option" where
  "scan_tokens [] = ([], None)"
| "scan_tokens (l # ls) =
     (if max_token \<le> length l then ([], Some (Plain ''bufio.Scanner: token too long''))
      else (let (ts, e) = scan_tokens ls in (drop_cr l # ts, e)))"

definition scan_lines :: "string \<Rightarrow> string list \<times> goerr option" where
  "scan_lines s = scan_tokens (raw_lines s)"

lemma raw_lines_line [go_str]:
  "newline \<notin> set l \<Longrightarrow> raw_lines (l @ newline # s) = l # raw_lines s"
  by (induction l) auto

lemma raw_lines_no_newline: "l \<in> set (raw_lines s) \<Longrightarrow> newline \<notin> set l"
  by (induction s arbitrary: l) (auto split: if_splits list.splits)

lemma scan_tokens_short [go_str]:
  "\<forall>l\<in>set ls. length l < max_token \<Longrightarrow> scan_tokens ls = (map drop_cr ls, None)"
  by (induction ls) auto

lemma scan_tokens_None:
  "scan_tokens rs = (ls, None) \<Longrightarrow> ls = map drop_cr rs \<and> (\<forall>r\<in>set rs. length r < max_token)"
proof (induction rs arbitrary: ls)
  case (Cons r rs)
  from Cons.prems have "length r < max_token" by (simp split: if_splits)
  moreover obtain ts e where "scan_tokens rs = (ts, e)" by fastforce
  ultimately show ?case using Cons by simp
qed simp

lemma scan_tokens_long:
  "\<exists>l\<in>set ls. max_token \<le> length l \<Longrightarrow> \<exists>e. snd (scan_tokens ls) = Some e"
  by (induction ls) (auto simp: split_beta Let_def)

lemma drop_cr_id [go_str]: "\<not> ends_space l \<Longrightarrow> drop_cr l = l"
proof -
  assume a: "\<not> ends_space l"
  have "\<not> (l \<noteq> [] \<and> last l = CHR 0x0D)"
  proof
    assume b: "l \<noteq> [] \<and> last l = CHR 0x0D"
    then have "suffix [CHR 0x0D] l"
      by (metis append_butlast_last_id suffix_def)
    moreover have "[CHR 0x0D] \<in> set space_encodings" by (simp add: space_encodings_def)
    ultimately show False using a by (auto simp: ends_space_def)
  qed
  then show ?thesis unfolding drop_cr_def by (rule if_not_P)
qed

section \<open>Go maps\<close>

type_synonym ('k, 'v) gomap = "('k \<times> 'v) list"

text \<open>\<^verbatim>\<open>m[k]\<close> on a \<^verbatim>\<open>map[string]string\<close>: the zero value for a missing key.\<close>

definition map_index :: "('k, string) gomap \<Rightarrow> 'k \<Rightarrow> string" where
  "map_index m k = (case map_of m k of None \<Rightarrow> [] | Some v \<Rightarrow> v)"

definition map_set :: "'k \<Rightarrow> 'v \<Rightarrow> ('k, 'v) gomap \<Rightarrow> ('k, 'v) gomap" where
  "map_set k v m = AList.update k v m"

definition wf_map :: "('k, 'v) gomap \<Rightarrow> bool" where
  "wf_map m \<longleftrightarrow> distinct (map fst m)"

lemma map_of_map_set [simp, go_map]: "map_of (map_set k v m) = (map_of m)(k \<mapsto> v)"
  by (simp add: map_set_def update_conv')

lemma set_map_set: "set (map_set k v m) \<subseteq> insert (k, v) (set m)"
  unfolding map_set_def by (induction m) auto

lemma wf_map_set [simp, go_map]: "wf_map m \<Longrightarrow> wf_map (map_set k v m)"
  by (simp add: wf_map_def map_set_def distinct_update)

lemma wf_map_Nil [simp, go_map]: "wf_map []"
  by (simp add: wf_map_def)

text \<open>An iteration visits every entry exactly once, in an order the language leaves open.\<close>

definition iterates :: "(('k, 'v) gomap \<Rightarrow> ('k, 'v) gomap) \<Rightarrow> bool" where
  "iterates iter \<longleftrightarrow> (\<forall>m. mset (iter m) = mset m)"

lemma iterates_perm: "iterates iter \<Longrightarrow> mset (iter m) = mset m"
  by (simp add: iterates_def)

lemma wf_map_iter [go_map]: "iterates iter \<Longrightarrow> wf_map m \<Longrightarrow> wf_map (iter m)"
  unfolding wf_map_def
  by (metis iterates_perm mset_map mset_eq_imp_distinct_iff)

lemma set_iter [go_map]: "iterates iter \<Longrightarrow> set (iter m) = set m"
  by (metis iterates_perm set_mset_mset)

lemma map_of_perm:
  assumes "distinct (map fst xs)" and "mset ys = mset xs"
  shows "map_of ys = map_of xs"
proof -
  have "distinct (map fst ys)" using assms by (metis mset_map mset_eq_imp_distinct_iff)
  moreover have "set ys = set xs" using assms(2) by (metis set_mset_mset)
  ultimately show ?thesis using assms(1) by (metis map_of_inject_set)
qed

lemma map_of_iter [go_map]: "iterates iter \<Longrightarrow> wf_map m \<Longrightarrow> map_of (iter m) = map_of m"
  unfolding wf_map_def by (rule map_of_perm, assumption, rule iterates_perm)

text \<open>A map filled by one assignment per entry.\<close>

lemma map_of_fold_set:
  "map_of (fold (\<lambda>(k, v). map_set k v) kvs m) = map_of m ++ map_of (rev kvs)"
  by (induction kvs arbitrary: m) (auto simp: map_add_def fun_eq_iff split: option.splits)

lemma wf_map_fold_set: "wf_map m \<Longrightarrow> wf_map (fold (\<lambda>(k, v). map_set k v) kvs m)"
  by (induction kvs arbitrary: m) auto

lemma map_of_rev_wf: "wf_map kvs \<Longrightarrow> map_of (rev kvs) = map_of kvs"
  by (rule map_of_perm) (simp_all add: wf_map_def)

lemma iterates_id [simp]: "iterates (\<lambda>m. m)"
  by (simp add: iterates_def)

lemma iterates_rev [simp]: "iterates rev"
  by (simp add: iterates_def)

section \<open>Lists\<close>

lemma find_snoc:
  "find P (xs @ [x]) = (case find P xs of None \<Rightarrow> if P x then Some x else None | Some y \<Rightarrow> Some y)"
  by (induction xs) auto

lemma map_filter_Nil_iff: "List.map_filter f xs = [] \<longleftrightarrow> (\<forall>x\<in>set xs. f x = None)"
  by (induction xs) (auto simp: List.map_filter_simps split: option.splits)

lemma map_filter_cong:
  "xs = ys \<Longrightarrow> (\<And>x. x \<in> set ys \<Longrightarrow> f x = g x) \<Longrightarrow> List.map_filter f xs = List.map_filter g ys"
  by (induction ys arbitrary: xs) (auto simp: List.map_filter_simps split: option.splits)

lemma map_filter_Some [simp]: "List.map_filter Some xs = xs"
  by (induction xs) (simp_all add: List.map_filter_simps)

lemma set_map_filter: "set (List.map_filter f xs) = {y. \<exists>x\<in>set xs. f x = Some y}"
  by (induction xs) (auto simp: List.map_filter_simps split: option.splits)

lemma map_filter_comp:
  "List.map_filter f (List.map_filter g xs) = List.map_filter (\<lambda>x. Option.bind (g x) f) xs"
  by (induction xs) (auto simp: List.map_filter_simps split: option.splits)

lemma distinct_map_filter:
  assumes "distinct (map k xs)" and "\<And>x y. x \<in> set xs \<Longrightarrow> f x = Some y \<Longrightarrow> k y = k x"
  shows "distinct (map k (List.map_filter f xs))"
  using assms
proof (induction xs)
  case (Cons x xs)
  have "k y \<noteq> k x" if "y \<in> set (List.map_filter f xs)" for y
  proof -
    from that obtain z where "z \<in> set xs" and "f z = Some y" by (auto simp: set_map_filter)
    with Cons.prems(2) have "k y \<in> k ` set xs" by force
    with Cons.prems(1) show ?thesis by auto
  qed
  moreover have "k y = k x" if "f x = Some y" for y using that Cons.prems(2) by simp
  ultimately show ?case using Cons
    by (auto simp: List.map_filter_simps split: option.splits) metis
qed (simp add: List.map_filter_simps)

lemma subseq_distinct_map:
  "subseq xs ys \<Longrightarrow> distinct (map k ys) \<Longrightarrow> distinct (map k xs)"
proof (induction rule: list_emb.induct)
  case (list_emb_Cons2 x y xs ys)
  from list_emb_Cons2.hyps(2) have "set xs \<subseteq> set ys" by (blast elim: list_emb_set)
  then have "k ` set xs \<subseteq> k ` set ys" by (rule image_mono)
  with list_emb_Cons2 show ?case by auto
qed auto

end
