(* ===== verification/Go_FS.thy ===== *)
theory Go_FS
  imports Go_Prelude
begin

text \<open>
  The file system the operator works on and the \<^verbatim>\<open>os\<close> and \<^verbatim>\<open>path/filepath\<close> calls it makes.
  A path is the list of the components of a cleaned path, so \<^verbatim>\<open>filepath.Join\<close> is list append and
  \<^verbatim>\<open>filepath.Clean\<close> the identity. A directory holds its entries in the order \<^verbatim>\<open>os.ReadDir\<close> returns
  them (sorted by name). A symbolic link has no target here: resolving one is an error, and
  copying a tree skips them. Permission bits are left out.

  Every call takes an \<open>io_env\<close>, the outcome of the underlying system calls: which of them fail,
  and how many bytes of an interrupted transfer reached the file.
\<close>

section \<open>Trees and paths\<close>

type_synonym path = "string list"

datatype fnode = File string | Symlink | Dir "(string \<times> fnode) list"

datatype fs_op =
    StatOp | LstatOp | OpenOp | CreateOp | ReadOp | WriteOp | FlushOp | CloseOp
  | RenameOp | RemoveOp | ReadDirOp | MkdirOp

record io_env =
  faults :: "fs_op \<Rightarrow> path \<Rightarrow> bool"
  partial :: "path \<Rightarrow> nat"

definition no_faults :: io_env where
  "no_faults = \<lparr>faults = (\<lambda>_ _. False), partial = (\<lambda>_. 0)\<rparr>"

lemma faults_no_faults [simp]: "faults no_faults op p = False"
  by (simp add: no_faults_def)

fun fs_get :: "fnode \<Rightarrow> path \<Rightarrow> errno + fnode" where
  "fs_get n [] = Inr n"
| "fs_get (Dir es) (x # xs) =
     (case map_of es x of None \<Rightarrow> Inl ENOENT | Some n \<Rightarrow> fs_get n xs)"
| "fs_get Symlink (x # xs) = Inl ELOOP"
| "fs_get (File c) (x # xs) = Inl ENOTDIR"

fun dir_set :: "string \<Rightarrow> fnode \<Rightarrow> (string \<times> fnode) list \<Rightarrow> (string \<times> fnode) list" where
  "dir_set x n [] = [(x, n)]"
| "dir_set x n ((y, m) # es) =
     (if x < y then (x, n) # (y, m) # es
      else if x = y then (x, n) # es
      else (y, m) # dir_set x n es)"

text \<open>Install a node at a path whose parent directory exists.\<close>

fun fs_put :: "path \<Rightarrow> fnode \<Rightarrow> fnode \<Rightarrow> errno + fnode" where
  "fs_put [] v n = Inr v"
| "fs_put [x] v (Dir es) = Inr (Dir (dir_set x v es))"
| "fs_put (x # y # ys) v (Dir es) =
     (case map_of es x of
        None \<Rightarrow> Inl ENOENT
      | Some n \<Rightarrow> (case fs_put (y # ys) v n of
                   Inl e \<Rightarrow> Inl e
                 | Inr n' \<Rightarrow> Inr (Dir (dir_set x n' es))))"
| "fs_put (x # xs) v (File c) = Inl ENOTDIR"
| "fs_put (x # xs) v Symlink = Inl ELOOP"

fun fs_del :: "path \<Rightarrow> fnode \<Rightarrow> fnode" where
  "fs_del [x] (Dir es) = Dir (filter (\<lambda>e. fst e \<noteq> x) es)"
| "fs_del (x # y # ys) (Dir es) =
     (case map_of es x of
        None \<Rightarrow> Dir es
      | Some n \<Rightarrow> Dir (dir_set x (fs_del (y # ys) n) es))"
| "fs_del p n = n"

section \<open>The calls\<close>

definition sys :: "errno \<Rightarrow> string \<Rightarrow> goerr" where
  "sys n op = Sys n op"

text \<open>\<^verbatim>\<open>os.Stat\<close>, for its error only.\<close>

definition os_stat :: "io_env \<Rightarrow> path \<Rightarrow> fnode \<Rightarrow> goerr option" where
  "os_stat io p fs =
     (if faults io StatOp p then Some (sys EIO ''stat'')
      else case fs_get fs p of
             Inl e \<Rightarrow> Some (sys e ''stat'')
           | Inr Symlink \<Rightarrow> Some (sys ELOOP ''stat'')
           | Inr _ \<Rightarrow> None)"

definition os_read_dir :: "io_env \<Rightarrow> path \<Rightarrow> fnode \<Rightarrow> string list result" where
  "os_read_dir io p fs =
     (if faults io ReadDirOp p then Inl (sys EIO ''readdir'')
      else case fs_get fs p of
             Inl e \<Rightarrow> Inl (sys e ''open'')
           | Inr (Dir es) \<Rightarrow> Inr (map fst es)
           | Inr Symlink \<Rightarrow> Inl (sys ELOOP ''open'')
           | Inr (File c) \<Rightarrow> Inl (sys ENOTDIR ''readdir''))"

text \<open>\<^verbatim>\<open>os.Open\<close> and reading the open file to its end.\<close>

definition os_open :: "io_env \<Rightarrow> path \<Rightarrow> fnode \<Rightarrow> fnode result" where
  "os_open io p fs =
     (if faults io OpenOp p then Inl (sys EIO ''open'')
      else case fs_get fs p of
             Inl e \<Rightarrow> Inl (sys e ''open'')
           | Inr Symlink \<Rightarrow> Inl (sys ELOOP ''open'')
           | Inr n \<Rightarrow> Inr n)"

definition os_read :: "io_env \<Rightarrow> path \<Rightarrow> fnode \<Rightarrow> string result" where
  "os_read io p n =
     (if faults io ReadOp p then Inl (sys EIO ''read'')
      else case n of File c \<Rightarrow> Inr c | _ \<Rightarrow> Inl (sys EISDIR ''read''))"

definition os_read_file :: "io_env \<Rightarrow> path \<Rightarrow> fnode \<Rightarrow> string result" where
  "os_read_file io p fs = (case os_open io p fs of Inl e \<Rightarrow> Inl e | Inr n \<Rightarrow> os_read io p n)"

text \<open>\<^verbatim>\<open>os.Create\<close> truncates an existing file; it cannot open a directory.\<close>

definition os_create :: "io_env \<Rightarrow> path \<Rightarrow> fnode \<Rightarrow> fnode result" where
  "os_create io p fs =
     (if faults io CreateOp p then Inl (sys EIO ''open'')
      else case fs_get fs p of
             Inr (Dir es) \<Rightarrow> Inl (sys EISDIR ''open'')
           | Inr Symlink \<Rightarrow> Inl (sys ELOOP ''open'')
           | _ \<Rightarrow> (case fs_put p (File []) fs of
                     Inl e \<Rightarrow> Inl (sys e ''open'')
                   | Inr fs' \<Rightarrow> Inr fs'))"

text \<open>Write bytes to a file that was opened before, so its node exists.\<close>

definition fs_write :: "path \<Rightarrow> string \<Rightarrow> fnode \<Rightarrow> fnode" where
  "fs_write p c fs = (case fs_put p (File c) fs of Inl e \<Rightarrow> fs | Inr fs' \<Rightarrow> fs')"

definition os_remove :: "io_env \<Rightarrow> path \<Rightarrow> fnode \<Rightarrow> fnode" where
  "os_remove io p fs = (if faults io RemoveOp p then fs else fs_del p fs)"

text \<open>\<^verbatim>\<open>os.Rename\<close> of a plain file: it replaces a plain file and fails on a directory.\<close>

definition os_rename :: "io_env \<Rightarrow> path \<Rightarrow> path \<Rightarrow> fnode \<Rightarrow> goerr option \<times> fnode" where
  "os_rename io a b fs =
     (if faults io RenameOp a then (Some (sys EIO ''rename''), fs)
      else case fs_get fs a of
             Inl e \<Rightarrow> (Some (sys e ''rename''), fs)
           | Inr n \<Rightarrow>
              (case fs_get fs b of
                 Inr (Dir es) \<Rightarrow> (Some (sys EEXIST ''rename''), fs)
               | _ \<Rightarrow> (case fs_put b n (fs_del a fs) of
                         Inl e \<Rightarrow> (Some (sys e ''rename''), fs)
                       | Inr fs' \<Rightarrow> (None, fs'))))"

fun mkdir_all :: "path \<Rightarrow> fnode \<Rightarrow> errno + fnode" where
  "mkdir_all p (File c) = Inl ENOTDIR"
| "mkdir_all p Symlink = Inl ELOOP"
| "mkdir_all [] (Dir es) = Inr (Dir es)"
| "mkdir_all (x # xs) (Dir es) =
     (case mkdir_all xs (case map_of es x of None \<Rightarrow> Dir [] | Some n \<Rightarrow> n) of
        Inl e \<Rightarrow> Inl e
      | Inr n' \<Rightarrow> Inr (Dir (dir_set x n' es)))"

definition os_mkdir_all :: "io_env \<Rightarrow> path \<Rightarrow> fnode \<Rightarrow> fnode result" where
  "os_mkdir_all io p fs =
     (if faults io MkdirOp p then Inl (sys EIO ''mkdir'')
      else case mkdir_all p fs of Inl e \<Rightarrow> Inl (sys e ''mkdir'') | Inr fs' \<Rightarrow> Inr fs')"

section \<open>Laws of the tree operations\<close>

lemma map_of_dir_set [simp]: "map_of (dir_set x n es) = (map_of es)(x \<mapsto> n)"
  by (induction x n es rule: dir_set.induct) auto

lemma dir_set_not_Nil [simp]: "dir_set x n es \<noteq> []"
  by (cases "(x, n, es)" rule: dir_set.cases) auto

text \<open>What is visible at a path: the kind of the node, and the contents of a file.\<close>

datatype fview = VFile string | VLink | VDir

fun node_view :: "fnode \<Rightarrow> fview" where
  "node_view (File c) = VFile c"
| "node_view Symlink = VLink"
| "node_view (Dir es) = VDir"

definition fs_view :: "fnode \<Rightarrow> path \<Rightarrow> errno + fview" where
  "fs_view fs p = (case fs_get fs p of Inl e \<Rightarrow> Inl e | Inr n \<Rightarrow> Inr (node_view n))"

lemma fs_view_simps [simp]:
  "fs_view n [] = Inr (node_view n)"
  "fs_view (Dir es) (x # xs) = (case map_of es x of None \<Rightarrow> Inl ENOENT | Some n \<Rightarrow> fs_view n xs)"
  "fs_view Symlink (x # xs) = Inl ELOOP"
  "fs_view (File c) (x # xs) = Inl ENOTDIR"
  by (simp_all add: fs_view_def split: option.splits)

lemma node_view_VDir [simp]: "node_view n = VDir \<longleftrightarrow> (\<exists>es. n = Dir es)"
  by (cases n) auto

lemma node_view_VFile [simp]: "node_view n = VFile c \<longleftrightarrow> n = File c"
  by (cases n) auto

lemma fs_view_file_iff: "fs_view fs p = Inr (VFile c) \<longleftrightarrow> fs_get fs p = Inr (File c)"
  by (auto simp: fs_view_def split: sum.splits)

lemma fs_view_dir_iff: "fs_view fs p = Inr VDir \<longleftrightarrow> (\<exists>es. fs_get fs p = Inr (Dir es))"
  by (auto simp: fs_view_def split: sum.splits)

text \<open>After installing a node, paths below it show the node, paths beside it are unchanged and
  the directories above it are still directories.\<close>

lemma fs_view_put_below: "fs_put p v fs = Inr fs' \<Longrightarrow> fs_view fs' (p @ q) = fs_view v q"
proof (induction p v fs arbitrary: fs' rule: fs_put.induct)
  case (3 x y ys v es)
  then show ?case by (auto split: option.splits sum.splits)
qed (auto simp: fs_view_def split: list.splits)

lemma fs_get_put_same: "fs_put p v fs = Inr fs' \<Longrightarrow> fs_get fs' p = Inr v"
proof (induction p v fs arbitrary: fs' rule: fs_put.induct)
  case (3 x y ys v es)
  then show ?case by (auto split: option.splits sum.splits)
qed auto

lemma fs_view_put_parallel:
  "fs_put p v fs = Inr fs' \<Longrightarrow> p \<parallel> q \<Longrightarrow> fs_view fs' q = fs_view fs q"
proof (induction p v fs arbitrary: fs' q rule: fs_put.induct)
  case (2 x v es)
  then show ?case by (cases q) auto
next
  case (3 x y ys v es)
  then show ?case
    by (cases q) (auto simp: parallel_def split: option.splits sum.splits)
qed auto

lemma fs_view_put_above:
  "fs_put (q @ x # xs) v fs = Inr fs' \<Longrightarrow> fs_view fs q = Inr VDir \<and> fs_view fs' q = Inr VDir"
proof (induction q arbitrary: fs fs')
  case Nil
  then show ?case by (cases fs; cases xs) (auto split: option.splits sum.splits)
next
  case (Cons z q)
  then obtain es where fs: "fs = Dir es" by (cases fs) auto
  obtain y ys where qs: "q @ x # xs = y # ys" by (cases q) auto
  from Cons.prems fs qs obtain n n' where n: "map_of es z = Some n"
    and n': "fs_put (q @ x # xs) v n = Inr n'" and fs': "fs' = Dir (dir_set z n' es)"
    by (auto split: option.splits sum.splits)
  from Cons.IH [OF n'] n fs fs' show ?case by simp
qed

lemma fs_put_defined: "fs_view fs p = Inr VDir \<Longrightarrow> \<exists>fs'. fs_put (p @ [x]) v fs = Inr fs'"
proof (induction p arbitrary: fs)
  case Nil
  then show ?case by auto
next
  case (Cons z p)
  then obtain es n where fs: "fs = Dir es" "map_of es z = Some n" "fs_view n p = Inr VDir"
    by (cases fs) (auto split: option.splits)
  from Cons.IH [OF fs(3)] obtain n' where "fs_put (p @ [x]) v n = Inr n'" by blast
  with fs show ?case by (cases p) auto
qed

lemma parallel_Cons_same [simp]: "(x # p) \<parallel> (x # q) \<longleftrightarrow> p \<parallel> q"
  by (auto simp: parallel_def)

lemma parallel_below: "d \<parallel> p \<Longrightarrow> (d @ xs) \<parallel> p"
  using parallel_append [of d p xs "[]"] by simp

lemma parallel_other_side: "s \<parallel> d \<Longrightarrow> (d @ xs) \<parallel> (s @ ys)"
  by (metis parallel_append parallel_commute)

lemma parallel_sibling: "x \<noteq> y \<Longrightarrow> (d @ x # xs) \<parallel> (d @ y # ys)"
  by (auto simp: parallel_def)

lemma fs_get_append:
  "fs_get fs (p @ q) = (case fs_get fs p of Inl e \<Rightarrow> Inl e | Inr n \<Rightarrow> fs_get n q)"
  by (induction fs p rule: fs_get.induct) (auto split: option.splits)

lemma map_of_filter_key [simp]:
  "map_of (filter (\<lambda>e. fst e \<noteq> x) es) = (map_of es)(x := None)"
  by (induction es) (auto simp: fun_eq_iff)

lemma fs_view_del_parallel: "p \<parallel> q \<Longrightarrow> fs_view (fs_del p fs) q = fs_view fs q"
proof (induction p fs arbitrary: q rule: fs_del.induct)
  case (1 x es)
  then show ?case by (cases q) (auto split: option.splits)
next
  case (2 x y ys es)
  then show ?case by (cases q) (auto simp: parallel_def split: option.splits)
qed auto

lemma fs_view_del_above: "fs_view (fs_del (q @ x # xs) fs) q = fs_view fs q"
proof (induction q arbitrary: fs)
  case Nil
  then show ?case by (cases fs; cases xs) (auto split: option.splits)
next
  case (Cons z q)
  obtain y ys where qs: "q @ x # xs = y # ys" by (cases q) auto
  with Cons show ?case by (cases fs) (auto split: option.splits)
qed

lemma fs_view_mkdir_all_same: "mkdir_all p fs = Inr fs' \<Longrightarrow> fs_view fs' p = Inr VDir"
proof (induction p fs arbitrary: fs' rule: mkdir_all.induct)
  case (4 x xs es)
  then show ?case by (auto split: sum.splits)
qed auto

lemma fs_view_mkdir_all_parallel:
  "mkdir_all p fs = Inr fs' \<Longrightarrow> p \<parallel> q \<Longrightarrow> fs_view fs' q = fs_view fs q"
proof (induction p fs arbitrary: fs' q rule: mkdir_all.induct)
  case (4 x xs es)
  then obtain n' where n': "mkdir_all xs (case map_of es x of None \<Rightarrow> Dir [] | Some n \<Rightarrow> n) = Inr n'"
    and fs': "fs' = Dir (dir_set x n' es)" by (auto split: sum.splits)
  show ?case
  proof (cases q)
    case Nil
    with 4(3) show ?thesis by simp
  next
    case (Cons y ys)
    show ?thesis
    proof (cases "y = x")
      case True
      with Cons 4(3) have p: "xs \<parallel> ys" by simp
      then obtain z zs where "ys = z # zs" by (cases ys) auto
      with 4(1) [OF n' p] True Cons fs' show ?thesis by (auto split: option.splits)
    qed (use Cons fs' in auto)
  qed
qed auto

lemma fs_view_mkdir_all_below:
  "mkdir_all p fs = Inr fs' \<Longrightarrow> fs_view fs' (p @ x # q) = fs_view fs (p @ x # q)"
proof (induction p fs arbitrary: fs' rule: mkdir_all.induct)
  case (4 y ys es)
  then obtain n' where n': "mkdir_all ys (case map_of es y of None \<Rightarrow> Dir [] | Some n \<Rightarrow> n) = Inr n'"
    and fs': "fs' = Dir (dir_set y n' es)" by (auto split: sum.splits)
  from 4(1) [OF n'] fs' show ?case by (cases ys) (auto split: option.splits)
qed auto

lemma fs_view_mkdir_all_above:
  "mkdir_all (q @ p) fs = Inr fs' \<Longrightarrow> fs_view fs' q = Inr VDir"
proof (induction q arbitrary: fs fs')
  case Nil
  then show ?case by (cases fs; cases p) (auto split: sum.splits)
next
  case (Cons z q)
  then show ?case by (cases fs) (auto split: sum.splits)
qed

lemmas fs_view_put = fs_view_put_below fs_view_put_parallel fs_view_put_above
lemmas fs_view_mkdir_all =
  fs_view_mkdir_all_same fs_view_mkdir_all_parallel fs_view_mkdir_all_below fs_view_mkdir_all_above

section \<open>Laws of the calls\<close>

lemma os_create_Inr: "os_create io p fs = Inr fs' \<Longrightarrow> fs_put p (File []) fs = Inr fs'"
  by (auto simp: os_create_def split: if_splits sum.splits fnode.splits)

lemma os_mkdir_all_Inr: "os_mkdir_all io p fs = Inr fs' \<Longrightarrow> mkdir_all p fs = Inr fs'"
  by (auto simp: os_mkdir_all_def split: if_splits sum.splits)

lemma fs_put_again: "fs_put p v fs = Inr fs' \<Longrightarrow> \<exists>fs''. fs_put p w fs' = Inr fs''"
proof (induction p v fs arbitrary: fs' rule: fs_put.induct)
  case (3 x y ys v es)
  then show ?case by (fastforce split: option.splits sum.splits)
qed auto

lemma fs_write_opened:
  "os_create io p fs = Inr fs' \<Longrightarrow> fs_put p (File c) fs' = Inr (fs_write p c fs')"
  using fs_put_again [OF os_create_Inr, of io p fs fs' "File c"]
  by (auto simp: fs_write_def)

lemma os_create_write_view:
  assumes "os_create io p fs = Inr fs'"
  shows "fs_get (fs_write p c fs') p = Inr (File c)"
    and "p \<parallel> q \<Longrightarrow> fs_view (fs_write p c fs') q = fs_view fs q"
proof -
  note w = fs_write_opened [OF assms, of c]
  from w show "fs_get (fs_write p c fs') p = Inr (File c)" by (rule fs_get_put_same)
  assume q: "p \<parallel> q"
  from fs_view_put_parallel [OF w q] fs_view_put_parallel [OF os_create_Inr [OF assms] q]
  show "fs_view (fs_write p c fs') q = fs_view fs q" by simp
qed

lemma fs_view_del_same: "fs_view fs q = Inr VDir \<Longrightarrow> fs_view (fs_del (q @ [x]) fs) (q @ [x]) = Inl ENOENT"
proof (induction q arbitrary: fs)
  case Nil
  then show ?case by auto
next
  case (Cons z q)
  then obtain es n where fs: "fs = Dir es" "map_of es z = Some n" "fs_view n q = Inr VDir"
    by (cases fs) (auto split: option.splits)
  obtain y ys where "q @ [x] = y # ys" by (cases q) auto
  with Cons.IH [OF fs(3)] fs show ?case by simp
qed

text \<open>A path that a file can be created or replaced at: its directory exists and it names no
  directory and no link.\<close>

definition writable_at :: "path \<Rightarrow> fnode \<Rightarrow> bool" where
  "writable_at p fs \<longleftrightarrow> p \<noteq> [] \<and> fs_view fs (butlast p) = Inr VDir \<and>
     fs_view fs p \<noteq> Inr VDir \<and> fs_view fs p \<noteq> Inr VLink"

lemma writable_at_put: "writable_at p fs \<Longrightarrow> \<exists>fs'. fs_put p v fs = Inr fs'"
  using fs_put_defined [of fs "butlast p" "last p" v] by (simp add: writable_at_def)

lemma os_create_writable:
  assumes "writable_at p fs"
  shows "\<exists>fs'. os_create no_faults p fs = Inr fs'"
proof -
  obtain fs' where "fs_put p (File []) fs = Inr fs'" using writable_at_put [OF assms] by blast
  with assms show ?thesis
    by (auto simp: os_create_def writable_at_def fs_view_def split: sum.splits fnode.splits)
qed

end
