(* ===== verification/File_Invariants.thy ===== *)
theory File_Invariants
  imports Go_FS
begin

text \<open>
  Invariants of the file system under the operator's writes. The locale \<open>fs_kept\<close> is the contract of a
  property of the files that no write below a directory can break; the components prove once that
  each of their routines keeps such a property, whatever system calls fail. Two properties meet
  the contract: that every directory is well-formed, and that what is seen at a path
  outside the directory stays as it is.
\<close>

locale fs_kept =
  fixes d :: path and inv :: "fnode \<Rightarrow> bool"
  assumes put_keeps: "inv fs \<Longrightarrow> prefix d p \<Longrightarrow> fs_put p (File c) fs = Inr fs' \<Longrightarrow> inv fs'"
    and del_keeps: "inv fs \<Longrightarrow> prefix d p \<Longrightarrow> inv (fs_del p fs)"
    and mkdir_keeps: "inv fs \<Longrightarrow> prefix d p \<Longrightarrow> mkdir_all p fs = Inr fs' \<Longrightarrow> inv fs'"
    and move_keeps: "inv fs \<Longrightarrow> prefix d p \<Longrightarrow> prefix d q \<Longrightarrow> fs_get fs p = Inr n \<Longrightarrow>
      fs_put q n (fs_del p fs) = Inr fs' \<Longrightarrow> inv fs'"
begin

lemma os_create_keeps: "inv fs \<Longrightarrow> prefix d p \<Longrightarrow> os_create io p fs = Inr fs' \<Longrightarrow> inv fs'"
  by (blast dest: os_create_Inr intro: put_keeps)

lemma fs_write_keeps: "inv fs \<Longrightarrow> prefix d p \<Longrightarrow> inv (fs_write p c fs)"
  by (auto simp: fs_write_def split: sum.split intro: put_keeps)

lemma os_remove_keeps: "inv fs \<Longrightarrow> prefix d p \<Longrightarrow> inv (os_remove io p fs)"
  by (simp add: os_remove_def del_keeps)

lemma os_mkdir_all_keeps: "inv fs \<Longrightarrow> prefix d p \<Longrightarrow> os_mkdir_all io p fs = Inr fs' \<Longrightarrow> inv fs'"
  by (blast dest: os_mkdir_all_Inr intro: mkdir_keeps)

lemma os_rename_keeps: "inv fs \<Longrightarrow> prefix d p \<Longrightarrow> prefix d q \<Longrightarrow> inv (snd (os_rename io p q fs))"
  by (auto simp: os_rename_def split: sum.split fnode.split intro: move_keeps)

lemmas os_keeps = os_create_keeps fs_write_keeps os_remove_keeps os_mkdir_all_keeps os_rename_keeps

end

section \<open>Ordered directories\<close>

text \<open>
  Every directory names each entry once and lists them in increasing order, which is what
  \<^verbatim>\<open>os.ReadDir\<close> and \<^verbatim>\<open>filepath.Walk\<close> promise.
\<close>

fun ordered :: "fnode \<Rightarrow> bool" where
  "ordered (File c) = True"
| "ordered Symlink = True"
| "ordered (Dir es) = (sorted_wrt (<) (map fst es) \<and> (\<forall>e\<in>set es. ordered (snd e)))"

lemma set_dir_set: "set (dir_set x n es) \<subseteq> insert (x, n) (set es)"
  by (induction x n es rule: dir_set.induct) auto

lemma fst_dir_set: "fst ` set (dir_set x n es) = insert x (fst ` set es)"
  by (induction x n es rule: dir_set.induct) auto

lemma sorted_dir_set:
  "sorted_wrt (<) (map fst es) \<Longrightarrow> sorted_wrt (<) (map fst (dir_set x n es))"
proof (induction x n es rule: dir_set.induct)
  case (2 x n y m es)
  have "y < a" if "\<not> x < y" "x \<noteq> y" "a \<in> fst ` set (dir_set x n es)" "\<forall>e\<in>set es. y < fst e" for a
    using that fst_dir_set [of x n es] by auto
  with 2 show ?case by (auto simp: sorted_wrt_map dest: order.strict_trans)
qed simp

lemma ordered_dir_set: "ordered (Dir es) \<Longrightarrow> ordered n \<Longrightarrow> ordered (Dir (dir_set x n es))"
  using sorted_dir_set [of es x n] set_dir_set [of x n es] by auto

lemma ordered_child: "ordered (Dir es) \<Longrightarrow> map_of es x = Some n \<Longrightarrow> ordered n"
  by (fastforce dest: map_of_SomeD)

lemma ordered_get: "ordered fs \<Longrightarrow> fs_get fs p = Inr n \<Longrightarrow> ordered n"
proof (induction fs p rule: fs_get.induct)
  case (2 es x xs)
  then show ?case by (auto split: option.splits dest: ordered_child simp del: ordered.simps)
qed auto

lemma ordered_put: "ordered fs \<Longrightarrow> ordered v \<Longrightarrow> fs_put p v fs = Inr fs' \<Longrightarrow> ordered fs'"
proof (induction p v fs arbitrary: fs' rule: fs_put.induct)
  case (3 x y ys v es)
  from 3(4) obtain n n' where n: "map_of es x = Some n" "fs_put (y # ys) v n = Inr n'"
    "fs' = Dir (dir_set x n' es)" by (auto split: option.splits sum.splits)
  from 3(1) [OF n(1) ordered_child [OF 3(2) n(1)] 3(3) n(2)] 3(2) n(3) show ?case
    by (simp add: ordered_dir_set del: ordered.simps)
qed (auto simp: ordered_dir_set simp del: ordered.simps(3))

lemma ordered_del: "ordered fs \<Longrightarrow> ordered (fs_del p fs)"
proof (induction p fs rule: fs_del.induct)
  case (1 x es)
  then show ?case by (simp add: sorted_wrt_map sorted_wrt_filter)
next
  case (2 x y ys es)
  then show ?case
    using ordered_child [OF 2(2)] by (simp add: ordered_dir_set del: ordered.simps split: option.split)
qed auto

lemma ordered_mkdir_all: "ordered fs \<Longrightarrow> mkdir_all p fs = Inr fs' \<Longrightarrow> ordered fs'"
proof (induction p fs arbitrary: fs' rule: mkdir_all.induct)
  case (4 x xs es)
  from 4(3) obtain n' where n': "mkdir_all xs (case map_of es x of None \<Rightarrow> Dir [] | Some n \<Rightarrow> n) = Inr n'"
    "fs' = Dir (dir_set x n' es)" by (auto split: sum.splits)
  have "ordered (case map_of es x of None \<Rightarrow> Dir [] | Some n \<Rightarrow> n)"
    using ordered_child [OF 4(2)] by (simp split: option.split)
  from 4(1) [OF this n'(1)] 4(2) n'(2) show ?case by (simp add: ordered_dir_set del: ordered.simps)
qed auto

interpretation ordered_files: fs_kept d ordered for d
proof
  show "ordered fs'" if "ordered fs" "fs_put p (File c) fs = Inr fs'" for fs fs' p c
    using ordered_put [OF that(1) _ that(2)] by simp
qed (blast intro: ordered_put ordered_del ordered_mkdir_all ordered_get)+

section \<open>Paths outside the directory\<close>

lemma parallel_longer: "q \<parallel> d \<Longrightarrow> prefix d p \<Longrightarrow> p \<parallel> q"
  by (auto simp: prefix_def parallel_commute intro: parallel_below)

interpretation outside_files: fs_kept d "\<lambda>fs. q \<parallel> d \<longrightarrow> fs_view fs q = v" for d q v
proof
  fix fs fs' p r n
  assume inv: "q \<parallel> d \<longrightarrow> fs_view fs q = v" and p: "prefix d p"
  show del: "q \<parallel> d \<longrightarrow> fs_view (fs_del p fs) q = v"
    using inv parallel_longer [OF _ p] by (simp add: fs_view_del_parallel)
  show "q \<parallel> d \<longrightarrow> fs_view fs' q = v" if "fs_put p (File c) fs = Inr fs'" for c
    using inv parallel_longer [OF _ p] fs_view_put_parallel [OF that] by simp
  show "q \<parallel> d \<longrightarrow> fs_view fs' q = v" if "mkdir_all p fs = Inr fs'"
    using inv parallel_longer [OF _ p] fs_view_mkdir_all_parallel [OF that] by simp
  show "q \<parallel> d \<longrightarrow> fs_view fs' q = v" if "prefix d r" "fs_put r n (fs_del p fs) = Inr fs'"
    using del parallel_longer [OF _ that(1)] fs_view_put_parallel [OF that(2)] by simp
qed

end
