(* ===== verification/Work_Dir.thy ===== *)
theory Work_Dir
  imports File_Invariants
begin

text \<open>
  Copying the read-only manifest templates into the writable work directory
  (\<^verbatim>\<open>ensureWorkDir\<close>, \<^verbatim>\<open>copyDir\<close> and \<^verbatim>\<open>copyFile\<close> of internal/controller/manifests.go), with every
  failure of the underlying system calls.
\<close>

section \<open>Definitions\<close>

text \<open>
  \<^verbatim>\<open>copyFile\<close>: open the source, create the destination, transfer, close. A failed transfer
  leaves the bytes that were written before it.
\<close>

definition copyFile :: "io_env \<Rightarrow> path \<Rightarrow> path \<Rightarrow> fnode \<Rightarrow> goerr option \<times> fnode" where
  "copyFile io src dst fs =
     (case os_open io src fs of
        Inl e \<Rightarrow> (Some e, fs)
      | Inr n \<Rightarrow>
         (case os_create io dst fs of
            Inl e \<Rightarrow> (Some e, fs)
          | Inr fs1 \<Rightarrow>
             (case os_read io src n of
                Inl e \<Rightarrow> (Some e, fs_write dst
                   (case n of File c \<Rightarrow> take (partial io dst) c | _ \<Rightarrow> []) fs1)
              | Inr c \<Rightarrow>
                 (if faults io WriteOp dst
                  then (Some (sys EIO ''write''), fs_write dst (take (partial io dst) c) fs1)
                  else (if faults io CloseOp dst
                        then (Some (sys EIO ''close''), fs_write dst c fs1)
                        else (None, fs_write dst c fs1))))))"

text \<open>
  \<^verbatim>\<open>copyDir\<close>: \<^verbatim>\<open>filepath.Walk\<close> with the callback inlined. The walk reads a directory's names, calls
  the callback on the directory (with the listing error, if any) and then visits the entries in
  order; the callback skips symbolic links, creates directories and copies files, and its first
  error ends the walk.
\<close>

fun walk_copy :: "io_env \<Rightarrow> path \<Rightarrow> path \<Rightarrow> fnode \<Rightarrow> fnode \<Rightarrow> goerr option \<times> fnode"
and walk_entries ::
  "io_env \<Rightarrow> path \<Rightarrow> path \<Rightarrow> (string \<times> fnode) list \<Rightarrow> fnode \<Rightarrow> goerr option \<times> fnode" where
  "walk_copy io s d Symlink fs = (None, fs)"
| "walk_copy io s d (File c) fs = copyFile io s d fs"
| "walk_copy io s d (Dir es) fs =
     (if faults io ReadDirOp s then (Some (sys EIO ''readdir''), fs)
      else case os_mkdir_all io d fs of
             Inl e \<Rightarrow> (Some e, fs)
           | Inr fs1 \<Rightarrow> walk_entries io s d es fs1)"
| "walk_entries io s d [] fs = (None, fs)"
| "walk_entries io s d ((x, n) # es) fs =
     (if faults io LstatOp (s @ [x]) then (Some (sys EIO ''lstat''), fs)
      else case walk_copy io (s @ [x]) (d @ [x]) n fs of
             (Some e, fs1) \<Rightarrow> (Some e, fs1)
           | (None, fs1) \<Rightarrow> walk_entries io s d es fs1)"

definition copyDir :: "io_env \<Rightarrow> path \<Rightarrow> path \<Rightarrow> fnode \<Rightarrow> goerr option \<times> fnode" where
  "copyDir io src dst fs =
     (if faults io LstatOp src then (Some (sys EIO ''lstat''), fs)
      else case fs_get fs src of
             Inl e \<Rightarrow> (Some (sys e ''lstat''), fs)
           | Inr n \<Rightarrow> walk_copy io src dst n fs)"

definition ensureWorkDir :: "io_env \<Rightarrow> path \<Rightarrow> path \<Rightarrow> fnode \<Rightarrow> goerr option \<times> fnode" where
  "ensureWorkDir io templatePath workPath fs =
     (case os_read_dir io workPath fs of
        Inr (e # entries) \<Rightarrow> (None, fs)
      | _ \<Rightarrow> copyDir io templatePath workPath fs)"

text \<open>The template without its symbolic links, and trees whose directories name each entry once.\<close>

fun prune :: "fnode \<Rightarrow> fnode" and prune_entries :: "(string \<times> fnode) list \<Rightarrow> (string \<times> fnode) list"
where
  "prune (File c) = File c"
| "prune Symlink = Symlink"
| "prune (Dir es) = Dir (prune_entries es)"
| "prune_entries [] = []"
| "prune_entries ((x, n) # es) =
     (case n of Symlink \<Rightarrow> prune_entries es | _ \<Rightarrow> (x, prune n) # prune_entries es)"

fun wf_tree :: "fnode \<Rightarrow> bool" and wf_entries :: "(string \<times> fnode) list \<Rightarrow> bool" where
  "wf_tree (File c) = True"
| "wf_tree Symlink = True"
| "wf_tree (Dir es) = wf_entries es"
| "wf_entries [] = True"
| "wf_entries ((x, n) # es) = (wf_tree n \<and> x \<notin> fst ` set es \<and> wf_entries es)"

section \<open>Frame and functional correctness\<close>

lemma map_of_prune_entries:
  "wf_entries es \<Longrightarrow> map_of (prune_entries es) x =
     (case map_of es x of None \<Rightarrow> None | Some Symlink \<Rightarrow> None | Some n \<Rightarrow> Some (prune n))"
proof (induction es)
  case (Cons e es)
  obtain y n where e: "e = (y, n)" by (cases e)
  from Cons.prems e have "y \<notin> fst ` set es" by simp
  then have "map_of es y = None" by (simp add: map_of_eq_None_iff)
  with Cons e show ?case by (cases n) auto
qed simp

lemma copyFile_view:
  assumes "copyFile io s d fs = (r, fs')"
  shows "d \<parallel> p \<Longrightarrow> fs_view fs' p = fs_view fs p"
    and "d = q @ x # xs \<Longrightarrow> fs_view fs q = Inr VDir \<Longrightarrow> fs_view fs' q = Inr VDir"
proof -
  consider "fs' = fs" | fs1 c where "os_create io d fs = Inr fs1" "fs' = fs_write d c fs1"
    using assms by (auto simp: copyFile_def split: sum.splits if_splits)
  then have "(d \<parallel> p \<longrightarrow> fs_view fs' p = fs_view fs p) \<and>
    (d = q @ x # xs \<longrightarrow> fs_view fs q = Inr VDir \<longrightarrow> fs_view fs' q = Inr VDir)"
  proof cases
    case 2
    then show ?thesis
      using os_create_write_view(2) fs_view_put_above [OF fs_write_opened] by blast
  qed simp
  then show "d \<parallel> p \<Longrightarrow> fs_view fs' p = fs_view fs p"
    and "d = q @ x # xs \<Longrightarrow> fs_view fs q = Inr VDir \<Longrightarrow> fs_view fs' q = Inr VDir"
    by blast+
qed

lemma copyFile_ok:
  assumes "copyFile io s d fs = (None, fs')" and "fs_view fs s = Inr (VFile c)"
  shows "fs_get fs' d = Inr (File c)"
proof -
  from assms(2) have "fs_get fs s = Inr (File c)" by (simp add: fs_view_file_iff)
  with assms(1) obtain fs1 where "os_create io d fs = Inr fs1" "fs' = fs_write d c fs1"
    by (auto simp: copyFile_def os_open_def os_read_def split: sum.splits if_splits)
  then show ?thesis using os_create_write_view(1) by simp
qed

text \<open>Whatever the outcome, only paths at or below the destination change.\<close>

lemma walk_frame:
  "walk_copy io s d n fs = (r, fs') \<Longrightarrow> d \<parallel> p \<Longrightarrow> fs_view fs' p = fs_view fs p"
  "walk_entries io s d es fs = (r, fs') \<Longrightarrow> d \<parallel> p \<Longrightarrow> fs_view fs' p = fs_view fs p"
proof (induction io s d n fs and io s d es fs arbitrary: r fs' and r fs'
    rule: walk_copy_walk_entries.induct)
  case (2 io s d c fs)
  then show ?case using copyFile_view(1) by auto
next
  case (3 io s d es fs)
  then show ?case
    by (auto split: if_splits sum.splits dest!: os_mkdir_all_Inr dest: fs_view_mkdir_all_parallel)
next
  case (5 io s d x n es fs)
  from 5(4) have p: "(d @ [x]) \<parallel> p" by (rule parallel_below)
  show ?case
  proof (cases "faults io LstatOp (s @ [x])")
    case False
    obtain r1 fs1 where 1: "walk_copy io (s @ [x]) (d @ [x]) n fs = (r1, fs1)" by fastforce
    from 5(1) [OF False 1 p] have v: "fs_view fs1 p = fs_view fs p" .
    show ?thesis
    proof (cases r1)
      case None
      with 1 5(3) False have "walk_entries io s d es fs1 = (r, fs')" by simp
      with 5(2) [OF False 1 [symmetric] None _ 5(4)] v show ?thesis by simp
    qed (use 1 5(3) False v in simp)
  qed (use 5 in simp)
qed auto

lemma walk_above:
  "walk_copy io s d n fs = (r, fs') \<Longrightarrow> d = q @ x # xs \<Longrightarrow> fs_view fs q = Inr VDir \<Longrightarrow>
     fs_view fs' q = Inr VDir"
  "walk_entries io s d es fs = (r, fs') \<Longrightarrow> d = q @ xs' \<Longrightarrow> fs_view fs q = Inr VDir \<Longrightarrow>
     fs_view fs' q = Inr VDir"
proof (induction io s d n fs and io s d es fs arbitrary: r fs' x xs and r fs' xs'
    rule: walk_copy_walk_entries.induct)
  case (2 io s d c fs)
  then show ?case using copyFile_view(2) by auto
next
  case (3 io s d es fs)
  show ?case
  proof (cases "faults io ReadDirOp s \<or> (\<exists>e. os_mkdir_all io d fs = Inl e)")
    case False
    then obtain fs1 where 1: "\<not> faults io ReadDirOp s" "os_mkdir_all io d fs = Inr fs1"
      by (cases "os_mkdir_all io d fs") auto
    from 1(2) 3(3) have "fs_view fs1 q = Inr VDir"
      by (auto dest: os_mkdir_all_Inr fs_view_mkdir_all_above)
    with 3(1) [OF 1] 3(2,3) 1 show ?thesis by auto
  qed (use 3 in \<open>auto split: if_splits\<close>)
next
  case (5 io s d y n es fs)
  have d: "d @ [y] = q @ hd (xs' @ [y]) # tl (xs' @ [y])" using 5(4) by (cases xs') auto
  show ?case
  proof (cases "faults io LstatOp (s @ [y])")
    case False
    obtain r1 fs1 where 1: "walk_copy io (s @ [y]) (d @ [y]) n fs = (r1, fs1)" by fastforce
    from 5(1) [OF False 1 d 5(5)] have v: "fs_view fs1 q = Inr VDir" .
    show ?thesis
    proof (cases r1)
      case None
      with 1 5(3) False have "walk_entries io s d es fs1 = (r, fs')" by simp
      with 5(2) [OF False 1 [symmetric] None _ 5(4) v] show ?thesis by simp
    qed (use 1 5(3) False v in simp)
  qed (use 5 in simp)
qed auto

text \<open>
  One entry of a directory: what the walk shows afterwards, from what copying the entry shows
  (\<open>fs1\<close>) and what copying the later entries shows.
\<close>

lemma walk_entries_step:
  assumes wf: "wf_entries ((x, n) # es)"
    and new: "\<And>q. fs_view fs (d @ x # q) = Inl ENOENT"
    and w1: "walk_copy io (s @ [x]) (d @ [x]) n fs = (None, fs1)"
    and one: "n \<noteq> Symlink \<Longrightarrow> fs_view fs1 ((d @ [x]) @ p) = fs_view (prune n) p"
    and rest: "fs_view fs' (d @ y # p) = (if y \<in> fst ` set es
      then fs_view (Dir (prune_entries es)) (y # p) else fs_view fs1 (d @ y # p))"
  shows "fs_view fs' (d @ y # p) = (if y \<in> fst ` set ((x, n) # es)
      then fs_view (Dir (prune_entries ((x, n) # es))) (y # p) else fs_view fs (d @ y # p))"
proof (cases "y = x")
  case True
  from wf have x: "x \<notin> fst ` set es" by simp
  then have none: "map_of (prune_entries es) x = None"
    using wf by (simp add: map_of_prune_entries map_of_eq_None_iff [THEN iffD2])
  show ?thesis
  proof (cases "n = Symlink")
    case True
    with w1 have "fs1 = fs" by simp
    with rest new True \<open>y = x\<close> x none show ?thesis by simp
  next
    case False
    with one rest \<open>y = x\<close> x show ?thesis by (cases n) simp_all
  qed
next
  case False
  then have "fs_view fs1 (d @ y # p) = fs_view fs (d @ y # p)"
    by (intro walk_frame(1) [OF w1]) (auto simp: parallel_def)
  with False rest show ?thesis by (cases n) simp_all
qed

text \<open>
  What the recursion of the walk needs: the entries of the template are still there, and still
  missing at the destination, after the directory was made and after another entry was copied.
\<close>

lemma mkdir_step:
  assumes "mkdir_all d fs = Inr fs1" and "s \<parallel> d" and "\<And>q. fs_view fs (s @ q) = fs_view (Dir es) q"
    and "\<And>x q. fs_view fs (d @ x # q) = Inl ENOENT"
  shows "map_of es x = Some n \<Longrightarrow> fs_view fs1 (s @ x # q) = fs_view n q"
    and "fs_view fs1 (d @ x # q) = Inl ENOENT"
  using fs_view_mkdir_all_parallel [OF assms(1)] parallel_other_side [OF assms(2), of "[]" "x # q"]
    assms(3) [of "x # q"] fs_view_mkdir_all_below [OF assms(1), of x q] assms(4) [of x q] by simp_all

lemma entry_step:
  assumes "walk_copy io (s @ [x]) (d @ [x]) n fs = (r, fs1)" and "s \<parallel> d" and "x \<notin> fst ` set es"
    and "\<And>z m q. map_of ((x, n) # es) z = Some m \<Longrightarrow> fs_view fs (s @ z # q) = fs_view m q"
    and "\<And>z q. z \<in> fst ` set ((x, n) # es) \<Longrightarrow> fs_view fs (d @ z # q) = Inl ENOENT"
  shows "map_of es z = Some m \<Longrightarrow> fs_view fs1 (s @ z # q) = fs_view m q"
    and "z \<in> fst ` set es \<Longrightarrow> fs_view fs1 (d @ z # q) = Inl ENOENT"
proof -
  note frame = walk_frame(1) [OF assms(1)]
  assume z: "map_of es z = Some m"
  with assms(3) have "z \<noteq> x" by (force dest: map_of_SomeD)
  with z assms(4) [of z m q] frame [OF parallel_other_side [OF assms(2)]]
  show "fs_view fs1 (s @ z # q) = fs_view m q" by simp
next
  assume z: "z \<in> fst ` set es"
  with assms(3) have "x \<noteq> z" by blast
  then have "(d @ [x]) \<parallel> (d @ z # q)" by (rule parallel_sibling)
  with z assms(5) [of z q] walk_frame(1) [OF assms(1)] show "fs_view fs1 (d @ z # q) = Inl ENOENT" by simp
qed

lemma walk_dir_ok:
  assumes "mkdir_all d fs = Inr fs1" and "walk_entries io s d es fs1 = (None, fs')" and "wf_entries es"
    and "\<And>y p. fs_view fs' (d @ y # p) = (if y \<in> fst ` set es
        then fs_view (Dir (prune_entries es)) (y # p) else fs_view fs1 (d @ y # p))"
    and "\<And>x q. fs_view fs1 (d @ x # q) = Inl ENOENT"
  shows "fs_view fs' (d @ p) = fs_view (Dir (prune_entries es)) p"
proof (cases p)
  case Nil
  then show ?thesis
    using walk_above(2) [OF assms(2), of d "[]"] fs_view_mkdir_all_same [OF assms(1)] by simp
next
  case (Cons y p')
  have "y \<notin> fst ` set es \<Longrightarrow> map_of (prune_entries es) y = None"
    using assms(3) by (simp add: map_of_prune_entries map_of_eq_None_iff [THEN iffD2])
  with assms(4) [of y p'] assms(5) [of y p'] Cons show ?thesis by auto
qed

text \<open>
  A walk that ends without an error leaves, at and below the destination, exactly the template
  without its symbolic links.
\<close>

lemma walk_ok:
  "walk_copy io s d n fs = (None, fs') \<Longrightarrow> s \<parallel> d \<Longrightarrow> wf_tree n \<Longrightarrow>
     (\<And>q. fs_view fs (s @ q) = fs_view n q) \<Longrightarrow>
     (\<And>x q. fs_view fs (d @ x # q) = Inl ENOENT) \<Longrightarrow> n \<noteq> Symlink \<Longrightarrow>
     fs_view fs' (d @ p) = fs_view (prune n) p"
  "walk_entries io s d es fs = (None, fs') \<Longrightarrow> s \<parallel> d \<Longrightarrow> wf_entries es \<Longrightarrow>
     (\<And>x n q. map_of es x = Some n \<Longrightarrow> fs_view fs (s @ x # q) = fs_view n q) \<Longrightarrow>
     (\<And>x q. x \<in> fst ` set es \<Longrightarrow> fs_view fs (d @ x # q) = Inl ENOENT) \<Longrightarrow>
     fs_view fs' (d @ y # p) =
       (if y \<in> fst ` set es then fs_view (Dir (prune_entries es)) (y # p) else fs_view fs (d @ y # p))"
proof (induction io s d n fs and io s d es fs arbitrary: fs' p and fs' y p
    rule: walk_copy_walk_entries.induct)
  case (2 io s d c fs)
  from 2(4) [of "[]"] have "fs_view fs s = Inr (VFile c)" by simp
  with 2(1) have "fs_get fs' d = Inr (File c)" by (auto intro: copyFile_ok)
  then show ?case by (cases p) (auto simp: fs_view_def fs_get_append)
next
  case (3 io s d es fs)
  from 3(2) obtain fs1 where nf: "\<not> faults io ReadDirOp s" and mk: "os_mkdir_all io d fs = Inr fs1"
    and w: "walk_entries io s d es fs1 = (None, fs')"
    by (auto split: if_splits sum.splits)
  note mk' = os_mkdir_all_Inr [OF mk]
  note step = mkdir_step [OF mk' 3(3,5,6)]
  from 3(4) have wf: "wf_entries es" by simp
  have "fs_view fs' (d @ y # p') = (if y \<in> fst ` set es
      then fs_view (Dir (prune_entries es)) (y # p') else fs_view fs1 (d @ y # p'))" for y p'
    by (rule 3(1) [OF nf mk w 3(3) wf step])
  from walk_dir_ok [OF mk' w wf this step(2)] show ?case by simp
next
  case (5 io s d x n es fs)
  from 5(3) obtain fs1 where nf: "\<not> faults io LstatOp (s @ [x])"
    and w1: "walk_copy io (s @ [x]) (d @ [x]) n fs = (None, fs1)"
    and w2: "walk_entries io s d es fs1 = (None, fs')"
    by (auto split: if_splits prod.splits option.splits)
  from 5(5) have wf: "wf_tree n" "x \<notin> fst ` set es" "wf_entries es" by simp_all
  have rest: "fs_view fs' (d @ y # p) = (if y \<in> fst ` set es
      then fs_view (Dir (prune_entries es)) (y # p) else fs_view fs1 (d @ y # p))"
    by (rule 5(2) [OF nf w1 [symmetric] refl w2 5(4) wf(3) entry_step [OF w1 5(4) wf(2) 5(6,7)]])
  show ?case
  proof (rule walk_entries_step [OF 5(5) _ w1 _ rest])
    show "fs_view fs (d @ x # q) = Inl ENOENT" for q using 5(7) [of x q] by simp
    assume n: "n \<noteq> Symlink"
    show "fs_view fs1 ((d @ [x]) @ p) = fs_view (prune n) p"
    proof (rule 5(1) [OF nf w1 _ wf(1) _ _ n])
      show "(s @ [x]) \<parallel> (d @ [x])" using 5(4) by (rule parallel_append)
      show "fs_view fs ((s @ [x]) @ q) = fs_view n q" for q using 5(6) [of x n q] by simp
      show "fs_view fs ((d @ [x]) @ z # q) = Inl ENOENT" for z q
        using 5(7) [of x "z # q"] by simp
    qed
  qed
qed auto

section \<open>The copy goes through when no system call fails\<close>

lemma mkdir_all_defined:
  "fs_view fs p = Inr VDir \<Longrightarrow> fs_view fs (p @ [x]) = Inl ENOENT \<Longrightarrow>
     \<exists>fs'. mkdir_all (p @ [x]) fs = Inr fs'"
proof (induction p arbitrary: fs)
  case Nil
  then show ?case by (auto split: option.splits)
next
  case (Cons z p)
  then obtain es n where fs: "fs = Dir es" "map_of es z = Some n" "fs_view n p = Inr VDir"
      "fs_view n (p @ [x]) = Inl ENOENT"
    by (cases fs) (auto split: option.splits)
  from Cons.IH [OF fs(3,4)] fs show ?case by auto
qed

lemma copyFile_defined:
  assumes "fs_view fs s = Inr (VFile c)" and "fs_view fs d = Inr VDir"
    and "fs_view fs (d @ [x]) = Inl ENOENT"
  shows "\<exists>fs'. copyFile no_faults s (d @ [x]) fs = (None, fs')"
proof -
  from assms(3) have "fs_get fs (d @ [x]) = Inl ENOENT"
    by (simp add: fs_view_def split: sum.splits)
  moreover obtain fs1 where "fs_put (d @ [x]) (File []) fs = Inr fs1"
    using fs_put_defined [OF assms(2)] by blast
  ultimately have "os_create no_faults (d @ [x]) fs = Inr fs1" by (simp add: os_create_def)
  with assms(1) show ?thesis
    by (auto simp: copyFile_def os_open_def os_read_def fs_view_file_iff)
qed

lemma walk_defined:
  "io = no_faults \<Longrightarrow> s \<parallel> d \<Longrightarrow> wf_tree n \<Longrightarrow> (\<And>q. fs_view fs (s @ q) = fs_view n q) \<Longrightarrow>
     (\<And>x q. fs_view fs (d @ x # q) = Inl ENOENT) \<Longrightarrow>
     (\<And>c. n = File c \<Longrightarrow> \<exists>d0 x. d = d0 @ [x] \<and> fs_view fs d0 = Inr VDir \<and>
        fs_view fs d = Inl ENOENT) \<Longrightarrow>
     (\<And>es. n = Dir es \<Longrightarrow> \<exists>fs1. mkdir_all d fs = Inr fs1) \<Longrightarrow>
     \<exists>fs'. walk_copy io s d n fs = (None, fs')"
  "io = no_faults \<Longrightarrow> s \<parallel> d \<Longrightarrow> wf_entries es \<Longrightarrow>
     (\<And>x n q. map_of es x = Some n \<Longrightarrow> fs_view fs (s @ x # q) = fs_view n q) \<Longrightarrow>
     (\<And>x q. x \<in> fst ` set es \<Longrightarrow> fs_view fs (d @ x # q) = Inl ENOENT) \<Longrightarrow>
     fs_view fs d = Inr VDir \<Longrightarrow> \<exists>fs'. walk_entries io s d es fs = (None, fs')"
proof (induction io s d n fs and io s d es fs rule: walk_copy_walk_entries.induct)
  case (2 io s d c fs)
  from 2(6) obtain d0 x where "d = d0 @ [x]" "fs_view fs d0 = Inr VDir" "fs_view fs d = Inl ENOENT"
    by blast
  with 2(1) 2(4) [of "[]"] show ?case using copyFile_defined by simp
next
  case (3 io s d es fs)
  from 3(8) obtain fs1 where mk: "mkdir_all d fs = Inr fs1" by blast
  with 3(2) have mk': "os_mkdir_all io d fs = Inr fs1" by (simp add: os_mkdir_all_def)
  have "\<exists>fs'. walk_entries io s d es fs1 = (None, fs')"
    using 3(1) [OF _ mk' 3(2,3) _ mkdir_step [OF mk 3(3,5,6)] fs_view_mkdir_all_same [OF mk]] 3(2,4) by simp
  with 3(2) mk' show ?case by simp
next
  case (5 io s d x n es fs)
  from 5(5) have wf: "wf_tree n" "x \<notin> fst ` set es" "wf_entries es" by simp_all
  have new: "fs_view fs (d @ x # q) = Inl ENOENT" for q using 5(7) [of x q] by simp
  have nf: "\<not> faults io LstatOp (s @ [x])" using 5(3) by simp
  have "\<exists>fs1. walk_copy io (s @ [x]) (d @ [x]) n fs = (None, fs1)"
  proof (rule 5(1) [OF nf 5(3) _ wf(1)])
    show "(s @ [x]) \<parallel> (d @ [x])" using 5(4) by (rule parallel_append)
    show "fs_view fs ((s @ [x]) @ q) = fs_view n q" for q using 5(6) [of x n q] by simp
    show "fs_view fs ((d @ [x]) @ z # q) = Inl ENOENT" for z q using new [of "z # q"] by simp
    show "\<exists>d0 y. d @ [x] = d0 @ [y] \<and> fs_view fs d0 = Inr VDir \<and> fs_view fs (d @ [x]) = Inl ENOENT"
      using 5(8) new [of "[]"] by blast
    show "\<exists>fs1. mkdir_all (d @ [x]) fs = Inr fs1"
      using 5(8) new [of "[]"] by (rule mkdir_all_defined)
  qed
  then obtain fs1 where w: "walk_copy io (s @ [x]) (d @ [x]) n fs = (None, fs1)" by blast
  have "\<exists>fs'. walk_entries io s d es fs1 = (None, fs')"
    using walk_above(1) [OF w, of d x "[]"] 5(8)
    by (intro 5(2) [OF nf w [symmetric] refl 5(3,4) wf(3) entry_step [OF w 5(4) wf(2) 5(6,7)]]) simp_all
  with nf w show ?case by simp
qed auto

lemma view_below_get: "fs_get fs s = Inr n \<Longrightarrow> fs_view fs (s @ q) = fs_view n q"
  by (simp add: fs_view_def fs_get_append)

section \<open>Properties\<close>

text \<open>The destination is missing or an empty directory.\<close>

definition vacant :: "path \<Rightarrow> fnode \<Rightarrow> bool" where
  "vacant d fs \<longleftrightarrow> fs_view fs d = Inl ENOENT \<or> fs_get fs d = Inr (Dir [])"

lemma vacant_below: "vacant d fs \<Longrightarrow> fs_view fs (d @ x # q) = Inl ENOENT"
  by (auto simp: vacant_def fs_view_def fs_get_append split: sum.splits)

lemma copyDir_walk:
  "fs_get fs src = Inr t \<Longrightarrow> copyDir io src dst fs = (None, fs') \<Longrightarrow>
     walk_copy io src dst t fs = (None, fs')"
  by (auto simp: copyDir_def split: if_splits)

text \<open>
  C31: When \<^verbatim>\<open>copyDir\<close> returns no error on a vacant destination, every path at or below the
  destination shows exactly what the template shows there with its symbolic links left out,
  and no path outside the destination has changed.
\<close>

theorem copyDir_copies_template:
  assumes "copyDir io src dst fs = (None, fs')" and "src \<parallel> dst"
    and "fs_get fs src = Inr (Dir es)" and "wf_tree (Dir es)" and "vacant dst fs"
  shows "(\<forall>p. fs_view fs' (dst @ p) = fs_view (prune (Dir es)) p) \<and>
    (\<forall>p. dst \<parallel> p \<longrightarrow> fs_view fs' p = fs_view fs p)"
proof -
  note w = copyDir_walk [OF assms(3) assms(1)]
  have "fs_view fs' (dst @ p) = fs_view (prune (Dir es)) p" for p
    by (rule walk_ok(1) [OF w assms(2,4) view_below_get [OF assms(3)] vacant_below [OF assms(5)]])
      simp
  with walk_frame(1) [OF w] show ?thesis by blast
qed

definition sample_template :: fnode where
  "sample_template = Dir [(''base'', Dir [(''crd.yaml'', File ''kind: CRD'')]),
     (''link'', Symlink), (''params.env'', File ''a=b'')]"

definition sample_fs :: fnode where
  "sample_fs = Dir [(''template'', sample_template), (''work'', Dir [])]"

theorem copyDir_copies_template_witness:
  "let fs' = snd (copyDir no_faults [''template''] [''work'', ''manifests''] sample_fs) in
    fs_view fs' [''work'', ''manifests'', ''base'', ''crd.yaml''] = Inr (VFile ''kind: CRD'') \<and>
    fs_view fs' [''work'', ''manifests'', ''link''] = Inl ENOENT \<and>
    fs_view fs' [''template''] = Inr VDir"
proof -
  obtain fs' where run:
      "copyDir no_faults [''template''] [''work'', ''manifests''] sample_fs = (None, fs')"
    by (simp add: copyDir_def sample_fs_def sample_template_def copyFile_def os_mkdir_all_def
        os_open_def os_create_def os_read_def fs_write_def)
  have par: "[''template''] \<parallel> [''work'', ''manifests'']" by (simp add: parallel_def)
  have vac: "vacant [''work'', ''manifests''] sample_fs" by (simp add: vacant_def sample_fs_def)
  obtain es where t: "sample_template = Dir es" by (simp add: sample_template_def)
  have src: "fs_get sample_fs [''template''] = Inr (Dir es)"
    by (simp add: sample_fs_def flip: t)
  have wf: "wf_tree (Dir es)" by (simp add: sample_template_def flip: t)
  have all: "\<forall>p. fs_view fs' ([''work'', ''manifests''] @ p) = fs_view (prune (Dir es)) p"
    and frame: "\<forall>p. [''work'', ''manifests''] \<parallel> p \<longrightarrow> fs_view fs' p = fs_view sample_fs p"
    using copyDir_copies_template [OF run par src wf vac] by blast+
  show ?thesis
    using run all [rule_format, of "[''base'', ''crd.yaml'']"] all [rule_format, of "[''link'']"]
      frame [rule_format, of "[''template'']"]
    by (simp add: parallel_def sample_fs_def sample_template_def flip: t)
qed

text \<open>
  With no failing system call, a vacant work directory whose parents can be created is
  filled with the template: \<^verbatim>\<open>ensureWorkDir\<close> returns no error and every path of the template (its
  symbolic links left out) is there.
\<close>

lemma workdir_fills:
  assumes "src \<parallel> dst" and "fs_get fs src = Inr (Dir es)" and "wf_tree (Dir es)"
    and "vacant dst fs" and "mkdir_all dst fs = Inr fs0"
  shows "\<exists>fs'. ensureWorkDir no_faults src dst fs = (None, fs') \<and>
    (\<forall>p. fs_view fs' (dst @ p) = fs_view (prune (Dir es)) p)"
proof -
  have "\<exists>fs'. walk_copy no_faults src dst (Dir es) fs = (None, fs')"
    using assms(5) by (intro walk_defined(1) [OF refl assms(1,3) view_below_get [OF assms(2)]
          vacant_below [OF assms(4)]]) auto
  with assms(2) obtain fs' where run: "copyDir no_faults src dst fs = (None, fs')"
    by (auto simp: copyDir_def)
  moreover have "ensureWorkDir no_faults src dst fs = copyDir no_faults src dst fs"
    using assms(4) by (auto simp: ensureWorkDir_def os_read_dir_def vacant_def fs_view_def
        split: sum.splits fnode.splits list.splits)
  moreover have "fs_view fs' (dst @ p) = fs_view (prune (Dir es)) p" for p
    by (rule walk_ok(1) [OF copyDir_walk [OF assms(2) run] assms(1,3) view_below_get [OF assms(2)]
          vacant_below [OF assms(4)]]) simp
  ultimately show ?thesis by auto
qed

lemma ensureWorkDir_nonempty:
  "fs_get fs dst = Inr (Dir (x # xs)) \<Longrightarrow> \<not> faults io ReadDirOp dst \<Longrightarrow>
     ensureWorkDir io src dst fs = (None, fs)"
  by (simp add: ensureWorkDir_def os_read_dir_def split: list.splits)

definition sample_faults :: io_env where
  "sample_faults = \<lparr>faults = (\<lambda>op p. op = CreateOp \<and> p = [''work'', ''manifests'', ''params.env'']),
     partial = (\<lambda>_. 0)\<rparr>"

lemma prune_entries_Nil: "prune_entries es = [] \<longleftrightarrow> (\<forall>(y, n)\<in>set es. n = Symlink)"
  by (induction es) (auto split: fnode.splits)

lemma view_nonempty:
  assumes "\<forall>q. fs_view fs (d @ q) = fs_view (Dir es) q" and "es \<noteq> []"
  shows "\<exists>es'. fs_get fs d = Inr (Dir es') \<and> es' \<noteq> []"
proof -
  obtain y n es0 where es: "es = (y, n) # es0" using assms(2) by (cases es) auto
  from assms(1) [rule_format, of "[]"] obtain es' where d: "fs_get fs d = Inr (Dir es')"
    by (auto simp: fs_view_def split: sum.splits elim: node_view.elims)
  from assms(1) [rule_format, of "[y]"] es have "fs_view fs (d @ [y]) \<noteq> Inl ENOENT"
    by (cases n) simp_all
  with d have "es' \<noteq> []" by (auto simp: fs_view_def fs_get_append)
  with d show ?thesis by blast
qed

text \<open>Without a failing call below the source or the destination a copy is the undisturbed one.\<close>

lemma copyFile_quiet:
  assumes "\<And>op. \<not> faults io op s" and "\<And>op. \<not> faults io op d"
  shows "copyFile io s d fs = copyFile no_faults s d fs"
  using assms
  by (auto simp: copyFile_def os_open_def os_create_def os_read_def split: sum.splits fnode.splits)

lemma walk_quiet:
  "(\<And>op q. \<not> faults io op (s @ q)) \<Longrightarrow> (\<And>op q. \<not> faults io op (d @ q)) \<Longrightarrow>
     walk_copy io s d n fs = walk_copy no_faults s d n fs"
  "(\<And>op x q. x \<in> fst ` set es \<Longrightarrow> \<not> faults io op (s @ x # q) \<and> \<not> faults io op (d @ x # q)) \<Longrightarrow>
     walk_entries io s d es fs = walk_entries no_faults s d es fs"
proof (induction io s d n fs and io s d es fs rule: walk_copy_walk_entries.induct)
  case (2 io s d c fs)
  have "\<not> faults io op s" "\<not> faults io op d" for op using 2(1) [of op "[]"] 2(2) [of op "[]"] by simp_all
  then show ?case unfolding walk_copy.simps by (rule copyFile_quiet)
next
  case (3 io s d es fs)
  have no: "\<not> faults io op s" "\<not> faults io op d" for op using 3(2,3) [of op "[]"] by simp_all
  have "walk_entries io s d es fs1 = walk_entries no_faults s d es fs1" if "os_mkdir_all io d fs = Inr fs1" for fs1
    using 3(1) [OF no(1) that] 3(2,3) by blast
  with no show ?case by (simp add: os_mkdir_all_def split: sum.split)
next
  case (5 io s d x n es fs)
  have at: "\<not> faults io op ((s @ [x]) @ q)" "\<not> faults io op ((d @ [x]) @ q)" for op q using 5(3) [of x op q] by simp_all
  then have no: "\<not> faults io LstatOp (s @ [x])" by (metis append_Nil2)
  have "walk_entries io s d es fs1 = walk_entries no_faults s d es fs1"
    if "walk_copy io (s @ [x]) (d @ [x]) n fs = (None, fs1)" for fs1
    using 5(2) [OF no that [symmetric] refl] 5(3) by simp
  with 5(1) [OF no at] no show ?case by (simp split: prod.split option.split)
qed simp_all

lemma walk_entries_append:
  "walk_entries io s d (as @ bs) fs =
     (case walk_entries io s d as fs of (Some e, fs1) \<Rightarrow> (Some e, fs1) | (None, fs1) \<Rightarrow> walk_entries io s d bs fs1)"
  by (induction as arbitrary: fs) (auto split: prod.split option.split)

lemma wf_entries_append:
  "wf_entries (as @ bs) \<longleftrightarrow> wf_entries as \<and> wf_entries bs \<and> (\<forall>z\<in>fst ` set bs. z \<notin> fst ` set as)"
  by (induction as) (force simp: image_iff)+

text \<open>The copy of the entries before a file whose creation fails.\<close>

lemma copy_until_fault:
  assumes "src \<parallel> dst" and "fs_get fs src = Inr (Dir (es1 @ (x, File c) # es2))"
    and "wf_tree (Dir (es1 @ (x, File c) # es2))" and "vacant dst fs" and "mkdir_all dst fs = Inr fs0"
    and "faults io = (\<lambda>op p. op = CreateOp \<and> p = dst @ [x])"
  shows "\<exists>fs1. copyDir io src dst fs = (Some (sys EIO ''open''), fs1) \<and>
    (\<forall>q. fs_view fs1 (dst @ q) = fs_view (prune (Dir es1)) q)"
proof -
  let ?es = "es1 @ (x, File c) # es2"
  have wf: "wf_entries es1" "x \<notin> fst ` set es1" "wf_entries ?es" using assms(3) by (auto simp: wf_entries_append)
  note step = mkdir_step [OF assms(5,1) view_below_get [OF assms(2)] vacant_below [OF assms(4)]]
  have sub: "map_of es1 z = Some n \<Longrightarrow> map_of ?es z = Some n" for z n by simp
  obtain fs1 where w: "walk_entries no_faults src dst es1 fs0 = (None, fs1)"
    using walk_defined(2) [OF refl assms(1) wf(1) step(1) [OF sub] step(2) fs_view_mkdir_all_same [OF assms(5)]]
    by blast
  have apart: "src @ q \<noteq> dst @ p" for p q
    using assms(1) by (metis parallelD1 parallelD2 prefixI prefix_same_cases)
  then have quiet: "walk_entries io src dst es1 fs0 = (None, fs1)"
    using walk_quiet(2) [of es1 io src dst fs0] w wf(2) assms(6) by auto
  have view: "fs_view fs1 (dst @ y # p) = (if y \<in> fst ` set es1
      then fs_view (Dir (prune_entries es1)) (y # p) else fs_view fs0 (dst @ y # p))" for y p
    by (rule walk_ok(2) [OF w assms(1) wf(1) step(1) [OF sub] step(2)])
  have copied: "fs_view fs1 (dst @ q) = fs_view (prune (Dir es1)) q" for q
    using walk_dir_ok [OF assms(5) w wf(1) view step(2)] by simp
  have "map_of ?es x = Some (File c)" using wf(2) by (simp add: map_add_Some_iff map_of_eq_None_iff)
  then have "fs_view fs0 (src @ [x]) = Inr (VFile c)" using step(1) [of x "File c" "[]"] by simp
  moreover have "fs_view fs1 (src @ [x]) = fs_view fs0 (src @ [x])"
    using walk_frame(2) [OF w, of "src @ [x]"] parallel_other_side [OF assms(1), of "[]" "[x]"] by simp
  ultimately have "fs_get fs1 (src @ [x]) = Inr (File c)" by (metis fs_view_file_iff)
  then have "copyFile io (src @ [x]) (dst @ [x]) fs1 = (Some (sys EIO ''open''), fs1)"
    by (simp add: copyFile_def os_open_def os_create_def assms(6))
  with quiet have "walk_entries io src dst ?es fs0 = (Some (sys EIO ''open''), fs1)"
    by (simp add: walk_entries_append assms(6))
  with assms(2,5) copied show ?thesis by (auto simp: copyDir_def os_mkdir_all_def assms(6))
qed

text \<open>
  C40: A copy that failed part-way is never resumed. Take any template and a vacant work directory
  in which the creation of one file of the template is the only system call that fails, with an
  entry that is not a symbolic link before that file. Then \<^verbatim>\<open>ensureWorkDir\<close> reports the error and leaves exactly the
  entries of the template before the file; the file itself, like all after it, is missing. Every
  later \<^verbatim>\<open>ensureWorkDir\<close> that can read the directory reports success and changes nothing, so the
  rest of the template never arrives, although without the one failure the first call would
  have copied it all.
\<close>

theorem ensureWorkDir_accepts_partial_copy:
  assumes "src \<parallel> dst" and "fs_get fs src = Inr (Dir (es1 @ (x, File c) # es2))"
    and "wf_tree (Dir (es1 @ (x, File c) # es2))" and "vacant dst fs" and "mkdir_all dst fs = Inr fs0"
    and "faults io = (\<lambda>op p. op = CreateOp \<and> p = dst @ [x])" and "\<exists>(y, n)\<in>set es1. n \<noteq> Symlink"
  shows "(\<exists>e fs1. ensureWorkDir io src dst fs = (Some e, fs1) \<and>
      (\<forall>q. fs_view fs1 (dst @ q) = fs_view (prune (Dir es1)) q) \<and> fs_view fs1 (dst @ [x]) = Inl ENOENT \<and>
      (\<forall>io'. \<not> faults io' ReadDirOp dst \<longrightarrow> ensureWorkDir io' src dst fs1 = (None, fs1))) \<and>
    (\<exists>fs2. ensureWorkDir no_faults src dst fs = (None, fs2) \<and> fs_view fs2 (dst @ [x]) = Inr (VFile c))"
proof -
  let ?es = "es1 @ (x, File c) # es2"
  have wf: "wf_entries ?es" "wf_entries es1" "x \<notin> fst ` set es1" using assms(3) by (auto simp: wf_entries_append)
  from copy_until_fault [OF assms(1-6)] obtain fs1 where
    run: "copyDir io src dst fs = (Some (sys EIO ''open''), fs1)"
    and copied: "\<forall>q. fs_view fs1 (dst @ q) = fs_view (prune (Dir es1)) q" by blast
  have first: "ensureWorkDir io src dst fs = (Some (sys EIO ''open''), fs1)"
    using run assms(4) by (auto simp: ensureWorkDir_def os_read_dir_def assms(6) vacant_def fs_view_def
        split: sum.splits fnode.splits list.splits)
  have missing: "fs_view fs1 (dst @ [x]) = Inl ENOENT"
    using copied wf(2,3) by (simp add: map_of_prune_entries map_of_eq_None_iff [THEN iffD2])
  have "prune_entries es1 \<noteq> []" using assms(7) prune_entries_Nil by fastforce
  then obtain es' where "fs_get fs1 dst = Inr (Dir es')" "es' \<noteq> []"
    using view_nonempty [of fs1 dst "prune_entries es1"] copied by auto
  then have "ensureWorkDir io' src dst fs1 = (None, fs1)" if "\<not> faults io' ReadDirOp dst" for io'
    using that by (cases es') (simp_all add: ensureWorkDir_nonempty)
  moreover obtain fs2 where fs2: "ensureWorkDir no_faults src dst fs = (None, fs2)"
    "\<forall>p. fs_view fs2 (dst @ p) = fs_view (prune (Dir ?es)) p"
    using workdir_fills [OF assms(1-5)] by blast
  moreover have "map_of ?es x = Some (File c)"
    using wf(3) by (simp add: map_add_Some_iff map_of_eq_None_iff)
  then have "fs_view (prune (Dir ?es)) [x] = Inr (VFile c)"
    by (simp add: map_of_prune_entries [OF wf(1)] del: map_of_append)
  ultimately show ?thesis using first copied missing by auto
qed

theorem ensureWorkDir_accepts_partial_copy_witness:
  "\<exists>e fs1. ensureWorkDir sample_faults [''template''] [''work'', ''manifests''] sample_fs = (Some e, fs1) \<and>
     fs_view fs1 [''work'', ''manifests'', ''base'', ''crd.yaml''] = Inr (VFile ''kind: CRD'') \<and>
     fs_view fs1 [''work'', ''manifests'', ''params.env''] = Inl ENOENT \<and>
     ensureWorkDir no_faults [''template''] [''work'', ''manifests''] fs1 = (None, fs1)"
proof -
  let ?es = "[(''base'', Dir [(''crd.yaml'', File ''kind: CRD'')]), (''link'', Symlink)]"
  have t: "?es @ [(''params.env'', File ''a=b'')] =
      [(''base'', Dir [(''crd.yaml'', File ''kind: CRD'')]), (''link'', Symlink), (''params.env'', File ''a=b'')]" by simp
  have par: "[''template''] \<parallel> [''work'', ''manifests'']" by (simp add: parallel_def)
  have src: "fs_get sample_fs [''template''] = Inr (Dir (?es @ [(''params.env'', File ''a=b'')]))"
    and wf: "wf_tree (Dir (?es @ [(''params.env'', File ''a=b'')]))"
    and vac: "vacant [''work'', ''manifests''] sample_fs"
    by (simp_all add: sample_fs_def sample_template_def vacant_def)
  obtain fs0 where mk: "mkdir_all [''work'', ''manifests''] sample_fs = Inr fs0"
    by (simp add: sample_fs_def)
  have io: "faults sample_faults = (\<lambda>op p. op = CreateOp \<and> p = [''work'', ''manifests''] @ [''params.env''])"
    by (simp add: sample_faults_def)
  have "\<exists>(y, n)\<in>set ?es. n \<noteq> Symlink" by simp
  from ensureWorkDir_accepts_partial_copy [OF par src wf vac mk io this] obtain e fs1 where
    1: "ensureWorkDir sample_faults [''template''] [''work'', ''manifests''] sample_fs = (Some e, fs1)"
    and 2: "\<forall>q. fs_view fs1 ([''work'', ''manifests''] @ q) = fs_view (prune (Dir ?es)) q"
    and 3: "fs_view fs1 ([''work'', ''manifests''] @ [''params.env'']) = Inl ENOENT"
    and 4: "\<forall>io'. \<not> faults io' ReadDirOp [''work'', ''manifests''] \<longrightarrow>
      ensureWorkDir io' [''template''] [''work'', ''manifests''] fs1 = (None, fs1)" by blast
  from 2 [rule_format, of "[''base'', ''crd.yaml'']"] 3 4 1 show ?thesis by simp
qed

section \<open>Templates without links\<close>

lemma ordered_wf:
  "ordered t \<Longrightarrow> wf_tree t"
  "sorted_wrt (<) (map fst es) \<Longrightarrow> \<forall>e\<in>set es. ordered (snd e) \<Longrightarrow> wf_entries es"
proof (induction t and es rule: wf_tree_wf_entries.induct)
  case (5 x n es)
  then show ?case by (auto simp: sorted_wrt_map)
qed simp_all

lemma wf_entries_child: "wf_entries es \<Longrightarrow> map_of es x = Some n \<Longrightarrow> wf_tree n"
  by (induction es) (auto split: if_splits)

lemma prune_view:
  assumes "wf_tree t" and "fs_view t p = v" and "v = Inr (VFile c) \<or> v = Inl ENOENT"
  shows "fs_view (prune t) p = v"
  using assms
proof (induction p arbitrary: t)
  case Nil
  then show ?case by (cases t) auto
next
  case (Cons x p)
  show ?case
  proof (cases t)
    case (Dir es)
    show ?thesis
    proof (cases "map_of es x")
      case (Some n)
      with Cons.prems Dir have n: "wf_tree n" "fs_view n p = v" by (simp_all add: wf_entries_child)
      from Cons.IH [OF this Cons.prems(3)] have "fs_view (prune n) p = v" .
      moreover have "n \<noteq> Symlink" using n(2) Cons.prems(3) by (cases p) auto
      ultimately show ?thesis using Dir Some Cons.prems(1) by (cases n) (simp_all add: map_of_prune_entries)
    qed (use Dir Cons.prems in \<open>simp add: map_of_prune_entries\<close>)
  qed (use Cons.prems in auto)
qed

section \<open>What a copy cannot break\<close>

context fs_kept
begin

lemma copyFile_keeps: "inv fs \<Longrightarrow> prefix d dst \<Longrightarrow> inv (snd (copyFile io src dst fs))"
  by (auto simp: copyFile_def split: sum.split intro: os_keeps)

lemma walk_keeps:
  "inv fs \<Longrightarrow> prefix d dst \<Longrightarrow> inv (snd (walk_copy io src dst n fs))"
  "inv fs \<Longrightarrow> prefix d dst \<Longrightarrow> inv (snd (walk_entries io src dst es fs))"
proof (induction io src dst n fs and io src dst es fs rule: walk_copy_walk_entries.induct)
  case (5 io s dst x n es fs)
  have "inv (snd (walk_copy io (s @ [x]) (dst @ [x]) n fs))" if "\<not> faults io LstatOp (s @ [x])"
    using 5(1) [OF that 5(3)] 5(4) by simp
  with 5(2-4) show ?case by (auto split: prod.split option.split)
qed (auto split: sum.split intro: copyFile_keeps os_mkdir_all_keeps)

lemma ensureWorkDir_keeps: "inv fs \<Longrightarrow> prefix d dst \<Longrightarrow> inv (snd (ensureWorkDir io src dst fs))"
  by (auto simp: ensureWorkDir_def copyDir_def split: sum.split list.split intro: walk_keeps)

end

end
