(* ===== verification/Params.thy ===== *)
theory Params
  imports File_Invariants
begin

text \<open>
  The \<^verbatim>\<open>params.env\<close> files (internal/controller/params.go): parsing, writing through a temporary
  file, and the two ways of overriding entries, from \<^verbatim>\<open>RELATED_IMAGE_*\<close> environment variables and
  from static values. The argument \<open>iter\<close> is the iteration order of Go maps, \<open>env\<close> is
  \<^verbatim>\<open>os.Getenv\<close> (the empty string for an unset variable).
\<close>

section \<open>Constants\<close>

definition imageParamControllerImage :: string where
  "imageParamControllerImage = ''odh-kubeflow-trainer-controller-image''"

definition paramOperatorNamespace :: string where
  "paramOperatorNamespace = ''operator-namespace''"

definition relatedImageThTorchCuda :: string where
  "relatedImageThTorchCuda = ''RELATED_IMAGE_ODH_TH_TORCH_CUDA_PY312_IMAGE''"

definition relatedImageThTorchRocm :: string where
  "relatedImageThTorchRocm = ''RELATED_IMAGE_ODH_TH_TORCH_ROCM_PY312_IMAGE''"

definition relatedImageThTorchCpu :: string where
  "relatedImageThTorchCpu = ''RELATED_IMAGE_ODH_TH_TORCH_CPU_PY312_IMAGE''"

definition relatedImageModelOptCuda :: string where
  "relatedImageModelOptCuda = ''RELATED_IMAGE_RHAII_MODEL_OPT_CUDA_IMAGE''"

definition relatedImageVllm :: string where
  "relatedImageVllm = ''RELATED_IMAGE_RHAII_VLLM_CUDA_IMAGE''"

definition trainerImageParamMap :: "(string, string) gomap" where
  "trainerImageParamMap = [(imageParamControllerImage, ''RELATED_IMAGE_ODH_TRAINER_IMAGE'')]"

definition imageStreamParamMap :: "(string, string) gomap" where
  "imageStreamParamMap =
     [(''odh-training-universal-workbench-image-cuda-3-6'', relatedImageThTorchCuda),
      (''odh-training-universal-workbench-image-rocm-3-6'', relatedImageThTorchRocm),
      (''odh-training-universal-workbench-image-cpu-3-6'', relatedImageThTorchCpu)]"

definition runtimesParamMap :: "(string, string) gomap" where
  "runtimesParamMap =
     [(''odh-th-torch-cuda-py312-image'', relatedImageThTorchCuda),
      (''odh-th-torch-rocm-py312-image'', relatedImageThTorchRocm),
      (''odh-th-torch-cpu-py312-image'', relatedImageThTorchCpu),
      (''odh-openmpi-cuda-image'', relatedImageThTorchCuda),
      (''odh-openmpi-cpu-image'', relatedImageThTorchCpu),
      (''odh-speculator-model-opt-cuda-image'', relatedImageModelOptCuda),
      (''odh-vllm-cuda-image'', relatedImageVllm)]"

section \<open>Reading\<close>

text \<open>One iteration of the scanning loop of \<^verbatim>\<open>readParams\<close>.\<close>

definition parse_line :: "string \<Rightarrow> (string, string) gomap \<Rightarrow> (string, string) gomap" where
  "parse_line raw params =
     (let line = trim_space raw in
      if line = [] \<or> has_prefix line ''#'' then params
      else case cut CHR ''='' line of
             None \<Rightarrow> params
           | Some (key, val) \<Rightarrow> map_set key val params)"

definition parse_params :: "string \<Rightarrow> (string, string) gomap result" where
  "parse_params text =
     (case scan_lines text of
        (ls, None) \<Rightarrow> Inr (fold parse_line ls [])
      | (ls, Some e) \<Rightarrow> Inl e)"

definition readParams :: "io_env \<Rightarrow> path \<Rightarrow> fnode \<Rightarrow> (string, string) gomap result" where
  "readParams io p fs =
     (case os_open io p fs of
        Inl e \<Rightarrow> Inl e
      | Inr n \<Rightarrow> (case os_read io p n of Inl e \<Rightarrow> Inl e | Inr text \<Rightarrow> parse_params text))"

section \<open>Writing\<close>

definition param_line :: "string \<times> string \<Rightarrow> string" where
  "param_line kv = fst kv @ ''='' @ snd kv @ [newline]"

definition print_params :: "(string, string) gomap \<Rightarrow> string" where
  "print_params kvs = concat (map param_line kvs)"

definition tmp_path :: "path \<Rightarrow> path" where
  "tmp_path p = butlast p @ [last p @ ''.tmp'']"

text \<open>
  \<^verbatim>\<open>writeParams\<close>: a failing write, flush or close removes the temporary file again (and ignores a
  failure of that); the rename comes last and puts the complete file in place.
\<close>

definition writeParams ::
  "((string, string) gomap \<Rightarrow> (string, string) gomap) \<Rightarrow> io_env \<Rightarrow> path \<Rightarrow>
     (string, string) gomap \<Rightarrow> fnode \<Rightarrow> goerr option \<times> fnode" where
  "writeParams iter io p params fs =
     (let tmp = tmp_path p; text = print_params (iter params) in
      case os_create io tmp fs of
        Inl e \<Rightarrow> (Some e, fs)
      | Inr fs1 \<Rightarrow>
         (if faults io WriteOp tmp
          then (Some (sys EIO ''write''),
                os_remove io tmp (fs_write tmp (take (partial io tmp) text) fs1))
          else if faults io FlushOp tmp
          then (Some (sys EIO ''write''),
                os_remove io tmp (fs_write tmp (take (partial io tmp) text) fs1))
          else if faults io CloseOp tmp
          then (Some (sys EIO ''close''), os_remove io tmp (fs_write tmp text fs1))
          else os_rename io tmp p (fs_write tmp text fs1)))"

section \<open>Overriding entries\<close>

definition set_static :: "(string, string) gomap \<Rightarrow> (string, string) gomap \<Rightarrow> (string, string) gomap"
where
  "set_static values params = fold (\<lambda>(key, val) m. map_set key val m) values params"

definition set_overrides ::
  "(string \<Rightarrow> string) \<Rightarrow> (string, string) gomap \<Rightarrow> (string, string) gomap \<Rightarrow> (string, string) gomap"
where
  "set_overrides env paramMap params =
     fold (\<lambda>(key, envVar) m. let val = env envVar in if val \<noteq> [] then map_set key val m else m)
       paramMap params"

definition applyStaticParams ::
  "((string, string) gomap \<Rightarrow> (string, string) gomap) \<Rightarrow> io_env \<Rightarrow> path \<Rightarrow>
     (string, string) gomap \<Rightarrow> fnode \<Rightarrow> goerr option \<times> fnode" where
  "applyStaticParams iter io dir values fs =
     (let paramsPath = dir @ [''params.env''] in
      case os_stat io paramsPath fs of
        Some e \<Rightarrow> (if is_not_exist e then (None, fs) else (Some e, fs))
      | None \<Rightarrow>
         (case readParams io paramsPath fs of
            Inl e \<Rightarrow> (Some (Wrap ''reading params.env'' e), fs)
          | Inr params \<Rightarrow>
              writeParams iter io paramsPath (set_static (iter values) params) fs))"

definition applyParamOverrides ::
  "((string, string) gomap \<Rightarrow> (string, string) gomap) \<Rightarrow> (string \<Rightarrow> string) \<Rightarrow> io_env \<Rightarrow> path \<Rightarrow>
     (string, string) gomap \<Rightarrow> fnode \<Rightarrow> goerr option \<times> fnode" where
  "applyParamOverrides iter env io dir paramMap fs =
     (let paramsPath = dir @ [''params.env''] in
      case os_stat io paramsPath fs of
        Some e \<Rightarrow> (if is_not_exist e then (None, fs) else (Some e, fs))
      | None \<Rightarrow>
         (case readParams io paramsPath fs of
            Inl e \<Rightarrow> (Some (Wrap ''reading params.env'' e), fs)
          | Inr params \<Rightarrow>
              writeParams iter io paramsPath (set_overrides env (iter paramMap) params) fs))"

section \<open>Entries that survive a round trip\<close>

text \<open>
  A key has no separator and no newline and starts neither with a comment sign nor with white
  space; a value has no newline and does not end in white space; the line fits the scanner.
\<close>

definition ok_entry :: "string \<times> string \<Rightarrow> bool" where
  "ok_entry kv \<longleftrightarrow>
     CHR ''='' \<notin> set (fst kv) \<and> newline \<notin> set (fst kv) \<and> \<not> has_prefix (fst kv) ''#'' \<and>
     \<not> starts_space (fst kv) \<and> newline \<notin> set (snd kv) \<and> \<not> ends_space (snd kv) \<and>
     length (fst kv) + length (snd kv) + 1 < max_token"

abbreviation entry_text :: "string \<times> string \<Rightarrow> string" where
  "entry_text kv \<equiv> fst kv @ CHR ''='' # snd kv"

lemma newline_not_equals [simp]: "newline \<noteq> CHR ''=''" "CHR ''='' \<noteq> newline"
  by (simp_all add: newline_def)

lemma prefix_before_sep: "prefix e (k @ c # v) \<Longrightarrow> c \<notin> set e \<Longrightarrow> prefix e k"
  by (induction k arbitrary: e) (auto simp: prefix_Cons)

lemma suffix_after_sep: "suffix e (k @ c # v) \<Longrightarrow> c \<notin> set e \<Longrightarrow> suffix e v"
  using prefix_before_sep [of "rev e" "rev v" c "rev k"] by (simp add: suffix_to_prefix)

lemma starts_space_entry: "starts_space (k @ CHR ''='' # v) \<longleftrightarrow> starts_space k"
  by (auto simp: starts_space_def dest: prefix_before_sep space_encodings_no_equals
      intro: prefix_prefix)

lemma ends_space_entry: "ends_space (k @ CHR ''='' # v) \<longleftrightarrow> ends_space v"
  by (auto simp: ends_space_def suffix_Cons suffix_append
      dest: suffix_after_sep space_encodings_no_equals)

lemma parse_line_entry:
  assumes "ok_entry kv"
  shows "parse_line (entry_text kv) m = map_set (fst kv) (snd kv) m"
proof -
  have "trim_space (entry_text kv) = entry_text kv"
    using assms by (intro trim_space_id) (simp_all add: ok_entry_def starts_space_entry ends_space_entry)
  moreover have "\<not> has_prefix (entry_text kv) ''#''"
    using assms by (cases "fst kv") (auto simp: ok_entry_def)
  ultimately show ?thesis using assms by (simp add: parse_line_def ok_entry_def split_beta)
qed

lemma fold_parse_entries:
  "\<forall>kv\<in>set kvs. ok_entry kv \<Longrightarrow>
     fold parse_line (map entry_text kvs) m = fold (\<lambda>(k, v). map_set k v) kvs m"
  by (induction kvs arbitrary: m) (auto simp: parse_line_entry)

lemma raw_lines_print:
  "\<forall>kv\<in>set kvs. ok_entry kv \<Longrightarrow> raw_lines (print_params kvs) = map entry_text kvs"
proof (induction kvs)
  case (Cons kv kvs)
  have "raw_lines (entry_text kv @ newline # print_params kvs) =
      entry_text kv # raw_lines (print_params kvs)"
    using Cons.prems by (intro raw_lines_line) (auto simp: ok_entry_def)
  with Cons show ?case by (simp add: print_params_def param_line_def)
qed (simp add: print_params_def)

lemma parse_print_fold:
  assumes "\<forall>kv\<in>set kvs. ok_entry kv"
  shows "parse_params (print_params kvs) = Inr (fold (\<lambda>(k, v). map_set k v) kvs [])"
proof -
  have "drop_cr (entry_text kv) = entry_text kv" if "kv \<in> set kvs" for kv
    using assms that by (intro drop_cr_id) (auto simp: ok_entry_def ends_space_entry)
  then have "map (\<lambda>kv. drop_cr (entry_text kv)) kvs = map entry_text kvs" by simp
  moreover have "scan_tokens (map entry_text kvs) = (map drop_cr (map entry_text kvs), None)"
    using assms by (intro scan_tokens_short) (auto simp: ok_entry_def)
  ultimately have "scan_lines (print_params kvs) = (map entry_text kvs, None)"
    using assms by (simp add: scan_lines_def raw_lines_print comp_def)
  then show ?thesis using assms by (simp add: parse_params_def fold_parse_entries)
qed

text \<open>Every entry the parser produces is one that survives the round trip.\<close>

lemma ok_entry_parsed:
  assumes "cut CHR ''='' (trim_space raw) = Some (k, v)" and "\<not> has_prefix (trim_space raw) ''#''"
    and "newline \<notin> set raw" and "length raw < max_token"
  shows "ok_entry (k, v)"
proof -
  have line: "trim_space raw = k @ CHR ''='' # v" and k: "CHR ''='' \<notin> set k"
    using cut_SomeD [OF assms(1)] by auto
  have "set (trim_space raw) \<subseteq> set raw" and "length (trim_space raw) \<le> length raw"
    by (rule set_trim_space, rule length_trim_space)
  moreover have "\<not> has_prefix k ''#''" using assms(2) line by (cases k) auto
  ultimately show ?thesis
    using assms(3,4) k trim_space_starts [of raw] trim_space_ends [of raw]
    unfolding line ok_entry_def by (auto simp: starts_space_entry ends_space_entry)
qed

lemma parse_line_ok:
  assumes "newline \<notin> set raw" and "length raw < max_token"
    and "wf_map m" and "\<forall>kv\<in>set m. ok_entry kv"
  shows "wf_map (parse_line raw m) \<and> (\<forall>kv\<in>set (parse_line raw m). ok_entry kv)"
proof (cases "parse_line raw m = m")
  case False
  then obtain k v where "cut CHR ''='' (trim_space raw) = Some (k, v)"
      "\<not> has_prefix (trim_space raw) ''#''" "parse_line raw m = map_set k v m"
    by (auto simp: parse_line_def Let_def split: if_splits option.splits)
  then show ?thesis using assms ok_entry_parsed [of raw k v] set_map_set [of k v m] by auto
qed (use assms in auto)

lemma fold_parse_line_ok:
  "\<forall>l\<in>set ls. newline \<notin> set l \<and> length l < max_token \<Longrightarrow> wf_map m \<Longrightarrow>
     \<forall>kv\<in>set m. ok_entry kv \<Longrightarrow>
     wf_map (fold parse_line ls m) \<and> (\<forall>kv\<in>set (fold parse_line ls m). ok_entry kv)"
  by (induction ls arbitrary: m) (auto dest: parse_line_ok)

lemma scan_lines_tokens:
  assumes "scan_lines t = (ls, None)" and "l \<in> set ls"
  shows "newline \<notin> set l \<and> length l < max_token"
proof -
  from assms scan_tokens_None obtain r where r: "r \<in> set (raw_lines t)" "l = drop_cr r"
      "length r < max_token"
    by (fastforce simp: scan_lines_def)
  from raw_lines_no_newline [OF r(1)] r(2,3) show ?thesis
    by (auto simp: drop_cr_def dest: in_set_butlastD split: if_splits)
qed

lemma parse_params_ok:
  assumes "parse_params t = Inr m"
  shows "wf_map m \<and> (\<forall>kv\<in>set m. ok_entry kv)"
proof -
  from assms obtain ls where "scan_lines t = (ls, None)" and m: "m = fold parse_line ls []"
    by (auto simp: parse_params_def split: prod.splits option.splits)
  then have "\<forall>l\<in>set ls. newline \<notin> set l \<and> length l < max_token"
    using scan_lines_tokens by blast
  with m show ?thesis using fold_parse_line_ok [of ls "[]"] by simp
qed

lemma parse_print_params:
  assumes "wf_map m" and "\<forall>kv\<in>set m. ok_entry kv"
  shows "\<exists>m'. parse_params (print_params m) = Inr m' \<and> wf_map m' \<and> map_of m' = map_of m"
  using assms by (simp add: parse_print_fold map_of_fold_set map_of_rev_wf wf_map_fold_set)

section \<open>The file format as an interface\<close>

text \<open>
  What the override routines rely on: printing a map and parsing the text gives the map back.
  Their own correctness is proved once from this law, for any iteration order.
\<close>

locale params_codec =
  fixes print :: "(string, string) gomap \<Rightarrow> 't"
    and parse :: "'t \<Rightarrow> (string, string) gomap result"
    and ok :: "string \<times> string \<Rightarrow> bool"
  assumes parse_print:
      "wf_map m \<Longrightarrow> \<forall>kv\<in>set m. ok kv \<Longrightarrow>
         \<exists>m'. parse (print m) = Inr m' \<and> wf_map m' \<and> map_of m' = map_of m"
    and parse_ok: "parse t = Inr m \<Longrightarrow> wf_map m \<and> (\<forall>kv\<in>set m. ok kv)"
begin

lemma parse_print_iter:
  assumes "iterates iter" and "wf_map m" and "\<forall>kv\<in>set m. ok kv"
  shows "\<exists>m'. parse (print (iter m)) = Inr m' \<and> wf_map m' \<and> map_of m' = map_of m"
  using parse_print [of "iter m"] assms by (simp add: wf_map_iter set_iter map_of_iter)

lemma reparse:
  assumes "iterates iter" and "parse t = Inr m"
  shows "\<exists>m'. parse (print (iter m)) = Inr m' \<and> wf_map m' \<and> map_of m' = map_of m"
  using parse_print_iter [OF assms(1)] parse_ok [OF assms(2)] by blast

end

interpretation envfile: params_codec print_params parse_params ok_entry
  by unfold_locales (auto simp: parse_print_params dest: parse_params_ok)

section \<open>Writing through the temporary file\<close>

lemma tmp_parallel: "p \<noteq> [] \<Longrightarrow> tmp_path p \<parallel> p"
proof -
  assume "p \<noteq> []"
  then have p: "p = butlast p @ last p # []" by simp
  have "last p @ ''.tmp'' \<noteq> last p" by simp
  from parallel_sibling [OF this, of "butlast p" "[]" "[]"] p show ?thesis
    by (metis tmp_path_def)
qed

lemma os_rename_cases:
  assumes "os_rename io a b fs = (r, fs')"
  obtains (fail) e where "r = Some e" "fs' = fs"
    | (ok) n where "r = None" "fs_get fs a = Inr n" "fs_put b n (fs_del a fs) = Inr fs'"
  using assms by (auto simp: os_rename_def split: if_splits sum.splits fnode.splits)

lemma writeParams_cases:
  assumes "writeParams iter io p params fs = (r, fs')"
  obtains (nothing) e where "r = Some e" "fs' = fs"
    | (cleaned) e c fs1 where "r = Some e" "os_create io (tmp_path p) fs = Inr fs1"
        "fs' = os_remove io (tmp_path p) (fs_write (tmp_path p) c fs1)"
    | (renamed) fs1 where "os_create io (tmp_path p) fs = Inr fs1"
        "os_rename io (tmp_path p) p
           (fs_write (tmp_path p) (print_params (iter params)) fs1) = (r, fs')"
  using assms by (auto simp: writeParams_def Let_def split: sum.splits if_splits)

lemma os_remove_view: "p \<parallel> q \<Longrightarrow> fs_view (os_remove io p fs) q = fs_view fs q"
  by (simp add: os_remove_def fs_view_del_parallel)

lemma writeParams_outcome:
  assumes "writeParams iter io p params fs = (r, fs')" and "p \<noteq> []"
  shows "(case r of None \<Rightarrow> fs_get fs' p = Inr (File (print_params (iter params)))
                  | Some e \<Rightarrow> fs_view fs' p = fs_view fs p) \<and>
    (\<forall>q. p \<parallel> q \<longrightarrow> tmp_path p \<parallel> q \<longrightarrow> fs_view fs' q = fs_view fs q)"
  using assms(1)
proof (cases rule: writeParams_cases)
  case (cleaned e c fs1)
  then show ?thesis
    using os_create_write_view(2) [OF cleaned(2)] tmp_parallel [OF assms(2)]
    by (simp add: os_remove_view)
next
  case (renamed fs1)
  define fs2 where "fs2 = fs_write (tmp_path p) (print_params (iter params)) fs1"
  have same: "fs_view fs2 q = fs_view fs q" if "tmp_path p \<parallel> q" for q
    unfolding fs2_def using that by (rule os_create_write_view(2) [OF renamed(1)])
  have new: "fs_get fs2 (tmp_path p) = Inr (File (print_params (iter params)))"
    unfolding fs2_def by (rule os_create_write_view(1) [OF renamed(1)])
  from renamed(2) [folded fs2_def] show ?thesis
  proof (cases rule: os_rename_cases)
    case fail
    with same tmp_parallel [OF assms(2)] show ?thesis by simp
  next
    case (ok n)
    with new have "fs_get fs' p = Inr (File (print_params (iter params)))"
      by (auto dest: fs_get_put_same)
    moreover have "fs_view fs' q = fs_view fs q" if "p \<parallel> q" "tmp_path p \<parallel> q" for q
      using fs_view_put_parallel [OF ok(3) that(1)] same [OF that(2)] that(2)
      by (simp add: fs_view_del_parallel)
    ultimately show ?thesis using ok(1) by simp
  qed
qed simp

text \<open>
  C17: \<^verbatim>\<open>writeParams\<close> is atomic under every combination of failing system calls: when it reports an
  error the parameter file shows exactly what it showed before, when it reports none the file
  holds the complete new text, and in both cases no other path than the temporary file changes.
\<close>

theorem writeParams_atomic:
  assumes "writeParams iter io p params fs = (r, fs')" and "p \<noteq> []"
  shows "(case r of None \<Rightarrow> fs_get fs' p = Inr (File (print_params (iter params)))
                  | Some e \<Rightarrow> fs_view fs' p = fs_view fs p) \<and>
    (\<forall>q. p \<parallel> q \<longrightarrow> tmp_path p \<parallel> q \<longrightarrow> fs_view fs' q = fs_view fs q)"
  using assms by (rule writeParams_outcome)

definition params_fs :: fnode where
  "params_fs = Dir [(''rhoai'', Dir [(''params.env'', File ''a=1'')])]"

theorem writeParams_atomic_witness:
  "let io = \<lparr>faults = (\<lambda>op p. op = FlushOp), partial = (\<lambda>_. 2)\<rparr>;
       r = writeParams rev io [''rhoai'', ''params.env''] [(''a'', ''2''), (''b'', ''3'')] params_fs
   in fst r = Some (sys EIO ''write'') \<and>
      fs_view (snd r) [''rhoai'', ''params.env''] = fs_view params_fs [''rhoai'', ''params.env'']"
proof -
  let ?io = "\<lparr>faults = (\<lambda>op p. op = FlushOp), partial = (\<lambda>_. 2)\<rparr>"
  obtain fs' where run: "writeParams rev ?io [''rhoai'', ''params.env'']
      [(''a'', ''2''), (''b'', ''3'')] params_fs = (Some (sys EIO ''write''), fs')"
    by (simp add: writeParams_def Let_def os_create_def params_fs_def tmp_path_def)
  from writeParams_atomic [OF run] run show ?thesis by simp
qed

section \<open>Success, and what a later read returns\<close>

lemma readParams_file:
  "fs_get fs p = Inr (File text) \<Longrightarrow> readParams no_faults p fs = parse_params text"
  by (simp add: readParams_def os_open_def os_read_def)

lemma writeParams_succeeds:
  assumes "writable_at p fs" and "writable_at (tmp_path p) fs"
  shows "\<exists>fs'. writeParams iter no_faults p params fs = (None, fs')"
proof -
  let ?t = "tmp_path p" and ?c = "print_params (iter params)"
  have p: "p \<noteq> []" and par: "?t \<parallel> p"
    using assms(1) tmp_parallel by (auto simp: writable_at_def)
  obtain fs1 where c: "os_create no_faults ?t fs = Inr fs1"
    using os_create_writable [OF assms(2)] by blast
  define fs2 where "fs2 = fs_write ?t ?c fs1"
  have new: "fs_get fs2 ?t = Inr (File ?c)" and old: "fs_view fs2 p = fs_view fs p"
    unfolding fs2_def using os_create_write_view [OF c] par by auto
  have "fs_put (butlast p @ [last p @ ''.tmp'']) (File ?c) fs1 = Inr fs2"
    using fs_write_opened [OF c] by (simp add: fs2_def tmp_path_def)
  then have "fs_view fs2 (butlast p) = Inr VDir"
    using fs_view_put_above by blast
  then have "writable_at p (fs_del ?t fs2)"
    using assms(1) p old par fs_view_del_above [of "butlast p" "last p @ ''.tmp''" "[]" fs2]
    by (simp add: writable_at_def fs_view_del_parallel tmp_path_def)
  then obtain fs' where put: "fs_put p (File ?c) (fs_del ?t fs2) = Inr fs'"
    using writable_at_put by blast
  have "fs_get fs2 p \<noteq> Inr (Dir es)" for es
    using assms(1) old fs_view_dir_iff [of fs2 p] by (auto simp: writable_at_def)
  with new put have "os_rename no_faults ?t p fs2 = (None, fs')"
    by (auto simp: os_rename_def split: sum.splits fnode.splits)
  with c show ?thesis by (simp add: writeParams_def fs2_def)
qed

lemma writeParams_then_read:
  assumes "writable_at p fs" and "writable_at (tmp_path p) fs"
  shows "\<exists>fs'. writeParams iter no_faults p params fs = (None, fs') \<and>
    readParams no_faults p fs' = parse_params (print_params (iter params))"
proof -
  obtain fs' where w: "writeParams iter no_faults p params fs = (None, fs')"
    using writeParams_succeeds [OF assms] by blast
  have "p \<noteq> []" using assms(1) by (simp add: writable_at_def)
  with w have "fs_get fs' p = Inr (File (print_params (iter params)))"
    using writeParams_outcome by fastforce
  with w readParams_file show ?thesis by blast
qed

text \<open>
  C20: Round trip: with no failing system call, writing a parameter map whose entries are well
  formed (no separator or newline in a key, no leading comment sign or outer white space, lines
  within the scanner's limit) succeeds, and reading the file back gives the same map, whatever
  order the write visited the entries in.
\<close>

theorem params_roundtrip:
  assumes "iterates iter" and "wf_map params" and "\<forall>kv\<in>set params. ok_entry kv"
    and "writable_at p fs" and "writable_at (tmp_path p) fs"
  shows "\<exists>fs' m. writeParams iter no_faults p params fs = (None, fs') \<and>
    readParams no_faults p fs' = Inr m \<and> map_of m = map_of params"
  using writeParams_then_read [OF assms(4,5), of iter params]
    envfile.parse_print_iter [OF assms(1-3)] by auto

theorem params_roundtrip_witness:
  "\<exists>fs' m. writeParams rev no_faults [''rhoai'', ''params.env'']
       [(''k'', ''v=w''), (''image'', ''quay.io/x:y'')] params_fs = (None, fs') \<and>
    readParams no_faults [''rhoai'', ''params.env''] fs' = Inr m \<and>
    map_of m = map_of [(''k'', ''v=w''), (''image'', ''quay.io/x:y'')]"
  by (rule params_roundtrip)
    (simp_all add: wf_map_def ok_entry_def newline_def starts_space_def ends_space_def
      space_encodings_def max_token_def writable_at_def params_fs_def tmp_path_def suffix_def
      Cons_eq_append_conv append_eq_Cons_conv)

text \<open>The entry a line contributes, and the map of a file: the last line for a key wins.\<close>

definition line_entry :: "string \<Rightarrow> (string \<times> string) option" where
  "line_entry raw = (let line = trim_space raw in
     if line = [] \<or> has_prefix line ''#'' then None else cut CHR ''='' line)"

lemma parse_line_entry_opt:
  "parse_line raw m = (case line_entry raw of None \<Rightarrow> m | Some (k, v) \<Rightarrow> map_set k v m)"
  by (simp add: parse_line_def line_entry_def Let_def)

lemma fold_parse_line_entries:
  "fold parse_line ls m = fold (\<lambda>(k, v). map_set k v) (List.map_filter line_entry ls) m"
  by (induction ls arbitrary: m)
    (auto simp: parse_line_entry_opt List.map_filter_simps split: option.splits)

text \<open>
  What \<^verbatim>\<open>readParams\<close> computes: the lookup of a key is the entry of the last line of the file
  that assigns it; blank lines, comment lines and lines without a separator contribute nothing.
\<close>

lemma readParams_last_line_wins:
  assumes "fs_get fs p = Inr (File text)" and "scan_lines text = (ls, None)"
  shows "\<exists>m. readParams no_faults p fs = Inr m \<and> wf_map m \<and>
    map_of m = map_of (rev (List.map_filter line_entry ls))"
  using assms by (simp add: readParams_file parse_params_def fold_parse_line_entries
      map_of_fold_set wf_map_fold_set)

lemma readParams_last_line_wins_witness:
  "\<exists>m. readParams no_faults [''rhoai'', ''params.env''] params_fs = Inr m \<and> wf_map m \<and>
    map_of m = map_of (rev (List.map_filter line_entry [''a=1'']))"
  by (rule readParams_last_line_wins [of _ _ "''a=1''"])
    (simp_all add: params_fs_def scan_lines_def newline_def max_token_def drop_cr_def)

section \<open>The overriding routines\<close>

definition effective :: "(string \<Rightarrow> string) \<Rightarrow> (string, string) gomap \<Rightarrow> (string, string) gomap" where
  "effective env pm = map (\<lambda>(k, ev). (k, env ev)) (filter (\<lambda>(k, ev). env ev \<noteq> []) pm)"

lemma set_overrides_static: "set_overrides env pm m = set_static (effective env pm) m"
  by (induction pm arbitrary: m) (auto simp: set_overrides_def set_static_def effective_def Let_def)

lemma map_of_set_static: "wf_map vals \<Longrightarrow> map_of (set_static vals m) = map_of m ++ map_of vals"
  by (simp add: set_static_def map_of_fold_set map_of_rev_wf)

lemma wf_map_set_static: "wf_map m \<Longrightarrow> wf_map (set_static vals m)"
  by (simp add: set_static_def wf_map_fold_set)

lemma set_set_static: "set (set_static vals m) \<subseteq> set vals \<union> set m"
  unfolding set_static_def
proof (induction vals arbitrary: m)
  case (Cons kv vals)
  then show ?case using set_map_set [of "fst kv" "snd kv" m] by (fastforce simp: split_beta)
qed simp

lemma wf_map_effective: "wf_map pm \<Longrightarrow> wf_map (effective env pm)"
  by (induction pm) (force simp: wf_map_def effective_def)+

lemma map_of_effective:
  "wf_map pm \<Longrightarrow> map_of (effective env pm) k =
     (case map_of pm k of None \<Rightarrow> None | Some ev \<Rightarrow> if env ev \<noteq> [] then Some (env ev) else None)"
proof (induction pm)
  case (Cons p pm)
  obtain j ev where p: "p = (j, ev)" by (cases p)
  from Cons.prems p have "j \<notin> fst ` set pm" and wf: "wf_map pm" by (auto simp: wf_map_def)
  then have "map_of pm j = None" by (simp add: map_of_eq_None_iff)
  with Cons.IH [OF wf] p show ?case by (auto simp: effective_def)
qed (simp add: effective_def)

lemma fs_get_parent: "fs_get fs (p @ [x]) = Inr n \<Longrightarrow> fs_view fs p = Inr VDir"
  by (cases "fs_get fs p")
    (auto simp: fs_get_append fs_view_def split: fnode.splits elim: fs_get.elims)

lemma tmp_path_params: "tmp_path (dir @ [''params.env'']) = dir @ [''params.env.tmp'']"
  by (simp add: tmp_path_def)

text \<open>After a write the temporary file is gone, so the next write finds the same conditions.\<close>

lemma writeParams_tmp_gone:
  assumes "writeParams iter io p params fs = (None, fs')" and "p \<noteq> []"
  shows "fs_view fs' (tmp_path p) = Inl ENOENT"
  using assms(1)
proof (cases rule: writeParams_cases)
  case (renamed fs1)
  define fs2 where "fs2 = fs_write (tmp_path p) (print_params (iter params)) fs1"
  have new: "fs_get fs2 (tmp_path p) = Inr (File (print_params (iter params)))"
    unfolding fs2_def by (rule os_create_write_view(1) [OF renamed(1)])
  then have "fs_view fs2 (butlast p) = Inr VDir"
    by (metis tmp_path_def fs_get_parent)
  then have gone: "fs_view (fs_del (tmp_path p) fs2) (tmp_path p) = Inl ENOENT"
    unfolding tmp_path_def by (rule fs_view_del_same)
  from renamed(2) [folded fs2_def] show ?thesis
  proof (cases rule: os_rename_cases)
    case (ok n)
    have "p \<parallel> tmp_path p" using tmp_parallel [OF assms(2)] by (metis parallel_commute)
    with fs_view_put_parallel [OF ok(3)] gone show ?thesis by simp
  qed simp
qed simp_all

text \<open>The part the two routines share: the file exists, is read, changed and written back.\<close>

definition holds_params :: "path \<Rightarrow> fnode \<Rightarrow> (string, string) gomap \<Rightarrow> bool" where
  "holds_params dir fs params \<longleftrightarrow>
     (\<exists>text. fs_get fs (dir @ [''params.env'']) = Inr (File text) \<and> parse_params text = Inr params) \<and>
     writable_at (dir @ [''params.env.tmp'']) fs"

lemma holds_params_read:
  "holds_params dir fs params \<Longrightarrow> readParams no_faults (dir @ [''params.env'']) fs = Inr params"
  by (auto simp: holds_params_def readParams_file)

lemma rewrite_params:
  assumes "iterates iter" and "fs_get fs (dir @ [''params.env'']) = Inr (File text)"
    and "writable_at (dir @ [''params.env.tmp'']) fs"
    and "wf_map params" and "\<forall>kv\<in>set params. ok_entry kv"
  shows "\<exists>fs' m. writeParams iter no_faults (dir @ [''params.env'']) params fs = (None, fs') \<and>
    holds_params dir fs' m \<and> map_of m = map_of params"
proof -
  let ?p = "dir @ [''params.env'']"
  have "writable_at ?p fs"
    using assms(2) fs_get_parent [OF assms(2)] by (simp add: writable_at_def fs_view_def)
  with assms(3) obtain fs' where w: "writeParams iter no_faults ?p params fs = (None, fs')"
    using writeParams_succeeds [of ?p fs] by (auto simp: tmp_path_params)
  then have new: "fs_get fs' ?p = Inr (File (print_params (iter params)))"
    using writeParams_outcome by fastforce
  have "writable_at (dir @ [''params.env.tmp'']) fs'"
    using writeParams_tmp_gone [OF w] fs_get_parent [OF new]
    by (simp add: writable_at_def tmp_path_params)
  with w new envfile.parse_print_iter [OF assms(1,4,5)] show ?thesis
    unfolding holds_params_def by blast
qed

lemma os_stat_file: "fs_get fs p = Inr (File c) \<Longrightarrow> os_stat no_faults p fs = None"
  by (simp add: os_stat_def)

lemma map_of_overrides:
  assumes "iterates iter" and "wf_map paramMap"
  shows "map_of (set_overrides env (iter paramMap) params) k = (case map_of paramMap k of
      Some ev \<Rightarrow> if env ev \<noteq> [] then Some (env ev) else map_of params k
    | None \<Rightarrow> map_of params k)"
  using wf_map_iter [OF assms] map_of_effective [OF wf_map_iter [OF assms], of env k]
    map_of_iter [OF assms]
  by (auto simp: set_overrides_static map_of_set_static wf_map_effective map_add_def
      split: option.splits)

lemma ok_overrides:
  assumes "iterates iter" and "holds_params dir fs params"
    and "\<forall>(k, ev)\<in>set paramMap. env ev \<noteq> [] \<longrightarrow> ok_entry (k, env ev)"
  shows "wf_map (set_overrides env (iter paramMap) params)"
    and "\<forall>kv\<in>set (set_overrides env (iter paramMap) params). ok_entry kv"
proof -
  have ok: "wf_map params" "\<forall>kv\<in>set params. ok_entry kv"
    using assms(2) parse_params_ok by (auto simp: holds_params_def)
  then show "wf_map (set_overrides env (iter paramMap) params)"
    by (simp add: set_overrides_static wf_map_set_static)
  have "\<forall>kv\<in>set (effective env (iter paramMap)). ok_entry kv"
    using assms(3) set_iter [OF assms(1)] by (auto simp: effective_def)
  then show "\<forall>kv\<in>set (set_overrides env (iter paramMap) params). ok_entry kv"
    using ok(2) set_set_static unfolding set_overrides_static by blast
qed

lemma overrides_effect:
  assumes "iterates iter" and "holds_params dir fs params"
    and "wf_map paramMap" and "\<forall>(k, ev)\<in>set paramMap. env ev \<noteq> [] \<longrightarrow> ok_entry (k, env ev)"
  shows "\<exists>fs' m. applyParamOverrides iter env no_faults dir paramMap fs = (None, fs') \<and>
    holds_params dir fs' m \<and>
    (\<forall>k. map_of m k = (case map_of paramMap k of
        Some ev \<Rightarrow> if env ev \<noteq> [] then Some (env ev) else map_of params k
      | None \<Rightarrow> map_of params k))"
proof -
  from assms(2) obtain c where c: "fs_get fs (dir @ [''params.env'']) = Inr (File c)"
    "parse_params c = Inr params" "writable_at (dir @ [''params.env.tmp'']) fs"
    by (auto simp: holds_params_def)
  let ?new = "set_overrides env (iter paramMap) params"
  note ok = ok_overrides [OF assms(1,2,4)]
  from rewrite_params [OF assms(1) c(1,3) ok]
  obtain fs' m where w: "writeParams iter no_faults (dir @ [''params.env'']) ?new fs = (None, fs')"
      and m: "holds_params dir fs' m" "map_of m = map_of ?new"
    by blast
  from w c have "applyParamOverrides iter env no_faults dir paramMap fs = (None, fs')"
    by (simp add: applyParamOverrides_def os_stat_file readParams_file)
  moreover have "map_of m k = (case map_of paramMap k of
        Some ev \<Rightarrow> if env ev \<noteq> [] then Some (env ev) else map_of params k
      | None \<Rightarrow> map_of params k)" for k
    using m(2) map_of_overrides [OF assms(1,3)] by simp
  ultimately show ?thesis using m(1) by blast
qed

lemma static_effect:
  assumes "iterates iter" and "holds_params dir fs params"
    and "wf_map vals" and "\<forall>kv\<in>set vals. ok_entry kv"
  shows "\<exists>fs' m. applyStaticParams iter no_faults dir vals fs = (None, fs') \<and>
    holds_params dir fs' m \<and> map_of m = map_of params ++ map_of vals"
proof -
  from assms(2) obtain c where c: "fs_get fs (dir @ [''params.env'']) = Inr (File c)"
    "parse_params c = Inr params" "writable_at (dir @ [''params.env.tmp'']) fs"
    by (auto simp: holds_params_def)
  let ?new = "set_static (iter vals) params"
  have ok: "wf_map params" "\<forall>kv\<in>set params. ok_entry kv" using parse_params_ok [OF c(2)] by auto
  have "\<forall>kv\<in>set ?new. ok_entry kv"
    using ok(2) assms(4) set_set_static [of "iter vals" params] set_iter [OF assms(1)] by blast
  from rewrite_params [OF assms(1) c(1,3) wf_map_set_static [OF ok(1)] this]
  obtain fs' m where w: "writeParams iter no_faults (dir @ [''params.env'']) ?new fs = (None, fs')"
      and m: "holds_params dir fs' m" "map_of m = map_of ?new"
    by blast
  from w c have "applyStaticParams iter no_faults dir vals fs = (None, fs')"
    by (simp add: applyStaticParams_def os_stat_file readParams_file)
  with m show ?thesis
    using map_of_set_static [OF wf_map_iter [OF assms(1,3)]] map_of_iter [OF assms(1,3)] by fastforce
qed

text \<open>
  \<^verbatim>\<open>applyParamOverrides\<close> on an existing parameter file: it succeeds, and afterwards a key reads
  as the value of its environment variable when the key is in the parameter map and the
  variable is set and not empty, and as it read before in every other case, whatever order the
  two maps are visited in.
\<close>

lemma applyParamOverrides_effect:
  assumes "iterates iter" and "fs_get fs (dir @ [''params.env'']) = Inr (File text)"
    and "parse_params text = Inr params" and "writable_at (dir @ [''params.env.tmp'']) fs"
    and "wf_map paramMap" and "\<forall>(k, ev)\<in>set paramMap. env ev \<noteq> [] \<longrightarrow> ok_entry (k, env ev)"
  shows "\<exists>fs' m. applyParamOverrides iter env no_faults dir paramMap fs = (None, fs') \<and>
    readParams no_faults (dir @ [''params.env'']) fs' = Inr m \<and>
    (\<forall>k. map_of m k = (case map_of paramMap k of
        Some ev \<Rightarrow> if env ev \<noteq> [] then Some (env ev) else map_of params k
      | None \<Rightarrow> map_of params k))"
proof -
  have "holds_params dir fs params" using assms by (simp add: holds_params_def)
  from overrides_effect [OF assms(1) this assms(5,6)] show ?thesis by (blast dest: holds_params_read)
qed

definition sample_env :: "string \<Rightarrow> string" where
  "sample_env v = (if v = ''RELATED_IMAGE_ODH_TRAINER_IMAGE'' then ''quay.io/o:1'' else [])"

definition image_fs :: fnode where
  "image_fs = Dir [(''rhoai'', Dir [(''params.env'',
     File (''odh-kubeflow-trainer-controller-image=default'' @ [newline] @ ''ns=x''))])]"

lemma image_fs_text:
  "parse_params (''odh-kubeflow-trainer-controller-image=default'' @ [newline] @ ''ns=x'') =
     Inr [(''odh-kubeflow-trainer-controller-image'', ''default''), (''ns'', ''x'')]"
  using parse_print_fold [of "[(''odh-kubeflow-trainer-controller-image'', ''default'')]"]
  by (simp add: parse_params_def scan_lines_def newline_def max_token_def drop_cr_def parse_line_def
      trim_space_id starts_space_def ends_space_def space_encodings_def suffix_def
      Cons_eq_append_conv append_eq_Cons_conv cut_def map_set_def)

lemmas ok_entry_eval = ok_entry_def newline_def starts_space_def ends_space_def
  space_encodings_def max_token_def suffix_def Cons_eq_append_conv append_eq_Cons_conv

lemma applyParamOverrides_effect_witness:
  "\<exists>fs' m. applyParamOverrides rev sample_env no_faults [''rhoai''] trainerImageParamMap image_fs =
      (None, fs') \<and> readParams no_faults [''rhoai'', ''params.env''] fs' = Inr m \<and>
    map_of m imageParamControllerImage = Some ''quay.io/o:1'' \<and> map_of m ''ns'' = Some ''x''"
proof -
  have "\<exists>fs' m. applyParamOverrides rev sample_env no_faults [''rhoai''] trainerImageParamMap image_fs =
      (None, fs') \<and> readParams no_faults ([''rhoai''] @ [''params.env'']) fs' = Inr m \<and>
    (\<forall>k. map_of m k = (case map_of trainerImageParamMap k of
        Some ev \<Rightarrow> if sample_env ev \<noteq> [] then Some (sample_env ev)
          else map_of [(''odh-kubeflow-trainer-controller-image'', ''default''), (''ns'', ''x'')] k
      | None \<Rightarrow> map_of [(''odh-kubeflow-trainer-controller-image'', ''default''), (''ns'', ''x'')] k))"
  proof (rule applyParamOverrides_effect [OF _ _ image_fs_text])
    show "fs_get image_fs ([''rhoai''] @ [''params.env'']) =
        Inr (File (''odh-kubeflow-trainer-controller-image=default'' @ [newline] @ ''ns=x''))"
      by (simp add: image_fs_def)
  qed (simp_all add: image_fs_def writable_at_def wf_map_def trainerImageParamMap_def sample_env_def
      imageParamControllerImage_def ok_entry_eval)
  then show ?thesis
    by (auto simp: trainerImageParamMap_def imageParamControllerImage_def sample_env_def)
qed

text \<open>
  \<^verbatim>\<open>applyStaticParams\<close> on an existing parameter file: it succeeds, and afterwards the given keys
  read as the given values and every other key reads as before.
\<close>

lemma applyStaticParams_effect:
  assumes "iterates iter" and "fs_get fs (dir @ [''params.env'']) = Inr (File text)"
    and "parse_params text = Inr params" and "writable_at (dir @ [''params.env.tmp'']) fs"
    and "wf_map values" and "\<forall>kv\<in>set values. ok_entry kv"
  shows "\<exists>fs' m. applyStaticParams iter no_faults dir values fs = (None, fs') \<and>
    readParams no_faults (dir @ [''params.env'']) fs' = Inr m \<and>
    map_of m = map_of params ++ map_of values"
proof -
  have "holds_params dir fs params" using assms by (simp add: holds_params_def)
  from static_effect [OF assms(1) this assms(5,6)] show ?thesis by (blast dest: holds_params_read)
qed

text \<open>
  Error paths of the two overriding routines, for any outcome of the system calls: when one
  of them reports an error the parameter file shows exactly what it showed before, and when the
  file does not exist (and that can be determined) both report success and change nothing.
\<close>

lemma apply_params_errors:
  "(applyParamOverrides iter env io dir paramMap fs = (Some e, fs') \<longrightarrow>
      fs_view fs' (dir @ [''params.env'']) = fs_view fs (dir @ [''params.env''])) \<and>
   (applyStaticParams iter io dir vals fs = (Some e, fs') \<longrightarrow>
      fs_view fs' (dir @ [''params.env'']) = fs_view fs (dir @ [''params.env''])) \<and>
   (fs_view fs (dir @ [''params.env'']) = Inl ENOENT \<and> \<not> faults io StatOp (dir @ [''params.env'']) \<longrightarrow>
      applyParamOverrides iter env io dir paramMap fs = (None, fs) \<and>
      applyStaticParams iter io dir vals fs = (None, fs))"
proof -
  have w: "fs_view fs1 (dir @ [''params.env'']) = fs_view fs (dir @ [''params.env''])"
    if "writeParams iter io (dir @ [''params.env'']) m fs = (Some e, fs1)" for m fs1
    using writeParams_outcome [OF that] by simp
  have missing: "os_stat io (dir @ [''params.env'']) fs = Some (sys ENOENT ''stat'')"
    if "fs_view fs (dir @ [''params.env'']) = Inl ENOENT" "\<not> faults io StatOp (dir @ [''params.env''])"
    using that by (simp add: os_stat_def fs_view_def split: sum.splits)
  show ?thesis
    using w missing
    by (auto simp: applyParamOverrides_def applyStaticParams_def Let_def sys_def
        split: option.splits sum.splits if_splits)
qed

lemma apply_params_errors_witness:
  "applyStaticParams rev \<lparr>faults = (\<lambda>op p. op = StatOp), partial = (\<lambda>_. 0)\<rparr> [''rhoai'']
     [(''k'', ''v'')] params_fs = (Some (sys EIO ''stat''), params_fs) \<and>
   fs_view params_fs ([''rhoai''] @ [''params.env'']) = fs_view params_fs ([''rhoai''] @ [''params.env'']) \<and>
   applyParamOverrides rev sample_env no_faults [''empty''] trainerImageParamMap (Dir [(''empty'', Dir [])]) =
     (None, Dir [(''empty'', Dir [])])"
  using apply_params_errors [of rev sample_env "\<lparr>faults = (\<lambda>op p. op = StatOp), partial = (\<lambda>_. 0)\<rparr>"
      "[''rhoai'']" trainerImageParamMap params_fs "sys EIO ''stat''" params_fs "[(''k'', ''v'')]"]
    apply_params_errors [of rev sample_env no_faults "[''empty'']" trainerImageParamMap
      "Dir [(''empty'', Dir [])]"]
  by (simp add: applyStaticParams_def os_stat_def sys_def)

section \<open>What a rewrite cannot break\<close>

context fs_kept
begin

lemma writeParams_keeps:
  assumes "inv fs" and "prefix d dir"
  shows "inv (snd (writeParams iter io (dir @ [''params.env'']) params fs))"
proof -
  let ?p = "dir @ [''params.env'']"
  have below: "prefix d ?p" "prefix d (tmp_path ?p)" using assms(2) by (simp_all add: tmp_path_params)
  show ?thesis
  proof (cases "os_create io (tmp_path ?p) fs")
    case (Inr fs1)
    then have "inv fs1" by (rule os_create_keeps [OF assms(1) below(2)])
    then have "inv (fs_write (tmp_path ?p) c fs1)" for c by (rule fs_write_keeps [OF _ below(2)])
    then have "inv (os_remove io (tmp_path ?p) (fs_write (tmp_path ?p) c fs1))"
      "inv (snd (os_rename io (tmp_path ?p) ?p (fs_write (tmp_path ?p) c fs1)))" for c
      by (blast intro: os_remove_keeps os_rename_keeps below)+
    with Inr show ?thesis by (simp add: writeParams_def Let_def)
  qed (simp add: writeParams_def Let_def assms(1))
qed

lemma applyParamOverrides_keeps:
  "inv fs \<Longrightarrow> prefix d dir \<Longrightarrow> inv (snd (applyParamOverrides iter env io dir paramMap fs))"
  by (auto simp: applyParamOverrides_def Let_def split: option.split sum.split intro: writeParams_keeps)

lemma applyStaticParams_keeps:
  "inv fs \<Longrightarrow> prefix d dir \<Longrightarrow> inv (snd (applyStaticParams iter io dir vals fs))"
  by (auto simp: applyStaticParams_def Let_def split: option.split sum.split intro: writeParams_keeps)

end

end
