(* ===== verification/Kube_Api.thy ===== *)
theory Kube_Api
  imports Go_Prelude
begin

text \<open>
  The data the controller exchanges with the Kubernetes libraries, and the library functions it
  calls, as records of functions that the definitions take as arguments. Nothing is assumed of
  such a function in a definition; a theorem that needs its documented behaviour names it as a
  hypothesis.

  An \<^verbatim>\<open>unstructured.Unstructured\<close> is a record of the metadata its accessors return and of the rest
  of the object as a dynamic value (\<^verbatim>\<open>map[string]any\<close>).
\<close>

record gvk =
  gvk_group :: string
  gvk_version :: string
  gvk_kind :: string

record gvr =
  gvr_group :: string
  gvr_version :: string
  gvr_resource :: string

datatype jval =
    JNull
  | JBool bool
  | JInt int
  | JStr string
  | JList "jval list"
  | JMap "(string \<times> jval) list"

type_synonym jmap = "(string, jval) gomap"

record unstructured =
  u_gvk :: gvk
  u_name :: string
  u_namespace :: string
  u_labels :: "(string, string) gomap"
  u_finalizers :: "string list"
  u_deleting :: bool
  u_object :: jmap

definition GetKind :: "unstructured \<Rightarrow> string" where
  "GetKind o1 = gvk_kind (u_gvk o1)"

text \<open>
  The helpers of \<^verbatim>\<open>unstructured\<close>: a read returns an error, nothing (the field is absent) or the
  value; a write returns an error or the changed content.
\<close>

record unstructured_api =
  NestedString :: "jmap \<Rightarrow> string list \<Rightarrow> string option result"
  NestedSlice :: "jmap \<Rightarrow> string list \<Rightarrow> jval list option result"
  NestedStringMap :: "jmap \<Rightarrow> string list \<Rightarrow> (string, string) gomap option result"
  SetNestedField :: "jmap \<Rightarrow> jval \<Rightarrow> string list \<Rightarrow> jmap result"
  SetNestedStringMap :: "jmap \<Rightarrow> (string, string) gomap \<Rightarrow> string list \<Rightarrow> jmap result"

text \<open>A read whose error the caller drops: the value if there is one.\<close>

definition found_string :: "unstructured_api \<Rightarrow> jmap \<Rightarrow> string \<Rightarrow> string option" where
  "found_string U m f = (case NestedString U m [f] of Inr (Some v) \<Rightarrow> Some v | _ \<Rightarrow> None)"

definition string_or_empty :: "unstructured_api \<Rightarrow> jmap \<Rightarrow> string \<Rightarrow> string" where
  "string_or_empty U m f = (case found_string U m f of Some v \<Rightarrow> v | None \<Rightarrow> [])"

datatype cluster_type = ClusterTypeOpenShift | ClusterTypeKubernetes

text \<open>
  The platform utilities behind the dependency checks. They read the cluster, an abstract state
  of type \<open>'w\<close>.
\<close>

record 'w platform_api =
  DetectClusterType :: "'w \<Rightarrow> cluster_type result"
  OperatorExists :: "string \<Rightarrow> 'w \<Rightarrow> string result"
  GetSingleton :: "gvk \<Rightarrow> 'w \<Rightarrow> unstructured result"
  CustomResourceDefinitionExists :: "string \<Rightarrow> string \<Rightarrow> 'w \<Rightarrow> goerr option"

text \<open>
  The clients. The dynamic client lists the objects of a resource in all namespaces under a label
  selector, and updates and deletes by resource, namespace and name; the typed
  client reads and creates namespaces, deletes objects by kind, and the API reader reads
  ConfigMaps past the cache. A call that may change the cluster returns its new state.
\<close>

record namespace_obj =
  ns_name :: string
  ns_labels :: "(string, string) gomap"

record 'w dynamic_client =
  dyn_list :: "gvr \<Rightarrow> string \<Rightarrow> 'w \<Rightarrow> unstructured list result"
  dyn_update :: "gvr \<Rightarrow> string \<Rightarrow> unstructured \<Rightarrow> 'w \<Rightarrow> goerr option \<times> 'w"
  dyn_delete :: "gvr \<Rightarrow> string \<Rightarrow> string \<Rightarrow> 'w \<Rightarrow> goerr option \<times> 'w"

record 'w typed_client =
  get_namespace :: "string \<Rightarrow> 'w \<Rightarrow> namespace_obj result"
  create_namespace :: "namespace_obj \<Rightarrow> 'w \<Rightarrow> goerr option \<times> 'w"
  get_configmap :: "string \<Rightarrow> string \<Rightarrow> 'w \<Rightarrow> (string, string) gomap result"
  delete_object :: "gvk \<Rightarrow> string \<Rightarrow> string \<Rightarrow> 'w \<Rightarrow> goerr option \<times> 'w"

text \<open>
  \<^verbatim>\<open>labels.PlatformPartOf\<close> of the platform utilities (the value the controller's tests expect on
  the namespace it creates), and the label every resource of this component carries.
\<close>

definition PlatformPartOf :: string where
  "PlatformPartOf = ''platform.opendatahub.io/part-of''"

definition trainerPartOf :: string where
  "trainerPartOf = ''trainer''"

definition part_of_selector :: string where
  "part_of_selector = PlatformPartOf @ ''='' @ trainerPartOf"

end
