(* ===== verification/Trainer_Types.thy ===== *)
theory Trainer_Types
  imports Kube_Api
begin

text \<open>
  The Trainer API object (api/v1alpha1/trainer_types.go), its accessors, and the request the
  framework hands to every action. The resource requirements of a controller are a dynamic
  value; of the framework's status only the parts this repository reads or writes are kept.
\<close>

record ControllerResources =
  ctl_name :: string
  ctl_resources :: jval

record TrainerSpec =
  AppNamespace :: string
  FeatureGates :: "(string, bool) gomap"
  Controllers :: "ControllerResources list"

record Condition =
  cond_type :: string
  cond_status :: string
  cond_reason :: string
  cond_message :: string

record ComponentRelease =
  cr_name :: string
  cr_version :: string
  cr_repoURL :: string

text \<open>The two structs \<^verbatim>\<open>TrainerStatus\<close> embeds: the framework's status and the release status.\<close>

record fw_status =
  Phase :: string
  Conditions :: "Condition list"

record TrainerStatus =
  status_common :: fw_status
  Releases :: "ComponentRelease list"

record Trainer =
  tr_name :: string
  Spec :: TrainerSpec
  Status :: TrainerStatus

definition GetStatus :: "Trainer \<Rightarrow> fw_status" where
  "GetStatus t = status_common (Status t)"

definition GetConditions :: "Trainer \<Rightarrow> Condition list" where
  "GetConditions t = Conditions (status_common (Status t))"

definition SetConditions :: "Condition list \<Rightarrow> Trainer \<Rightarrow> Trainer" where
  "SetConditions conditions t =
     t\<lparr>Status := (Status t)\<lparr>status_common :=
        (status_common (Status t))\<lparr>Conditions := [] @ conditions\<rparr>\<rparr>\<rparr>"

definition GetReleaseStatus :: "Trainer \<Rightarrow> ComponentRelease list" where
  "GetReleaseStatus t = Releases (Status t)"

definition SetReleaseStatus :: "ComponentRelease list \<Rightarrow> Trainer \<Rightarrow> Trainer" where
  "SetReleaseStatus status t = t\<lparr>Status := (Status t)\<lparr>Releases := [] @ status\<rparr>\<rparr>"

definition TrainerInstanceName :: string where
  "TrainerInstanceName = ''default-trainer''"

text \<open>
  The validation rule of the resource, which the API server evaluates on every write of a Trainer;
  the resource is cluster-scoped, so a name stands for one object.
\<close>

definition admitted :: "Trainer \<Rightarrow> bool" where
  "admitted t \<longleftrightarrow> tr_name t = ''default-trainer''"

definition defaultNamespace :: string where
  "defaultNamespace = ''opendatahub''"

definition resolveNamespace :: "Trainer \<Rightarrow> string" where
  "resolveNamespace t = (if AppNamespace (Spec t) \<noteq> [] then AppNamespace (Spec t) else defaultNamespace)"

section \<open>The reconciliation request\<close>

text \<open>
  The condition manager belongs to the framework; the request keeps the calls made to it, in
  order: the condition, \<^verbatim>\<open>MarkTrue\<close> or \<^verbatim>\<open>MarkFalse\<close>, the reason and the message.
\<close>

record condition_mark =
  mark_type :: string
  mark_value :: bool
  mark_reason :: string
  mark_message :: string

record request =
  Instance :: Trainer
  Resources :: "unstructured list"
  Generated :: bool
  marks :: "condition_mark list"

definition degradedCondition :: string where
  "degradedCondition = ''Degraded''"

definition MarkTrue :: "string \<Rightarrow> string \<Rightarrow> string \<Rightarrow> request \<Rightarrow> request" where
  "MarkTrue c reason message rr = rr\<lparr>marks := marks rr @
     [\<lparr>mark_type = c, mark_value = True, mark_reason = reason, mark_message = message\<rparr>]\<rparr>"

definition MarkFalse :: "string \<Rightarrow> string \<Rightarrow> string \<Rightarrow> request \<Rightarrow> request" where
  "MarkFalse c reason message rr = rr\<lparr>marks := marks rr @
     [\<lparr>mark_type = c, mark_value = False, mark_reason = reason, mark_message = message\<rparr>]\<rparr>"

lemma mark_keeps [simp]:
  "Instance (MarkTrue c r m rr) = Instance rr" "Resources (MarkTrue c r m rr) = Resources rr"
  "Generated (MarkTrue c r m rr) = Generated rr"
  "Instance (MarkFalse c r m rr) = Instance rr" "Resources (MarkFalse c r m rr) = Resources rr"
  "Generated (MarkFalse c r m rr) = Generated rr"
  by (simp_all add: MarkTrue_def MarkFalse_def)

lemma resolveNamespace_not_empty: "resolveNamespace t \<noteq> []"
  by (simp add: resolveNamespace_def defaultNamespace_def)

end
