(* ===== verification/Operand_TLS.thy ===== *)
theory Operand_TLS
  imports Go_Prelude "HOL-Library.Word"
begin

text \<open>
  Translation of a cluster TLS profile into the operand's TLS options (internal/tls/operand.go),
  with \<^verbatim>\<open>strconv.ParseInt\<close> at 32 bits. The cipher tables of the Go build, the name tables of
  openshift/library-go and the framework's curve helper are parameters.
\<close>

section \<open>Parsing a 32-bit integer\<close>

definition digit_value :: "char \<Rightarrow> nat option" where
  "digit_value c = (let n = of_char c :: nat in if 48 \<le> n \<and> n \<le> 57 then Some (n - 48) else None)"

datatype num_problem = ErrSyntax | ErrRange

text \<open>
  The digit loop of \<^verbatim>\<open>strconv.ParseUint(s, 10, 32)\<close>: it stops at the first character that is no
  digit, or at the first digit that takes the value beyond 32 bits.
\<close>

fun parse_digits :: "nat \<Rightarrow> string \<Rightarrow> num_problem + nat" where
  "parse_digits n [] = Inr n"
| "parse_digits n (c # cs) =
     (case digit_value c of
        None \<Rightarrow> Inl ErrSyntax
      | Some d \<Rightarrow> if n * 10 + d > 2 ^ 32 - 1 then Inl ErrRange else parse_digits (n * 10 + d) cs)"

definition num_error :: "string \<Rightarrow> num_problem \<Rightarrow> goerr" where
  "num_error s p = Plain (''strconv.ParseInt: parsing '' @ go_quote s @ '': '' @
     (case p of ErrSyntax \<Rightarrow> ''invalid syntax'' | ErrRange \<Rightarrow> ''value out of range''))"

definition split_sign :: "string \<Rightarrow> bool \<times> string" where
  "split_sign s =
     (case s of [] \<Rightarrow> (False, [])
      | c # cs \<Rightarrow> if c = CHR ''+'' then (False, cs) else if c = CHR ''-'' then (True, cs) else (False, s))"

text \<open>\<^verbatim>\<open>strconv.ParseInt(s, 10, 32)\<close>.\<close>

definition parse_int32 :: "string \<Rightarrow> int result" where
  "parse_int32 s =
     (let (neg, digits) = split_sign s in
      if digits = [] then Inl (num_error s ErrSyntax)
      else case parse_digits 0 digits of
             Inl p \<Rightarrow> Inl (num_error s p)
           | Inr un \<Rightarrow>
               (if \<not> neg \<and> un \<ge> 2 ^ 31 then Inl (num_error s ErrRange)
                else if neg \<and> un > 2 ^ 31 then Inl (num_error s ErrRange)
                else Inr (if neg then - int un else int un)))"

section \<open>The translation\<close>

text \<open>\<^verbatim>\<open>configv1.TLSProfileSpec\<close> and the operand's \<^verbatim>\<open>TLSOptions\<close>.\<close>

record TLSProfileSpec =
  Ciphers :: "string list"
  Groups :: "string list"
  MinTLSVersion :: string

record TLSOptions =
  opt_MinVersion :: string
  opt_CipherSuites :: "string list"
  opt_CurvePreferences :: "32 word list"

text \<open>
  The tables and helpers of other packages: the suites this Go build knows (identifier and name),
  the two name tables of library-go, and the curve helper of the framework.
\<close>

record tls_tables =
  CipherSuites :: "(16 word \<times> string) list"
  InsecureCipherSuites :: "(16 word \<times> string) list"
  CipherSuite :: "string \<Rightarrow> 16 word result"
  OpenSSLToIANACipherSuites :: "string list \<Rightarrow> string list"
  CurvePreferencesFromSpec :: "TLSProfileSpec \<Rightarrow> string result"

definition operandMinVersions :: "(string, string) gomap" where
  "operandMinVersions =
     [(''VersionTLS10'', ''1.0''), (''VersionTLS11'', ''1.1''),
      (''VersionTLS12'', ''1.2''), (''VersionTLS13'', ''1.3'')]"

definition resolveCipherID :: "tls_tables \<Rightarrow> string \<Rightarrow> 16 word option" where
  "resolveCipherID T name =
     (case CipherSuite T name of
        Inr i \<Rightarrow> Some i
      | Inl e \<Rightarrow>
         (case OpenSSLToIANACipherSuites T [name] of
            [iana] \<Rightarrow> (case CipherSuite T iana of Inl e \<Rightarrow> None | Inr i \<Rightarrow> Some i)
          | _ \<Rightarrow> None))"

fun suite_with_id :: "16 word \<Rightarrow> (16 word \<times> string) list \<Rightarrow> string option" where
  "suite_with_id i [] = None"
| "suite_with_id i ((j, name) # css) = (if j = i then Some name else suite_with_id i css)"

definition goCipherName :: "tls_tables \<Rightarrow> 16 word \<Rightarrow> string option" where
  "goCipherName T i =
     (case suite_with_id i (CipherSuites T) of
        Some name \<Rightarrow> Some name
      | None \<Rightarrow> suite_with_id i (InsecureCipherSuites T))"

definition rc4CipherIDs :: "tls_tables \<Rightarrow> 16 word list" where
  "rc4CipherIDs T = map fst (filter (\<lambda>(i, name). contains name ''RC4'') (InsecureCipherSuites T))"

definition isTLS13CipherID :: "16 word \<Rightarrow> bool" where
  "isTLS13CipherID i \<longleftrightarrow> i \<ge> 0x1301 \<and> i \<le> 0x1304"

text \<open>The loop over the curve identifiers: empty pieces are skipped, the first bad one is an error.\<close>

fun parse_curves :: "string list \<Rightarrow> 32 word list result" where
  "parse_curves [] = Inr []"
| "parse_curves (i # is) =
     (if i = [] then parse_curves is
      else case parse_int32 i of
             Inl e \<Rightarrow> Inl (Wrap (''parsing curve ID '' @ go_quote i) e)
           | Inr code \<Rightarrow>
              (case parse_curves is of Inl e \<Rightarrow> Inl e | Inr cs \<Rightarrow> Inr (word_of_int code # cs)))"

text \<open>The loop over the profile's ciphers: the suite name one cipher contributes, if any.\<close>

definition operand_cipher :: "tls_tables \<Rightarrow> string \<Rightarrow> string option" where
  "operand_cipher T name =
     (case resolveCipherID T name of
        None \<Rightarrow> None
      | Some i \<Rightarrow> if i \<in> set (rc4CipherIDs T) \<or> isTLS13CipherID i then None else goCipherName T i)"

definition TranslateProfile :: "tls_tables \<Rightarrow> TLSProfileSpec \<Rightarrow> TLSOptions result" where
  "TranslateProfile T profile =
     (case CurvePreferencesFromSpec T profile of
        Inl e \<Rightarrow> Inl (Wrap ''translating TLS groups'' e)
      | Inr curves \<Rightarrow>
         (case parse_curves (split_on (CHR '','') curves) of
            Inl e \<Rightarrow> Inl e
          | Inr prefs \<Rightarrow>
              Inr \<lparr>opt_MinVersion = map_index operandMinVersions (MinTLSVersion profile),
                   opt_CipherSuites = List.map_filter (operand_cipher T) (Ciphers profile),
                   opt_CurvePreferences = prefs\<rparr>))"

section \<open>Reading and writing integers\<close>

function print_nat :: "nat \<Rightarrow> string" where
  "print_nat n = (if n < 10 then [char_of (48 + n)] else print_nat (n div 10) @ [char_of (48 + n mod 10)])"
  by pat_completeness auto
termination by (relation "measure id") auto

declare print_nat.simps [simp del]

definition print_int :: "int \<Rightarrow> string" where
  "print_int i = (if i < 0 then CHR ''-'' # print_nat (nat (- i)) else print_nat (nat i))"

lemma digit_value_digit: "d < 10 \<Longrightarrow> digit_value (char_of (48 + d)) = Some d"
  by (simp add: digit_value_def)

lemma parse_digits_append:
  "parse_digits n (xs @ ys) = (case parse_digits n xs of Inl p \<Rightarrow> Inl p | Inr m \<Rightarrow> parse_digits m ys)"
  by (induction n xs rule: parse_digits.induct) (auto split: option.splits)

lemma parse_print_nat: "n \<le> 2 ^ 32 - 1 \<Longrightarrow> parse_digits 0 (print_nat n) = Inr n"
proof (induction n rule: print_nat.induct)
  case (1 n)
  show ?case
  proof (cases "n < 10")
    case True
    with 1 show ?thesis by (simp add: print_nat.simps [of n] digit_value_digit)
  next
    case False
    have "n div 10 \<le> 2 ^ 32 - 1" using "1.prems" by (simp add: div_le_dividend order_trans)
    with 1 False show ?thesis
      by (simp add: print_nat.simps [of n] parse_digits_append digit_value_digit)
  qed
qed

lemma print_nat_digits: "c \<in> set (print_nat n) \<Longrightarrow> digit_value c \<noteq> None"
proof (induction n rule: print_nat.induct)
  case (1 n)
  show ?case
    using 1 by (cases "n < 10")
      (auto simp: print_nat.simps [of n] digit_value_digit split: if_splits)
qed

lemma print_nat_not_Nil: "print_nat n \<noteq> []"
  by (simp add: print_nat.simps [of n])

lemma split_sign_digits: "split_sign (print_nat n) = (False, print_nat n)"
proof -
  obtain c cs where c: "print_nat n = c # cs" using print_nat_not_Nil by (metis list.exhaust)
  then have "digit_value c \<noteq> None" using print_nat_digits [of c n] by simp
  then have "c \<noteq> CHR ''+''" and "c \<noteq> CHR ''-''" by (auto simp: digit_value_def)
  with c show ?thesis by (simp add: split_sign_def)
qed

lemma parse_print_int:
  assumes "- (2 ^ 31) \<le> i" and "i < 2 ^ 31"
  shows "parse_int32 (print_int i) = Inr i"
proof (cases "i < 0")
  case True
  with assms have "parse_digits 0 (print_nat (nat (- i))) = Inr (nat (- i))"
    by (intro parse_print_nat) simp
  with True assms show ?thesis
    by (simp add: parse_int32_def print_int_def split_sign_def print_nat_not_Nil)
next
  case False
  with assms have "parse_digits 0 (print_nat (nat i)) = Inr (nat i)"
    by (intro parse_print_nat) simp
  with False assms show ?thesis
    by (simp add: parse_int32_def print_int_def split_sign_digits print_nat_not_Nil)
qed

lemma parse_int32_range: "parse_int32 s = Inr i \<Longrightarrow> - (2 ^ 31) \<le> i \<and> i < 2 ^ 31"
  by (auto simp: parse_int32_def split: sum.splits prod.splits if_splits)

lemma sint_int32: "- (2 ^ 31) \<le> i \<Longrightarrow> i < 2 ^ 31 \<Longrightarrow> sint (word_of_int i :: 32 word) = i"
  by (simp add: signed_of_int signed_take_bit_int_eq_self)

section \<open>The tables of a Go build\<close>

text \<open>
  What the translation relies on: an identifier names one suite, and RC4 suites are listed as
  insecure. The tables below are those of the Go releases since 1.22.
\<close>

definition known_suites :: "tls_tables \<Rightarrow> (16 word \<times> string) list" where
  "known_suites T = CipherSuites T @ InsecureCipherSuites T"

definition suite_tables_ok :: "tls_tables \<Rightarrow> bool" where
  "suite_tables_ok T \<longleftrightarrow> distinct (map fst (known_suites T)) \<and>
     (\<forall>(i, name)\<in>set (CipherSuites T). \<not> contains name ''RC4'')"

definition go_secure_suites :: "(16 word \<times> string) list" where
  "go_secure_suites =
     [(0x1301, ''TLS_AES_128_GCM_SHA256''), (0x1302, ''TLS_AES_256_GCM_SHA384''),
      (0x1303, ''TLS_CHACHA20_POLY1305_SHA256''),
      (0xc009, ''TLS_ECDHE_ECDSA_WITH_AES_128_CBC_SHA''),
      (0xc00a, ''TLS_ECDHE_ECDSA_WITH_AES_256_CBC_SHA''),
      (0xc013, ''TLS_ECDHE_RSA_WITH_AES_128_CBC_SHA''),
      (0xc014, ''TLS_ECDHE_RSA_WITH_AES_256_CBC_SHA''),
      (0xc02b, ''TLS_ECDHE_ECDSA_WITH_AES_128_GCM_SHA256''),
      (0xc02c, ''TLS_ECDHE_ECDSA_WITH_AES_256_GCM_SHA384''),
      (0xc02f, ''TLS_ECDHE_RSA_WITH_AES_128_GCM_SHA256''),
      (0xc030, ''TLS_ECDHE_RSA_WITH_AES_256_GCM_SHA384''),
      (0xcca8, ''TLS_ECDHE_RSA_WITH_CHACHA20_POLY1305_SHA256''),
      (0xcca9, ''TLS_ECDHE_ECDSA_WITH_CHACHA20_POLY1305_SHA256'')]"

definition go_insecure_suites :: "(16 word \<times> string) list" where
  "go_insecure_suites =
     [(0x0005, ''TLS_RSA_WITH_RC4_128_SHA''), (0x000a, ''TLS_RSA_WITH_3DES_EDE_CBC_SHA''),
      (0x002f, ''TLS_RSA_WITH_AES_128_CBC_SHA''), (0x0035, ''TLS_RSA_WITH_AES_256_CBC_SHA''),
      (0x003c, ''TLS_RSA_WITH_AES_128_CBC_SHA256''),
      (0x009c, ''TLS_RSA_WITH_AES_128_GCM_SHA256''),
      (0x009d, ''TLS_RSA_WITH_AES_256_GCM_SHA384''),
      (0xc007, ''TLS_ECDHE_ECDSA_WITH_RC4_128_SHA''), (0xc011, ''TLS_ECDHE_RSA_WITH_RC4_128_SHA''),
      (0xc012, ''TLS_ECDHE_RSA_WITH_3DES_EDE_CBC_SHA''),
      (0xc023, ''TLS_ECDHE_ECDSA_WITH_AES_128_CBC_SHA256''),
      (0xc027, ''TLS_ECDHE_RSA_WITH_AES_128_CBC_SHA256'')]"

definition sample_tables :: tls_tables where
  "sample_tables =
     \<lparr>CipherSuites = go_secure_suites, InsecureCipherSuites = go_insecure_suites,
      CipherSuite = (\<lambda>name. case find (\<lambda>(i, n). n = name) (go_secure_suites @ go_insecure_suites) of
         Some (i, n) \<Rightarrow> Inr i | None \<Rightarrow> Inl (Plain ''unknown cipher name'')),
      OpenSSLToIANACipherSuites = List.map_filter (map_of
         [(''DES-CBC3-SHA'', ''TLS_RSA_WITH_3DES_EDE_CBC_SHA''),
          (''ECDHE-RSA-AES128-GCM-SHA256'', ''TLS_ECDHE_RSA_WITH_AES_128_GCM_SHA256'')]),
      CurvePreferencesFromSpec = (\<lambda>p. Inr (if Groups p = [] then [] else ''29,4588''))\<rparr>"

definition sample_profile :: TLSProfileSpec where
  "sample_profile = \<lparr>Ciphers = [''TLS_ECDHE_RSA_WITH_RC4_128_SHA'', ''DES-CBC3-SHA'',
       ''TLS_AES_128_GCM_SHA256'', ''no-such-suite'', ''ECDHE-RSA-AES128-GCM-SHA256''],
     Groups = [''X25519'', ''X25519MLKEM768''], MinTLSVersion = ''VersionTLS12''\<rparr>"

lemma sample_tables_ok: "suite_tables_ok sample_tables"
  by (simp add: suite_tables_ok_def known_suites_def sample_tables_def go_secure_suites_def
      go_insecure_suites_def)

section \<open>Properties\<close>

lemma suite_with_id_map_of: "suite_with_id i css = map_of css i"
  by (induction i css rule: suite_with_id.induct) auto

lemma goCipherName_known: "goCipherName T i = map_of (known_suites T) i"
  by (simp add: goCipherName_def suite_with_id_map_of known_suites_def map_add_def split: option.splits)

lemma rc4_known:
  assumes "suite_tables_ok T" and "map_of (known_suites T) i = Some n"
  shows "i \<in> set (rc4CipherIDs T) \<longleftrightarrow> contains n ''RC4''"
proof -
  have in_known: "(i, n) \<in> set (known_suites T)" using assms(2) by (rule map_of_SomeD)
  have same: "m = n" if "(i, m) \<in> set (known_suites T)" for m
    using assms that by (simp add: suite_tables_ok_def map_of_is_SomeI)
  show ?thesis
  proof
    assume "i \<in> set (rc4CipherIDs T)"
    then obtain m where m: "(i, m) \<in> set (InsecureCipherSuites T)" "contains m ''RC4''"
      by (auto simp: rc4CipherIDs_def)
    with same [of m] show "contains n ''RC4''" by (simp add: known_suites_def)
  next
    assume rc4: "contains n ''RC4''"
    with assms(1) in_known have "(i, n) \<in> set (InsecureCipherSuites T)"
      by (auto simp: suite_tables_ok_def known_suites_def)
    with rc4 show "i \<in> set (rc4CipherIDs T)" by (force simp: rc4CipherIDs_def)
  qed
qed

lemma isTLS13_range: "isTLS13CipherID i \<longleftrightarrow> uint i \<in> {0x1301..0x1304}"
  by (simp add: isTLS13CipherID_def word_le_def)

lemma operand_cipher_known:
  assumes "suite_tables_ok T"
  shows "operand_cipher T name =
    (case Option.bind (resolveCipherID T name) (\<lambda>i. map_option (Pair i) (map_of (known_suites T) i)) of
       None \<Rightarrow> None
     | Some (i, n) \<Rightarrow> if contains n ''RC4'' \<or> uint i \<in> {0x1301..0x1304} then None else Some n)"
  using goCipherName_known rc4_known [OF assms]
  by (auto simp: operand_cipher_def isTLS13_range split: option.splits)

text \<open>
  C26: The cipher list of \<^verbatim>\<open>TranslateProfile\<close>: in the order of the profile, each cipher whose name
  resolves to a suite this Go build knows appears under the build's name, unless that name is
  an RC4 suite's or the suite's identifier is in the TLS 1.3 range; nothing else appears.
\<close>

theorem TranslateProfile_ciphers:
  assumes "suite_tables_ok T" and "TranslateProfile T profile = Inr opts"
  shows "opt_CipherSuites opts = List.map_filter (\<lambda>name.
    case Option.bind (resolveCipherID T name) (\<lambda>i. map_option (Pair i) (map_of (known_suites T) i)) of
      None \<Rightarrow> None
    | Some (i, n) \<Rightarrow> if contains n ''RC4'' \<or> uint i \<in> {0x1301..0x1304} then None else Some n)
    (Ciphers profile)"
  using assms
  by (auto simp: TranslateProfile_def operand_cipher_known [symmetric] split: sum.splits)

lemmas sample_tls_eval = sample_tables_def sample_profile_def go_secure_suites_def go_insecure_suites_def

lemma sample_translate:
  "TranslateProfile sample_tables sample_profile = Inr \<lparr>opt_MinVersion = ''1.2'',
     opt_CipherSuites = [''TLS_RSA_WITH_3DES_EDE_CBC_SHA'', ''TLS_ECDHE_RSA_WITH_AES_128_GCM_SHA256''],
     opt_CurvePreferences = [29, 4588]\<rparr>"
  by (simp add: sample_tls_eval TranslateProfile_def operandMinVersions_def map_index_def
      operand_cipher_def resolveCipherID_def goCipherName_def rc4CipherIDs_def isTLS13CipherID_def
      List.map_filter_simps parse_int32_def split_sign_def digit_value_def)

theorem TranslateProfile_ciphers_witness:
  "\<exists>opts. TranslateProfile sample_tables sample_profile = Inr opts \<and>
     opt_CipherSuites opts = List.map_filter (\<lambda>name.
       case Option.bind (resolveCipherID sample_tables name)
           (\<lambda>i. map_option (Pair i) (map_of (known_suites sample_tables) i)) of
         None \<Rightarrow> None
       | Some (i, n) \<Rightarrow> if contains n ''RC4'' \<or> uint i \<in> {0x1301..0x1304} then None else Some n)
       (Ciphers sample_profile) \<and> opt_CipherSuites opts \<noteq> []"
  by (intro exI conjI, rule sample_translate)
    (rule TranslateProfile_ciphers [OF sample_tables_ok sample_translate], simp)

text \<open>
  No weak suite reaches the operand: every suite name \<^verbatim>\<open>TranslateProfile\<close> emits belongs to a
  suite of this Go build outside the TLS 1.3 range, and does not name RC4.
\<close>

lemma TranslateProfile_no_rc4:
  assumes "suite_tables_ok T" and "TranslateProfile T profile = Inr opts"
    and "n \<in> set (opt_CipherSuites opts)"
  shows "\<not> contains n ''RC4'' \<and>
    (\<exists>i. (i, n) \<in> set (known_suites T) \<and> \<not> (0x1301 \<le> i \<and> i \<le> 0x1304))"
proof -
  from assms(2,3) obtain name where "operand_cipher T name = Some n"
    by (auto simp: TranslateProfile_def set_map_filter split: sum.splits)
  then obtain i where "map_of (known_suites T) i = Some n" "\<not> contains n ''RC4''" "\<not> isTLS13CipherID i"
    by (auto simp: operand_cipher_known [OF assms(1)] isTLS13_range bind_eq_Some_conv
        split: option.splits if_splits)
  then show ?thesis unfolding isTLS13CipherID_def by (blast dest: map_of_SomeD)
qed

lemma TranslateProfile_no_rc4_witness:
  "\<not> contains ''TLS_RSA_WITH_3DES_EDE_CBC_SHA'' ''RC4'' \<and>
   (\<exists>i. (i, ''TLS_RSA_WITH_3DES_EDE_CBC_SHA'') \<in> set (known_suites sample_tables) \<and>
      \<not> (0x1301 \<le> i \<and> i \<le> 0x1304))"
  by (rule TranslateProfile_no_rc4 [OF sample_tables_ok sample_translate]) simp

lemma parse_curves_spec:
  "case parse_curves ps of
     Inr ws \<Rightarrow> map (\<lambda>w. Inr (sint w)) ws = map parse_int32 (filter (\<lambda>p. p \<noteq> []) ps)
   | Inl e \<Rightarrow> \<exists>p\<in>set ps. p \<noteq> [] \<and> isl (parse_int32 p)"
proof (induction ps)
  case (Cons p ps)
  show ?case
  proof (cases "p = []")
    case False
    then show ?thesis
      using Cons parse_int32_range [of p]
      by (auto simp: sint_int32 split: sum.splits)
  qed (use Cons in \<open>auto split: sum.splits\<close>)
qed simp

text \<open>
  C27: The curve list of \<^verbatim>\<open>TranslateProfile\<close> fails closed and never wraps. On success every non-empty
  piece of the helper's answer is a decimal that fits 32 bits, and the list holds exactly these
  values in order, the conversion to \<^verbatim>\<open>int32\<close> losing nothing; on an error the helper failed or
  one of its pieces is not such a number. No group of the profile is silently dropped.
\<close>

theorem TranslateProfile_curves:
  "case TranslateProfile T profile of
     Inr opts \<Rightarrow> \<exists>curves. CurvePreferencesFromSpec T profile = Inr curves \<and>
       map (\<lambda>w. Inr (sint w)) (opt_CurvePreferences opts) =
         map parse_int32 (filter (\<lambda>p. p \<noteq> []) (split_on (CHR '','') curves))
   | Inl e \<Rightarrow> (case CurvePreferencesFromSpec T profile of
       Inl e' \<Rightarrow> e = Wrap ''translating TLS groups'' e'
     | Inr curves \<Rightarrow> \<exists>p\<in>set (split_on (CHR '','') curves). p \<noteq> [] \<and> isl (parse_int32 p))"
proof (cases "CurvePreferencesFromSpec T profile")
  case (Inr curves)
  then show ?thesis
    using parse_curves_spec [of "split_on (CHR '','') curves"]
    by (auto simp: TranslateProfile_def split: sum.splits)
qed (simp add: TranslateProfile_def)

lemma parse_curves_print:
  "(\<forall>i\<in>set is. - (2 ^ 31) \<le> i \<and> i < 2 ^ 31) \<Longrightarrow>
     parse_curves (map print_int is) = Inr (map word_of_int is)"
proof (induction "is")
  case (Cons i "is")
  have "print_int i \<noteq> []" by (simp add: print_int_def print_nat_not_Nil)
  with Cons show ?case by (simp add: parse_print_int)
qed simp

lemma print_int_no_comma: "CHR '','' \<notin> set (print_int i)"
proof
  assume "CHR '','' \<in> set (print_int i)"
  then have "digit_value (CHR '','') \<noteq> None"
    by (auto simp: print_int_def dest: print_nat_digits split: if_splits)
  then show False by (simp add: digit_value_def)
qed

text \<open>
  Round trip of the curve list: when the framework's helper returns the decimal identifiers of
  a list of curves separated by commas, \<^verbatim>\<open>TranslateProfile\<close> succeeds and the operand gets exactly
  that list, the empty one included.
\<close>

lemma TranslateProfile_curve_roundtrip:
  assumes "CurvePreferencesFromSpec T profile = Inr (join '','' (map print_int is))"
    and "\<forall>i\<in>set is. - (2 ^ 31) \<le> i \<and> i < 2 ^ 31"
  shows "\<exists>opts. TranslateProfile T profile = Inr opts \<and> map sint (opt_CurvePreferences opts) = is"
proof -
  have "parse_curves (split_on (CHR '','') (join '','' (map print_int is))) = Inr (map word_of_int is)"
  proof (cases "is = []")
    case False
    then have "split_on (CHR '','') (join '','' (map print_int is)) = map print_int is"
      by (intro split_on_join) (auto simp: print_int_no_comma)
    with parse_curves_print [OF assms(2)] show ?thesis by simp
  qed simp
  moreover have "map sint (map word_of_int is :: 32 word list) = is"
    using assms(2) by (simp add: sint_int32 map_idI)
  ultimately show ?thesis using assms(1) by (simp add: TranslateProfile_def)
qed

lemma TranslateProfile_curve_roundtrip_witness:
  "\<exists>opts. TranslateProfile sample_tables sample_profile = Inr opts \<and>
     map sint (opt_CurvePreferences opts) = [29, 4588]"
  by (rule TranslateProfile_curve_roundtrip)
    (simp_all add: sample_tls_eval print_int_def print_nat.simps char_of_def bit_0)

end
