(* ===== verification/Sha256.thy ===== *)
theory Sha256
  imports Go_Prelude "HOL-Library.Word"
begin

unbundle bit_operations_syntax

text \<open>
  \<^verbatim>\<open>sha256.Sum256\<close> and \<^verbatim>\<open>hex.EncodeToString\<close> of the Go standard library, which the operator uses to
  turn a rendered configuration into an annotation value: the function of FIPS 180-4 on byte
  strings, and the lower-case hexadecimal digits of its 32 bytes.
\<close>

section \<open>The compression function\<close>

text \<open>
  The constants of the standard are the first 32 bits of the fractional parts of roots of primes:
  cube roots of the first 64 primes for the rounds, square roots of the first eight for the
  initial state. They are computed here: \<open>root_bits k n i b\<close> finds bit by bit the largest \<open>r\<close> above
  \<open>b\<close> that differs from it in the lowest \<open>i\<close> bits and whose \<open>k\<close>-th power is at most \<open>n\<close>.
\<close>

fun root_bits :: "nat \<Rightarrow> nat \<Rightarrow> nat \<Rightarrow> nat \<Rightarrow> nat" where
  "root_bits k n 0 b = b"
| "root_bits k n (Suc i) b = root_bits k n i (if (b + 2 ^ i) ^ k \<le> n then b + 2 ^ i else b)"

definition integer_root :: "nat \<Rightarrow> nat \<Rightarrow> nat" where
  "integer_root k n = root_bits k n 40 0"

definition small_primes :: "nat list" where
  "small_primes =
     [2, 3, 5, 7, 11, 13, 17, 19, 23, 29, 31, 37, 41, 43, 47, 53,
      59, 61, 67, 71, 73, 79, 83, 89, 97, 101, 103, 107, 109, 113, 127, 131,
      137, 139, 149, 151, 157, 163, 167, 173, 179, 181, 191, 193, 197, 199, 211, 223,
      227, 229, 233, 239, 241, 251, 257, 263, 269, 271, 277, 281, 283, 293, 307, 311]"

definition root_fraction :: "nat \<Rightarrow> nat \<Rightarrow> 32 word" where
  "root_fraction k p = of_nat (integer_root k (p * 2 ^ (32 * k)))"

definition sha_K :: "32 word list" where
  "sha_K = map (root_fraction 3) small_primes"

definition sha_H0 :: "32 word list" where
  "sha_H0 = map (root_fraction 2) (take 8 small_primes)"

text \<open>The search does find the integer root: it is exact for every argument below the bound.\<close>

lemma root_bits_exact:
  assumes "0 < k" and "b ^ k \<le> n" and "n < (b + 2 ^ i) ^ k"
  shows "root_bits k n i b ^ k \<le> n \<and> n < Suc (root_bits k n i b) ^ k"
  using assms(2,3) by (induction i arbitrary: b) (auto simp: mult_2 add.assoc)

lemma integer_root_exact:
  assumes "0 < k" and "n < 2 ^ (40 * k)"
  shows "integer_root k n ^ k \<le> n \<and> n < Suc (integer_root k n) ^ k"
proof -
  have "n < (0 + 2 ^ 40) ^ k" using assms(2) by (simp only: power_mult add_0)
  with root_bits_exact [of k 0 n 40] assms(1) show ?thesis
    unfolding integer_root_def by (simp only: zero_power zero_le)
qed

definition rotr :: "nat \<Rightarrow> 32 word \<Rightarrow> 32 word" where
  "rotr n x = drop_bit n x OR push_bit (32 - n) x"

definition small_sigma0 :: "32 word \<Rightarrow> 32 word" where
  "small_sigma0 x = rotr 7 x XOR rotr 18 x XOR drop_bit 3 x"

definition small_sigma1 :: "32 word \<Rightarrow> 32 word" where
  "small_sigma1 x = rotr 17 x XOR rotr 19 x XOR drop_bit 10 x"

definition big_sigma0 :: "32 word \<Rightarrow> 32 word" where
  "big_sigma0 x = rotr 2 x XOR rotr 13 x XOR rotr 22 x"

definition big_sigma1 :: "32 word \<Rightarrow> 32 word" where
  "big_sigma1 x = rotr 6 x XOR rotr 11 x XOR rotr 25 x"

text \<open>The message schedule: a window of the last sixteen words, one new word per round.\<close>

fun schedule :: "nat \<Rightarrow> 32 word list \<Rightarrow> 32 word list" where
  "schedule 0 ws = ws"
| "schedule (Suc n) ws =
     hd ws # schedule n (tl ws @
       [small_sigma1 (ws ! 14) + ws ! 9 + small_sigma0 (ws ! 1) + ws ! 0])"

text \<open>One round on the eight working variables.\<close>

fun sha_round :: "32 word \<times> 32 word \<Rightarrow> 32 word list \<Rightarrow> 32 word list" where
  "sha_round (k, w) [a, b, c, d, e, f, g, h] =
     (let t1 = h + big_sigma1 e + ((e AND f) XOR (NOT e AND g)) + k + w;
          t2 = big_sigma0 a + ((a AND b) XOR (a AND c) XOR (b AND c))
      in [t1 + t2, a, b, c, d + t1, e, f, g])"
| "sha_round kw st = st"

definition compress :: "32 word list \<Rightarrow> 32 word list \<Rightarrow> 32 word list" where
  "compress block st = map2 (+) st (fold sha_round (zip sha_K (schedule 48 block)) st)"

section \<open>Padding and digests\<close>

definition be_bytes :: "nat \<Rightarrow> nat \<Rightarrow> nat list" where
  "be_bytes len n = map (\<lambda>i. n div 256 ^ (len - 1 - i) mod 256) [0..<len]"

definition pad :: "string \<Rightarrow> nat list" where
  "pad msg = map of_char msg @ [0x80] @ replicate ((119 - length msg mod 64) mod 64) 0 @
     be_bytes 8 (8 * length msg mod 2 ^ 64)"

function chunks :: "nat \<Rightarrow> 'a list \<Rightarrow> 'a list list" where
  "chunks n xs = (if n = 0 \<or> xs = [] then [] else take n xs # chunks n (drop n xs))"
  by pat_completeness auto
termination by (relation "measure (length \<circ> snd)") auto

declare chunks.simps [simp del]

definition be_word :: "nat list \<Rightarrow> 32 word" where
  "be_word bs = of_nat (foldl (\<lambda>n b. n * 256 + b) 0 bs)"

definition sha256 :: "string \<Rightarrow> nat list" where
  "sha256 msg = concat (map (\<lambda>w. be_bytes 4 (unat w))
     (fold compress (map (\<lambda>b. map be_word (chunks 4 b)) (chunks 64 (pad msg))) sha_H0))"

definition hex_encode :: "nat list \<Rightarrow> string" where
  "hex_encode bs = concat (map (\<lambda>b. [hex_digit (b div 16), hex_digit b]) bs)"

definition sha256_hex :: "string \<Rightarrow> string" where
  "sha256_hex msg = hex_encode (sha256 msg)"

section \<open>Shape of a digest\<close>

lemma length_be_bytes [simp]: "length (be_bytes len n) = len"
  by (simp add: be_bytes_def)

lemma length_sha_round: "length (sha_round kw st) = length st"
  by (induction kw st rule: sha_round.induct) (auto simp: Let_def)

lemma length_rounds: "length (fold sha_round kws st) = length st"
  by (induction kws arbitrary: st) (simp_all add: length_sha_round)

lemma length_blocks: "length (fold compress blocks st) = length st"
  by (induction blocks arbitrary: st) (simp_all add: compress_def length_rounds)

lemma length_sha256: "length (sha256 msg) = 32"
proof -
  have "length (concat (map (\<lambda>w. be_bytes 4 (unat w)) ws)) = 4 * length ws" for ws :: "32 word list"
    by (induction ws) simp_all
  then show ?thesis by (simp add: sha256_def length_blocks sha_H0_def small_primes_def)
qed

lemma length_hex_encode: "length (hex_encode bs) = 2 * length bs"
  by (induction bs) (simp_all add: hex_encode_def)

lemma length_sha256_hex: "length (sha256_hex msg) = 64"
  by (simp add: sha256_hex_def length_hex_encode length_sha256)

lemma sha256_hex_not_empty [simp]: "sha256_hex msg \<noteq> []"
  using length_sha256_hex [of msg] by auto

end
