(* ===== verification/Manifests.thy ===== *)
theory Manifests
  imports Trainer_Types Go_FS Operand_TLS Sha256
begin

text \<open>
  Rendering of an overlay and the changes made to what was rendered
  (internal/controller/manifests.go): \<^verbatim>\<open>renderOverlay\<close>, \<^verbatim>\<open>filterConfigMaps\<close> and
  \<^verbatim>\<open>applyOperandTLSOptions\<close>. Kustomize, the YAML codec and the helpers on unstructured content are
  parameters.
\<close>

section \<open>Rendering\<close>

definition defaultOverlay :: string where
  "defaultOverlay = ''rhoai''"

datatype render_opt = WithLabel string string | WithNamespace string

text \<open>\<open>kustomize\<close> is \<^verbatim>\<open>kustomize.Render\<close>: it reads the overlay at a path of the file system.\<close>

definition renderOverlay ::
  "(path \<Rightarrow> render_opt list \<Rightarrow> fnode \<Rightarrow> unstructured list result) \<Rightarrow> path \<Rightarrow> string \<Rightarrow> fnode \<Rightarrow>
     unstructured list result" where
  "renderOverlay kustomize path namespace fs =
     (let opts = [WithLabel PlatformPartOf trainerPartOf];
          opts = (if namespace \<noteq> [] then opts @ [WithNamespace namespace] else opts)
      in case kustomize path opts fs of
           Inl e \<Rightarrow> Inl (Wrap ''rendering kustomize overlay'' e)
         | Inr rendered \<Rightarrow> Inr rendered)"

fun filterConfigMaps :: "unstructured list \<Rightarrow> unstructured list" where
  "filterConfigMaps [] = []"
| "filterConfigMaps (item # items) =
     (if GetKind item \<noteq> ''ConfigMap'' then item # filterConfigMaps items else filterConfigMaps items)"

section \<open>TLS options of the operand\<close>

definition operandConfigMapPrefix :: string where "operandConfigMapPrefix = ''kubeflow-trainer-config''"
definition operandConfigKey :: string where "operandConfigKey = ''controller_manager_config.yaml''"
definition operandDeploymentName :: string where
  "operandDeploymentName = ''kubeflow-trainer-controller-manager''"
definition operandTLSConfigHashAnnotation :: string where
  "operandTLSConfigHashAnnotation = ''trainer.platform.opendatahub.io/tls-config-hash''"

definition annotations_path :: "string list" where
  "annotations_path = [''spec'', ''template'', ''metadata'', ''annotations'']"

text \<open>
  The YAML codec: a document decodes to a map, which is nil for an empty one; the options struct
  of the operand's API has an encoding of its own.
\<close>

record yaml_api =
  Unmarshal :: "string \<Rightarrow> jmap option result"
  Marshal :: "jmap \<Rightarrow> string result"
  TLSOptionsValue :: "TLSOptions \<Rightarrow> jval"

text \<open>
  A loop over the items that changes them in place and may stop with an error: the step returns
  the changed item and, in the first loop, the new configuration hash. The items before an error
  keep their changes.
\<close>

fun each_item ::
  "('a \<Rightarrow> goerr + ('a \<times> string option)) \<Rightarrow> 'a list \<Rightarrow> string \<Rightarrow> goerr option \<times> 'a list \<times> string" where
  "each_item step [] h = (None, [], h)"
| "each_item step (x # xs) h =
     (case step x of
        Inl e \<Rightarrow> (Some e, x # xs, h)
      | Inr (y, new) \<Rightarrow>
         (case each_item step xs (case new of None \<Rightarrow> h | Some h' \<Rightarrow> h') of
            (r, ys, h'') \<Rightarrow> (r, y # ys, h'')))"

definition config_step ::
  "unstructured_api \<Rightarrow> yaml_api \<Rightarrow> TLSOptions \<Rightarrow> unstructured \<Rightarrow> goerr + (unstructured \<times> string option)" where
  "config_step U Y opts item =
     (if GetKind item \<noteq> ''ConfigMap'' \<or> \<not> has_prefix (u_name item) operandConfigMapPrefix
      then Inr (item, None)
      else case NestedString U (u_object item) [''data'', operandConfigKey] of
             Inl e \<Rightarrow> Inl (Wrap ''reading operand config key'' e)
           | Inr None \<Rightarrow> Inr (item, None)
           | Inr (Some raw) \<Rightarrow>
              (case Unmarshal Y raw of
                 Inl e \<Rightarrow> Inl (Wrap ''parsing operand config'' e)
               | Inr cfg \<Rightarrow>
                  (let cfg = (case cfg of None \<Rightarrow> [] | Some m \<Rightarrow> m);
                       cfg = map_set ''tls'' (TLSOptionsValue Y opts) cfg
                   in case Marshal Y cfg of
                        Inl e \<Rightarrow> Inl (Wrap ''marshalling operand config'' e)
                      | Inr out \<Rightarrow>
                         (case SetNestedField U (u_object item) (JStr out) [''data'', operandConfigKey] of
                            Inl e \<Rightarrow> Inl (Wrap ''writing operand config'' e)
                          | Inr object \<Rightarrow> Inr (item\<lparr>u_object := object\<rparr>, Some (sha256_hex out))))))"

definition annotate_step ::
  "unstructured_api \<Rightarrow> string \<Rightarrow> unstructured \<Rightarrow> goerr + (unstructured \<times> string option)" where
  "annotate_step U configHash item =
     (if GetKind item \<noteq> ''Deployment'' \<or> u_name item \<noteq> operandDeploymentName
      then Inr (item, None)
      else case NestedStringMap U (u_object item) annotations_path of
             Inl e \<Rightarrow> Inl (Wrap ''reading operand deployment annotations'' e)
           | Inr found \<Rightarrow>
              (let annotations = (case found of None \<Rightarrow> [] | Some m \<Rightarrow> m);
                   annotations = map_set operandTLSConfigHashAnnotation configHash annotations
               in case SetNestedStringMap U (u_object item) annotations annotations_path of
                    Inl e \<Rightarrow> Inl (Wrap ''writing operand deployment annotations'' e)
                  | Inr object \<Rightarrow> Inr (item\<lparr>u_object := object\<rparr>, None)))"

definition applyOperandTLSOptions ::
  "tls_tables \<Rightarrow> unstructured_api \<Rightarrow> yaml_api \<Rightarrow> unstructured list \<Rightarrow> TLSProfileSpec \<Rightarrow>
     goerr option \<times> unstructured list" where
  "applyOperandTLSOptions T U Y items profile =
     (case TranslateProfile T profile of
        Inl e \<Rightarrow> (Some (Wrap ''translating cluster TLS profile for the operand'' e), items)
      | Inr opts \<Rightarrow>
         (case each_item (config_step U Y opts) items [] of
            (Some e, items, configHash) \<Rightarrow> (Some e, items)
          | (None, items, configHash) \<Rightarrow>
              (if configHash = [] then (None, items)
               else case each_item (annotate_step U configHash) items configHash of
                      (r, items, configHash) \<Rightarrow> (r, items))))"

section \<open>The loops\<close>

definition last_some :: "string option list \<Rightarrow> string \<Rightarrow> string" where
  "last_some os h = fold (\<lambda>o1 h. case o1 of None \<Rightarrow> h | Some h' \<Rightarrow> h') os h"

lemma each_item_ok:
  "each_item step xs h = (None, ys, h') \<longleftrightarrow>
     (\<exists>rs. map step xs = map Inr rs \<and> ys = map fst rs \<and> h' = last_some (map snd rs) h)"
proof (induction xs arbitrary: h ys)
  case Nil
  show ?case by (auto simp: last_some_def)
next
  case (Cons x xs)
  show ?case
  proof (cases "step x")
    case (Inl e)
    then show ?thesis by (auto simp: Cons_eq_map_conv)
  next
    case (Inr p)
    obtain y new where p: "p = (y, new)" by (cases p)
    have "each_item step (x # xs) h = (None, ys, h') \<longleftrightarrow>
        (\<exists>ys1. ys = y # ys1 \<and>
          each_item step xs (case new of None \<Rightarrow> h | Some h1 \<Rightarrow> h1) = (None, ys1, h'))"
      using Inr p by (auto split: prod.splits)
    also have "\<dots> \<longleftrightarrow> (\<exists>rs. map step (x # xs) = map Inr rs \<and> ys = map fst rs \<and>
        h' = last_some (map snd rs) h)"
      using Inr p by (auto simp: Cons.IH Cons_eq_map_conv last_some_def)
    finally show ?thesis .
  qed
qed

lemma each_item_steps:
  assumes "each_item step xs h = (None, ys, h')"
  obtains rs where "length rs = length xs" "ys = map fst rs" "h' = last_some (map snd rs) h"
    "\<And>i. i < length xs \<Longrightarrow> step (xs ! i) = Inr (fst (rs ! i), snd (rs ! i))"
proof -
  from assms obtain rs where rs: "map step xs = map Inr rs" "ys = map fst rs" "h' = last_some (map snd rs) h"
    by (auto simp: each_item_ok)
  then have "length rs = length xs" by (metis length_map)
  moreover from this rs(1) have "step (xs ! i) = Inr (fst (rs ! i), snd (rs ! i))" if "i < length xs" for i
    using that by (metis nth_map prod.collapse)
  ultimately show ?thesis using that rs(2,3) by blast
qed

lemma last_some_nth:
  assumes "i < length os" and "os ! i = Some h1" and "\<And>j. i < j \<Longrightarrow> j < length os \<Longrightarrow> os ! j = None"
  shows "last_some os h = h1"
proof -
  have none: "last_some ns g = g" if "\<And>j. j < length ns \<Longrightarrow> ns ! j = None" for ns g
    using that
  proof (induction ns arbitrary: g)
    case (Cons n ns)
    from Cons.prems [of 0] have "n = None" by simp
    moreover have "ns ! j = None" if "j < length ns" for j using Cons.prems [of "Suc j"] that by simp
    ultimately show ?case using Cons.IH by (simp add: last_some_def)
  qed (simp add: last_some_def)
  have "os = take i os @ Some h1 # drop (Suc i) os"
    using assms(1,2) by (metis id_take_nth_drop)
  then have "last_some os h = last_some (drop (Suc i) os) h1"
    by (metis fold_append fold_simps(2) comp_apply last_some_def option.simps(5))
  also have "\<dots> = h1" by (rule none) (use assms in simp)
  finally show ?thesis .
qed

lemma last_some_empty:
  assumes "\<And>h. Some h \<in> set os \<Longrightarrow> h \<noteq> []"
  shows "last_some os [] = [] \<longleftrightarrow> set os \<subseteq> {None}"
proof -
  have "last_some os g = [] \<longleftrightarrow> g = [] \<and> set os \<subseteq> {None}" for g
    using assms
    by (induction os arbitrary: g) (auto simp: last_some_def split: option.splits)
  then show ?thesis by simp
qed

section \<open>What the operand gets\<close>

text \<open>The configuration text of an item that holds one, and the operand's deployment.\<close>

definition operand_config :: "unstructured_api \<Rightarrow> unstructured \<Rightarrow> string option" where
  "operand_config U item =
     (if GetKind item = ''ConfigMap'' \<and> has_prefix (u_name item) operandConfigMapPrefix
      then (case NestedString U (u_object item) [''data'', operandConfigKey] of
              Inr (Some raw) \<Rightarrow> Some raw | _ \<Rightarrow> None)
      else None)"

definition operand_deployment :: "unstructured \<Rightarrow> bool" where
  "operand_deployment item \<longleftrightarrow> GetKind item = ''Deployment'' \<and> u_name item = operandDeploymentName"

definition merged_config :: "yaml_api \<Rightarrow> TLSOptions \<Rightarrow> string \<Rightarrow> string result" where
  "merged_config Y opts raw =
     (case Unmarshal Y raw of
        Inl e \<Rightarrow> Inl e
      | Inr cfg \<Rightarrow> Marshal Y (map_set ''tls'' (TLSOptionsValue Y opts) (case cfg of None \<Rightarrow> [] | Some m \<Rightarrow> m)))"

definition merged_annotations :: "(string, string) gomap option \<Rightarrow> string \<Rightarrow> (string, string) gomap" where
  "merged_annotations found h =
     map_set operandTLSConfigHashAnnotation h (case found of None \<Rightarrow> [] | Some m \<Rightarrow> m)"

lemma config_step_ok:
  "config_step U Y opts item = Inr (item', new) \<Longrightarrow>
     (case operand_config U item of
        None \<Rightarrow> item' = item \<and> new = None
      | Some raw \<Rightarrow> \<exists>out object. merged_config Y opts raw = Inr out \<and>
          SetNestedField U (u_object item) (JStr out) [''data'', operandConfigKey] = Inr object \<and>
          item' = item\<lparr>u_object := object\<rparr> \<and> new = Some (sha256_hex out))"
  by (auto simp: config_step_def operand_config_def merged_config_def Let_def
      split: if_splits sum.splits option.splits)

lemma annotate_step_ok:
  "annotate_step U h item = Inr (item', new) \<Longrightarrow>
     (if operand_deployment item
      then \<exists>found object. NestedStringMap U (u_object item) annotations_path = Inr found \<and>
         SetNestedStringMap U (u_object item) (merged_annotations found h) annotations_path = Inr object \<and>
         item' = item\<lparr>u_object := object\<rparr>
      else item' = item)"
  by (auto simp: annotate_step_def operand_deployment_def merged_annotations_def Let_def
      split: if_splits sum.splits)

lemma GetKind_object [simp]: "GetKind (item\<lparr>u_object := object\<rparr>) = GetKind item"
  by (simp add: GetKind_def)

lemma operand_deployment_object [simp]:
  "operand_deployment (item\<lparr>u_object := object\<rparr>) = operand_deployment item"
  by (simp add: operand_deployment_def)

lemma config_not_deployment: "operand_config U item = Some raw \<Longrightarrow> \<not> operand_deployment item"
  by (auto simp: operand_config_def operand_deployment_def split: if_splits)

text \<open>The hash of the first loop is empty exactly when no item holds a configuration.\<close>

lemma config_hash_empty:
  assumes "length rs = length items"
    and "\<And>i. i < length items \<Longrightarrow> config_step U Y opts (items ! i) = Inr (fst (rs ! i), snd (rs ! i))"
  shows "last_some (map snd rs) [] = [] \<longleftrightarrow> (\<forall>item\<in>set items. operand_config U item = None)"
proof -
  note ok = config_step_ok [OF assms(2)]
  have hashes: "snd (rs ! i) = None \<longleftrightarrow> operand_config U (items ! i) = None" if "i < length items" for i
    using ok [OF that] by (auto split: option.splits)
  have nonempty: "x \<noteq> []" if "Some x \<in> set (map snd rs)" for x
  proof -
    from that obtain i where "i < length items" "snd (rs ! i) = Some x"
      using assms(1) by (auto simp: in_set_conv_nth)
    with ok [of i] show ?thesis by (auto split: option.splits)
  qed
  have "last_some (map snd rs) [] = [] \<longleftrightarrow> set (map snd rs) \<subseteq> {None}" by (rule last_some_empty [OF nonempty])
  also have "\<dots> \<longleftrightarrow> (\<forall>x\<in>set rs. snd x = None)" by auto
  also have "\<dots> \<longleftrightarrow> (\<forall>item\<in>set items. operand_config U item = None)"
    using hashes assms(1) by (simp add: all_set_conv_all_nth)
  finally show ?thesis .
qed

text \<open>The first loop: the hash is that of the last configuration written.\<close>

lemma config_loop_ok:
  assumes "each_item (config_step U Y opts) items [] = (None, items1, h)"
  shows "length items1 = length items"
    and "\<And>i. i < length items \<Longrightarrow>
      (case operand_config U (items ! i) of
         None \<Rightarrow> items1 ! i = items ! i
       | Some raw \<Rightarrow> \<exists>out object. merged_config Y opts raw = Inr out \<and>
           SetNestedField U (u_object (items ! i)) (JStr out) [''data'', operandConfigKey] = Inr object \<and>
           items1 ! i = (items ! i)\<lparr>u_object := object\<rparr> \<and>
           ((\<forall>j. i < j \<and> j < length items \<longrightarrow> operand_config U (items ! j) = None) \<longrightarrow>
              h = sha256_hex out))"
    and "h = [] \<longleftrightarrow> (\<forall>item\<in>set items. operand_config U item = None)"
proof -
  from assms obtain rs where len: "length rs = length items" and items1: "items1 = map fst rs"
    and h: "h = last_some (map snd rs) []"
    and step: "\<And>i. i < length items \<Longrightarrow> config_step U Y opts (items ! i) = Inr (fst (rs ! i), snd (rs ! i))"
    by (rule each_item_steps) blast
  note ok = config_step_ok [OF step]
  show "length items1 = length items" using items1 len by simp
  show "case operand_config U (items ! i) of
         None \<Rightarrow> items1 ! i = items ! i
       | Some raw \<Rightarrow> \<exists>out object. merged_config Y opts raw = Inr out \<and>
           SetNestedField U (u_object (items ! i)) (JStr out) [''data'', operandConfigKey] = Inr object \<and>
           items1 ! i = (items ! i)\<lparr>u_object := object\<rparr> \<and>
           ((\<forall>j. i < j \<and> j < length items \<longrightarrow> operand_config U (items ! j) = None) \<longrightarrow>
              h = sha256_hex out)" if i: "i < length items" for i
  proof (cases "operand_config U (items ! i)")
    case None
    with ok [OF i] i len items1 show ?thesis by simp
  next
    case (Some raw)
    with ok [OF i] obtain out object where o: "merged_config Y opts raw = Inr out"
      "SetNestedField U (u_object (items ! i)) (JStr out) [''data'', operandConfigKey] = Inr object"
      "fst (rs ! i) = (items ! i)\<lparr>u_object := object\<rparr>" "snd (rs ! i) = Some (sha256_hex out)"
      by auto
    have "h = sha256_hex out"
      if "\<forall>j. i < j \<and> j < length items \<longrightarrow> operand_config U (items ! j) = None"
      unfolding h
    proof (rule last_some_nth)
      show "map snd rs ! j = None" if "i < j" "j < length (map snd rs)" for j
        using ok [of j] that len \<open>\<forall>j. _ j\<close> by simp
    qed (use i len o in simp_all)
    with o Some i len items1 show ?thesis by auto
  qed
  show "h = [] \<longleftrightarrow> (\<forall>item\<in>set items. operand_config U item = None)"
    unfolding h by (rule config_hash_empty [OF len step])
qed

text \<open>The second loop.\<close>

lemma annotate_loop_ok:
  assumes "each_item (annotate_step U h) items h1 = (None, items', h')"
  shows "length items' = length items"
    and "i < length items \<Longrightarrow>
      (if operand_deployment (items ! i)
       then \<exists>found object. NestedStringMap U (u_object (items ! i)) annotations_path = Inr found \<and>
         SetNestedStringMap U (u_object (items ! i)) (merged_annotations found h) annotations_path = Inr object \<and>
         items' ! i = (items ! i)\<lparr>u_object := object\<rparr>
       else items' ! i = items ! i)"
proof -
  from assms obtain rs where len: "length rs = length items" and items': "items' = map fst rs"
    and step: "\<And>i. i < length items \<Longrightarrow> annotate_step U h (items ! i) = Inr (fst (rs ! i), snd (rs ! i))"
    by (rule each_item_steps) blast
  show "length items' = length items" using len items' by simp
  assume i: "i < length items"
  then have at: "items' ! i = fst (rs ! i)" using len items' by simp
  show "if operand_deployment (items ! i)
       then \<exists>found object. NestedStringMap U (u_object (items ! i)) annotations_path = Inr found \<and>
         SetNestedStringMap U (u_object (items ! i)) (merged_annotations found h) annotations_path = Inr object \<and>
         items' ! i = (items ! i)\<lparr>u_object := object\<rparr>
       else items' ! i = items ! i"
    unfolding at by (rule annotate_step_ok [OF step [OF i]])
qed

definition operand_outcome ::
  "unstructured_api \<Rightarrow> yaml_api \<Rightarrow> TLSOptions \<Rightarrow> string \<Rightarrow> unstructured list \<Rightarrow> unstructured list \<Rightarrow> bool" where
  "operand_outcome U Y opts h items items' \<longleftrightarrow> length items' = length items \<and>
    (\<forall>i<length items. case operand_config U (items ! i) of
       Some raw \<Rightarrow> \<exists>out object. merged_config Y opts raw = Inr out \<and>
         SetNestedField U (u_object (items ! i)) (JStr out) [''data'', operandConfigKey] = Inr object \<and>
         items' ! i = (items ! i)\<lparr>u_object := object\<rparr> \<and>
         ((\<forall>j. i < j \<and> j < length items \<longrightarrow> operand_config U (items ! j) = None) \<longrightarrow>
            h = sha256_hex out)
     | None \<Rightarrow>
        (if operand_deployment (items ! i) \<and> (\<exists>item\<in>set items. operand_config U item \<noteq> None)
         then \<exists>found object. NestedStringMap U (u_object (items ! i)) annotations_path = Inr found \<and>
           SetNestedStringMap U (u_object (items ! i)) (merged_annotations found h) annotations_path = Inr object \<and>
           items' ! i = (items ! i)\<lparr>u_object := object\<rparr>
         else items' ! i = items ! i))"

text \<open>The second loop runs only when the first one has found a configuration.\<close>

lemma annotate_when_hashed:
  assumes "if h = [] then items' = items
    else \<exists>h'. each_item (annotate_step U h) items h = (None, items', h')"
  shows "length items' = length items"
    and "i < length items \<Longrightarrow> if operand_deployment (items ! i) \<and> h \<noteq> []
      then \<exists>found object. NestedStringMap U (u_object (items ! i)) annotations_path = Inr found \<and>
         SetNestedStringMap U (u_object (items ! i)) (merged_annotations found h) annotations_path = Inr object \<and>
         items' ! i = (items ! i)\<lparr>u_object := object\<rparr>
      else items' ! i = items ! i"
proof -
  have "length items' = length items \<and> (i < length items \<longrightarrow>
      (if operand_deployment (items ! i) \<and> h \<noteq> []
       then \<exists>found object. NestedStringMap U (u_object (items ! i)) annotations_path = Inr found \<and>
         SetNestedStringMap U (u_object (items ! i)) (merged_annotations found h) annotations_path = Inr object \<and>
         items' ! i = (items ! i)\<lparr>u_object := object\<rparr>
       else items' ! i = items ! i))" for i
  proof (cases "h = []")
    case False
    with assms obtain h' where "each_item (annotate_step U h) items h = (None, items', h')" by auto
    note second = annotate_loop_ok [OF this]
    show ?thesis
      using second(1) second(2) [of i] False by (cases "operand_deployment (items ! i)") simp_all
  qed (use assms in simp)
  then show "length items' = length items"
    and "i < length items \<Longrightarrow> if operand_deployment (items ! i) \<and> h \<noteq> []
      then \<exists>found object. NestedStringMap U (u_object (items ! i)) annotations_path = Inr found \<and>
         SetNestedStringMap U (u_object (items ! i)) (merged_annotations found h) annotations_path = Inr object \<and>
         items' ! i = (items ! i)\<lparr>u_object := object\<rparr>
      else items' ! i = items ! i"
    by blast+
qed

lemma operand_effect:
  assumes "applyOperandTLSOptions T U Y items profile = (None, items')"
  shows "\<exists>opts h. TranslateProfile T profile = Inr opts \<and> operand_outcome U Y opts h items items'"
proof -
  from assms obtain opts items1 h where opts: "TranslateProfile T profile = Inr opts"
    and loop1: "each_item (config_step U Y opts) items [] = (None, items1, h)"
    and loop2: "if h = [] then items' = items1
      else \<exists>h'. each_item (annotate_step U h) items1 h = (None, items', h')"
    by (auto simp: applyOperandTLSOptions_def split: sum.splits prod.splits option.splits if_splits)
  note one = config_loop_ok [OF loop1]
  note two = annotate_when_hashed [OF loop2]
  have len: "length items' = length items" using two(1) one(1) by simp
  have each: "case operand_config U (items ! i) of
       Some raw \<Rightarrow> \<exists>out object. merged_config Y opts raw = Inr out \<and>
         SetNestedField U (u_object (items ! i)) (JStr out) [''data'', operandConfigKey] = Inr object \<and>
         items' ! i = (items ! i)\<lparr>u_object := object\<rparr> \<and>
         ((\<forall>j. i < j \<and> j < length items \<longrightarrow> operand_config U (items ! j) = None) \<longrightarrow>
            h = sha256_hex out)
     | None \<Rightarrow>
        (if operand_deployment (items ! i) \<and> (\<exists>item\<in>set items. operand_config U item \<noteq> None)
         then \<exists>found object. NestedStringMap U (u_object (items ! i)) annotations_path = Inr found \<and>
           SetNestedStringMap U (u_object (items ! i)) (merged_annotations found h) annotations_path = Inr object \<and>
           items' ! i = (items ! i)\<lparr>u_object := object\<rparr>
         else items' ! i = items ! i)" if i: "i < length items" for i
  proof (cases "operand_config U (items ! i)")
    case None
    with one(2) [OF i] have eq: "items1 ! i = items ! i" by simp
    have hne: "(h \<noteq> []) = (\<exists>item\<in>set items. operand_config U item \<noteq> None)" using one(3) by auto
    show ?thesis using two(2) [of i] i one(1) unfolding None option.case eq hne by simp
  next
    case (Some raw)
    with one(1) one(2) [OF i] config_not_deployment [OF Some] two(2) [of i] i show ?thesis by fastforce
  qed
  from opts len each show ?thesis unfolding operand_outcome_def by blast
qed

lemma outcome_config:
  assumes "operand_outcome U Y opts h items items'" and "i < length items"
    and "operand_config U (items ! i) = Some raw"
  shows "\<exists>out object. merged_config Y opts raw = Inr out \<and>
         SetNestedField U (u_object (items ! i)) (JStr out) [''data'', operandConfigKey] = Inr object \<and>
         items' ! i = (items ! i)\<lparr>u_object := object\<rparr> \<and>
         ((\<forall>j. i < j \<and> j < length items \<longrightarrow> operand_config U (items ! j) = None) \<longrightarrow>
            h = sha256_hex out)"
  using mp [OF spec [OF conjunct2 [OF assms(1) [unfolded operand_outcome_def]], of i] assms(2)]
  unfolding assms(3) option.case .

lemma outcome_deployment:
  assumes "operand_outcome U Y opts h items items'" and "i < length items"
    and "operand_deployment (items ! i)" and "\<exists>item\<in>set items. operand_config U item \<noteq> None"
  shows "\<exists>found object. NestedStringMap U (u_object (items ! i)) annotations_path = Inr found \<and>
           SetNestedStringMap U (u_object (items ! i)) (merged_annotations found h) annotations_path = Inr object \<and>
           items' ! i = (items ! i)\<lparr>u_object := object\<rparr>"
proof -
  have none: "operand_config U (items ! i) = None"
    using assms(3) config_not_deployment by (metis option.exhaust)
  show ?thesis
    using mp [OF spec [OF conjunct2 [OF assms(1) [unfolded operand_outcome_def]], of i] assms(2)]
      assms(3,4) unfolding none option.case by (simp only: if_True simp_thms)
qed

section \<open>An instance of the helpers\<close>

fun nested_get :: "jmap \<Rightarrow> string list \<Rightarrow> jval option result" where
  "nested_get m [] = Inr (Some (JMap m))"
| "nested_get m (k # ks) =
     (case map_of m k of
        None \<Rightarrow> Inr None
      | Some v \<Rightarrow> if ks = [] then Inr (Some v)
          else (case v of JMap m' \<Rightarrow> nested_get m' ks | _ \<Rightarrow> Inl (Plain ''accessor error'')))"

fun nested_set :: "jmap \<Rightarrow> jval \<Rightarrow> string list \<Rightarrow> jmap result" where
  "nested_set m v [] = Inl (Plain ''empty path'')"
| "nested_set m v (k # ks) =
     (if ks = [] then Inr (map_set k v m)
      else case (case map_of m k of None \<Rightarrow> Inr [] | Some (JMap m') \<Rightarrow> Inr m'
                 | _ \<Rightarrow> Inl (Plain ''value cannot be set'')) of
             Inl e \<Rightarrow> Inl e
           | Inr m' \<Rightarrow> (case nested_set m' v ks of Inl e \<Rightarrow> Inl e | Inr m2 \<Rightarrow> Inr (map_set k (JMap m2) m)))"

definition as_string :: "jval option result \<Rightarrow> string option result" where
  "as_string r = (case r of Inl e \<Rightarrow> Inl e | Inr None \<Rightarrow> Inr None | Inr (Some (JStr s)) \<Rightarrow> Inr (Some s)
     | _ \<Rightarrow> Inl (Plain ''not a string''))"

definition as_slice :: "jval option result \<Rightarrow> jval list option result" where
  "as_slice r = (case r of Inl e \<Rightarrow> Inl e | Inr None \<Rightarrow> Inr None | Inr (Some (JList l)) \<Rightarrow> Inr (Some l)
     | _ \<Rightarrow> Inl (Plain ''not a slice''))"

definition str_entry :: "string \<times> jval \<Rightarrow> (string \<times> string) option" where
  "str_entry kv = (case kv of (k, JStr s) \<Rightarrow> Some (k, s) | _ \<Rightarrow> None)"

definition as_string_map :: "jval option result \<Rightarrow> (string, string) gomap option result" where
  "as_string_map r = (case r of Inl e \<Rightarrow> Inl e | Inr None \<Rightarrow> Inr None
     | Inr (Some (JMap m)) \<Rightarrow> Inr (Some (List.map_filter str_entry m)) | _ \<Rightarrow> Inl (Plain ''not a map''))"

definition mem_unstructured :: unstructured_api where
  "mem_unstructured = \<lparr>NestedString = (\<lambda>m p. as_string (nested_get m p)),
     NestedSlice = (\<lambda>m p. as_slice (nested_get m p)),
     NestedStringMap = (\<lambda>m p. as_string_map (nested_get m p)),
     SetNestedField = nested_set,
     SetNestedStringMap = (\<lambda>m ss p. nested_set m (JMap (map (\<lambda>(k, s). (k, JStr s)) ss)) p)\<rparr>"

text \<open>What a caller relies on: a value that was set is the value that is read.\<close>

definition read_after_write :: "unstructured_api \<Rightarrow> bool" where
  "read_after_write U \<longleftrightarrow>
     (\<forall>m s p m'. SetNestedField U m (JStr s) p = Inr m' \<longrightarrow> NestedString U m' p = Inr (Some s)) \<and>
     (\<forall>m ss p m'. SetNestedStringMap U m ss p = Inr m' \<longrightarrow>
        (\<exists>ss'. NestedStringMap U m' p = Inr (Some ss') \<and> map_of ss' = map_of ss))"

definition yaml_roundtrip :: "yaml_api \<Rightarrow> bool" where
  "yaml_roundtrip Y \<longleftrightarrow> (\<forall>m t. Marshal Y m = Inr t \<longrightarrow>
     (\<exists>m'. Unmarshal Y t = Inr (Some m') \<and> map_of m' = map_of m))"

lemma nested_set_get: "nested_set m v p = Inr m' \<Longrightarrow> nested_get m' p = Inr (Some v)"
proof (induction m v p arbitrary: m' rule: nested_set.induct)
  case (2 m v k ks)
  then show ?case by (auto split: if_splits sum.splits option.splits jval.splits)
qed simp

lemma str_entries: "List.map_filter str_entry (map (\<lambda>(k, s). (k, JStr s)) ss) = ss"
  by (induction ss) (auto simp: List.map_filter_simps str_entry_def)

lemma mem_unstructured_laws: "read_after_write mem_unstructured"
  by (auto simp: read_after_write_def mem_unstructured_def as_string_def as_string_map_def
      str_entries dest!: nested_set_get)

definition sample_yaml :: yaml_api where
  "sample_yaml = \<lparr>Unmarshal = (\<lambda>t. if t = ''merged'' then Inr (Some [(''a'', JStr ''b''), (''tls'', JNull)])
       else Inr (Some [(''a'', JStr ''b'')])),
     Marshal = (\<lambda>m. if m = [(''a'', JStr ''b''), (''tls'', JNull)] then Inr ''merged'' else Inl (Plain ''no'')),
     TLSOptionsValue = (\<lambda>opts. JNull)\<rparr>"

definition sample_item :: "string \<Rightarrow> string \<Rightarrow> jmap \<Rightarrow> unstructured" where
  "sample_item kind name ob = \<lparr>u_gvk = \<lparr>gvk_group = [], gvk_version = ''v1'', gvk_kind = kind\<rparr>,
     u_name = name, u_namespace = ''ns'', u_labels = [], u_finalizers = [], u_deleting = False, u_object = ob\<rparr>"

definition sample_items :: "unstructured list" where
  "sample_items =
     [sample_item ''ConfigMap'' ''kubeflow-trainer-config-x'' [(''data'', JMap [(operandConfigKey, JStr ''a: b'')])],
      sample_item ''Deployment'' operandDeploymentName [], sample_item ''Service'' ''s'' []]"

definition sample_rendered :: "unstructured list" where
  "sample_rendered =
     [sample_item ''ConfigMap'' ''kubeflow-trainer-config-x'' [(''data'', JMap [(operandConfigKey, JStr ''merged'')])],
      sample_item ''Deployment'' operandDeploymentName [(''spec'', JMap [(''template'', JMap [(''metadata'',
        JMap [(''annotations'', JMap [(operandTLSConfigHashAnnotation, JStr (sha256_hex ''merged''))])])])])],
      sample_item ''Service'' ''s'' []]"

lemma sample_yaml_laws: "yaml_roundtrip sample_yaml"
  by (simp add: yaml_roundtrip_def sample_yaml_def)

lemma sample_apply:
  "applyOperandTLSOptions sample_tables mem_unstructured sample_yaml sample_items sample_profile =
     (None, sample_rendered)"
  by (simp add: applyOperandTLSOptions_def sample_translate sample_items_def sample_rendered_def
      sample_item_def config_step_def annotate_step_def GetKind_def operandConfigMapPrefix_def
      operandConfigKey_def mem_unstructured_def as_string_def as_string_map_def sample_yaml_def
      map_set_def operandDeploymentName_def annotations_path_def)

lemma sample_config:
  "operand_config mem_unstructured (sample_items ! 0) = Some ''a: b''"
  "operand_config mem_unstructured (sample_items ! 1) = None"
  "operand_config mem_unstructured (sample_items ! 2) = None"
  "operand_deployment (sample_items ! 1)" "length sample_items = 3"
  by (simp_all add: operand_config_def operand_deployment_def sample_items_def sample_item_def GetKind_def
      operandConfigMapPrefix_def mem_unstructured_def as_string_def)

section \<open>Properties\<close>

text \<open>
  C14: What \<^verbatim>\<open>applyOperandTLSOptions\<close> does to the rendered items when it succeeds. The profile
  translates; in each operand ConfigMap the configuration file is replaced by the same document
  with its \<^verbatim>\<open>tls\<close> section set to the translated options; when there is one, the operand Deployment
  gets, beside its other annotations, the SHA-256 of the last configuration written; every other
  item is untouched and the number and order of the items is kept. Without an operand ConfigMap
  nothing changes.
\<close>

theorem applyOperandTLSOptions_effect:
  assumes "applyOperandTLSOptions T U Y items profile = (None, items')"
  shows "\<exists>opts h. TranslateProfile T profile = Inr opts \<and> operand_outcome U Y opts h items items'"
  using assms by (rule operand_effect)

theorem applyOperandTLSOptions_effect_witness:
  "\<exists>opts h. TranslateProfile sample_tables sample_profile = Inr opts \<and>
     operand_outcome mem_unstructured sample_yaml opts h sample_items sample_rendered"
  by (rule applyOperandTLSOptions_effect [OF sample_apply])

lemma merged_config_read:
  assumes "yaml_roundtrip Y" and "merged_config Y opts raw = Inr out"
  shows "\<exists>cfg cfg'. Unmarshal Y raw = Inr cfg \<and> Unmarshal Y out = Inr (Some cfg') \<and>
    map_of cfg' = (map_of (case cfg of None \<Rightarrow> [] | Some m \<Rightarrow> m))(''tls'' \<mapsto> TLSOptionsValue Y opts)"
proof -
  from assms(2) obtain cfg where cfg: "Unmarshal Y raw = Inr cfg"
    and out: "Marshal Y (map_set ''tls'' (TLSOptionsValue Y opts) (case cfg of None \<Rightarrow> [] | Some m \<Rightarrow> m)) = Inr out"
    by (auto simp: merged_config_def split: sum.splits)
  from assms(1) out obtain cfg' where "Unmarshal Y out = Inr (Some cfg')"
    "map_of cfg' = map_of (map_set ''tls'' (TLSOptionsValue Y opts) (case cfg of None \<Rightarrow> [] | Some m \<Rightarrow> m))"
    unfolding yaml_roundtrip_def by blast
  with cfg show ?thesis by auto
qed

lemma operand_config_set:
  assumes "read_after_write U" and "operand_config U item = Some raw"
    and "SetNestedField U (u_object item) (JStr out) [''data'', operandConfigKey] = Inr ob"
  shows "operand_config U (item\<lparr>u_object := ob\<rparr>) = Some out"
proof -
  from assms(1,3) have "NestedString U ob [''data'', operandConfigKey] = Inr (Some out)"
    unfolding read_after_write_def by blast
  with assms(2) show ?thesis by (auto simp: operand_config_def split: if_splits)
qed

text \<open>
  C16: What the operand reads at its next start: in every operand ConfigMap the configuration file
  parses to the document that was there before with exactly the \<^verbatim>\<open>tls\<close> key set to the translation of
  the cluster profile; a document that was empty counts as an empty map.
\<close>

theorem operand_reads_tls_options:
  assumes "read_after_write U" and "yaml_roundtrip Y"
    and "applyOperandTLSOptions T U Y items profile = (None, items')"
    and "i < length items" and "operand_config U (items ! i) = Some raw"
  shows "\<exists>opts text cfg cfg'. TranslateProfile T profile = Inr opts \<and>
    operand_config U (items' ! i) = Some text \<and> Unmarshal Y raw = Inr cfg \<and>
    Unmarshal Y text = Inr (Some cfg') \<and>
    map_of cfg' = (map_of (case cfg of None \<Rightarrow> [] | Some m \<Rightarrow> m))(''tls'' \<mapsto> TLSOptionsValue Y opts)"
proof -
  from operand_effect [OF assms(3)] obtain opts h where opts: "TranslateProfile T profile = Inr opts"
    and outcome: "operand_outcome U Y opts h items items'" by blast
  from outcome_config [OF outcome assms(4,5)] obtain out ob where
    out: "merged_config Y opts raw = Inr out"
    and set: "SetNestedField U (u_object (items ! i)) (JStr out) [''data'', operandConfigKey] = Inr ob"
    and i: "items' ! i = (items ! i)\<lparr>u_object := ob\<rparr>" by blast
  from merged_config_read [OF assms(2) out] opts i operand_config_set [OF assms(1,5) set]
  show ?thesis by metis
qed

theorem operand_reads_tls_options_witness:
  "\<exists>opts text cfg cfg'. TranslateProfile sample_tables sample_profile = Inr opts \<and>
    operand_config mem_unstructured (sample_rendered ! 0) = Some text \<and>
    Unmarshal sample_yaml ''a: b'' = Inr cfg \<and> Unmarshal sample_yaml text = Inr (Some cfg') \<and>
    map_of cfg' = (map_of (case cfg of None \<Rightarrow> [] | Some m \<Rightarrow> m))(''tls'' \<mapsto> TLSOptionsValue sample_yaml opts)"
  by (rule operand_reads_tls_options [OF mem_unstructured_laws sample_yaml_laws sample_apply])
    (simp_all add: sample_config)

text \<open>
  C15: The roll-out annotation is the hash of what is deployed: when \<open>i\<close> is the last operand
  ConfigMap, the pod template of the operand Deployment carries the SHA-256 of the configuration
  text that item now holds, and its other annotations are as they were; a configuration change
  therefore changes the pod template and rolls the pods.
\<close>

theorem deployment_annotated_with_config_hash:
  assumes "read_after_write U"
    and "applyOperandTLSOptions T U Y items profile = (None, items')"
    and "i < length items" and "operand_config U (items ! i) = Some raw"
    and "\<forall>j. i < j \<and> j < length items \<longrightarrow> operand_config U (items ! j) = None"
    and "k < length items" and "operand_deployment (items ! k)"
  shows "\<exists>text old ann. operand_config U (items' ! i) = Some text \<and>
    NestedStringMap U (u_object (items ! k)) annotations_path = Inr old \<and>
    NestedStringMap U (u_object (items' ! k)) annotations_path = Inr (Some ann) \<and>
    map_of ann = (map_of (case old of None \<Rightarrow> [] | Some m \<Rightarrow> m))
      (operandTLSConfigHashAnnotation \<mapsto> sha256_hex text)"
proof -
  from operand_effect [OF assms(2)] obtain opts h where out: "operand_outcome U Y opts h items items'"
    by blast
  from outcome_config [OF out assms(3,4)] assms(5) obtain new ob where
    set: "SetNestedField U (u_object (items ! i)) (JStr new) [''data'', operandConfigKey] = Inr ob"
    and i: "items' ! i = (items ! i)\<lparr>u_object := ob\<rparr>" and h: "h = sha256_hex new"
    by blast
  have "\<exists>item\<in>set items. operand_config U item \<noteq> None"
    using assms(3,4) by (metis nth_mem option.distinct(1))
  from outcome_deployment [OF out assms(6,7) this] obtain old ob' where
    old: "NestedStringMap U (u_object (items ! k)) annotations_path = Inr old"
    and set': "SetNestedStringMap U (u_object (items ! k)) (merged_annotations old h) annotations_path = Inr ob'"
    and k: "items' ! k = (items ! k)\<lparr>u_object := ob'\<rparr>" by blast
  from assms(1) set' obtain ann where "NestedStringMap U ob' annotations_path = Inr (Some ann)"
    "map_of ann = map_of (merged_annotations old h)"
    unfolding read_after_write_def by blast
  with old k i h operand_config_set [OF assms(1,4) set] show ?thesis
    by (auto simp: merged_annotations_def)
qed

theorem deployment_annotated_with_config_hash_witness:
  "\<exists>text old ann. operand_config mem_unstructured (sample_rendered ! 0) = Some text \<and>
    NestedStringMap mem_unstructured (u_object (sample_items ! 1)) annotations_path = Inr old \<and>
    NestedStringMap mem_unstructured (u_object (sample_rendered ! 1)) annotations_path = Inr (Some ann) \<and>
    map_of ann = (map_of (case old of None \<Rightarrow> [] | Some m \<Rightarrow> m))
      (operandTLSConfigHashAnnotation \<mapsto> sha256_hex text)"
proof (rule deployment_annotated_with_config_hash [OF mem_unstructured_laws sample_apply])
  show "\<forall>j. 0 < j \<and> j < length sample_items \<longrightarrow> operand_config mem_unstructured (sample_items ! j) = None"
    using sample_config by (auto simp: less_Suc_eq numeral_3_eq_3 numeral_2_eq_2)
  show "operand_deployment (sample_items ! 1)" by (rule sample_config)
qed (simp_all add: sample_config)

lemma filterConfigMaps_filter: "filterConfigMaps items = [x \<leftarrow> items. GetKind x \<noteq> ''ConfigMap'']"
  by (induction items) simp_all

end
