(* ===== verification/Rendering.thy ===== *)
theory Rendering
  imports Work_Dir Params Manifests
begin

text \<open>
  The action \<^verbatim>\<open>renderManifests\<close> with \<^verbatim>\<open>renderResourceSet\<close> and the \<^verbatim>\<open>resourceSet\<close> table
  (internal/controller/trainer_controller.go): for each resource set the work directory is
  filled, its parameters are overridden, the overlay is rendered and the result is adjusted.
\<close>

section \<open>Configuration and parameters\<close>

text \<open>\<^verbatim>\<open>ReconcilerConfig\<close>, the values \<^verbatim>\<open>trainerActions\<close> keeps.\<close>

record ReconcilerConfig =
  ManifestsPath :: path
  RuntimesPath :: path
  ImageStreamsPath :: path
  WorkDir :: path
  TLSProfile :: TLSProfileSpec

text \<open>
  The functions of the environment and of other packages that rendering calls: the order maps are
  iterated in, the environment variables, the outcome of system calls, kustomize, the YAML codec,
  the unstructured helpers and the TLS tables.
\<close>

record render_env =
  re_iter :: "(string, string) gomap \<Rightarrow> (string, string) gomap"
  re_getenv :: "string \<Rightarrow> string"
  re_io :: io_env
  re_kustomize :: "path \<Rightarrow> render_opt list \<Rightarrow> fnode \<Rightarrow> unstructured list result"
  re_tables :: tls_tables
  re_unstructured :: unstructured_api
  re_yaml :: yaml_api

record resourceSet =
  rs_name :: string
  rs_subDir :: string
  rs_templatePath :: path
  rs_paramMap :: "(string, string) gomap"
  rs_staticParams :: "(string, string) gomap"
  rs_namespace :: string
  rs_overlay :: string
  rs_filterConfigMaps :: bool
  rs_operandTLS :: bool

definition manifests_set :: "ReconcilerConfig \<Rightarrow> string \<Rightarrow> resourceSet" where
  "manifests_set m namespace =
     \<lparr>rs_name = ''manifests'', rs_subDir = ''manifests'', rs_templatePath = ManifestsPath m,
      rs_paramMap = trainerImageParamMap,
      rs_staticParams = [(paramOperatorNamespace, namespace)],
      rs_namespace = namespace, rs_overlay = defaultOverlay,
      rs_filterConfigMaps = False, rs_operandTLS = True\<rparr>"

definition runtimes_set :: "ReconcilerConfig \<Rightarrow> resourceSet" where
  "runtimes_set m =
     \<lparr>rs_name = ''runtimes'', rs_subDir = ''runtimes'', rs_templatePath = RuntimesPath m,
      rs_paramMap = runtimesParamMap, rs_staticParams = [], rs_namespace = [], rs_overlay = [],
      rs_filterConfigMaps = True, rs_operandTLS = False\<rparr>"

definition imagestreams_set :: "ReconcilerConfig \<Rightarrow> string \<Rightarrow> resourceSet" where
  "imagestreams_set m namespace =
     \<lparr>rs_name = ''imagestreams'', rs_subDir = ''imagestreams'', rs_templatePath = ImageStreamsPath m,
      rs_paramMap = imageStreamParamMap, rs_staticParams = [], rs_namespace = namespace,
      rs_overlay = [], rs_filterConfigMaps = True, rs_operandTLS = False\<rparr>"

section \<open>The action\<close>

definition renderResourceSet ::
  "render_env \<Rightarrow> ReconcilerConfig \<Rightarrow> resourceSet \<Rightarrow> fnode \<Rightarrow> unstructured list result \<times> fnode" where
  "renderResourceSet E m rs fs =
     (let workDir = WorkDir m @ [rs_subDir rs] in
      case ensureWorkDir (re_io E) (rs_templatePath rs) workDir fs of
        (Some e, fs) \<Rightarrow> (Inl (Wrap (''preparing '' @ rs_name rs @ '' work directory'') e), fs)
      | (None, fs) \<Rightarrow>
      (let renderPath = (if rs_overlay rs \<noteq> [] then workDir @ [rs_overlay rs] else workDir) in
      case applyParamOverrides (re_iter E) (re_getenv E) (re_io E) renderPath (rs_paramMap rs) fs of
        (Some e, fs) \<Rightarrow> (Inl (Wrap (''resolving '' @ rs_name rs @ '' params'') e), fs)
      | (None, fs) \<Rightarrow>
      (case (if length (rs_staticParams rs) > 0
             then applyStaticParams (re_iter E) (re_io E) renderPath (rs_staticParams rs) fs
             else (None, fs)) of
        (Some e, fs) \<Rightarrow> (Inl (Wrap (''applying '' @ rs_name rs @ '' static params'') e), fs)
      | (None, fs) \<Rightarrow>
      (case renderOverlay (re_kustomize E) renderPath (rs_namespace rs) fs of
        Inl e \<Rightarrow> (Inl (Wrap (''rendering '' @ rs_name rs) e), fs)
      | Inr rendered \<Rightarrow>
      (let rendered = (if rs_filterConfigMaps rs then filterConfigMaps rendered else rendered) in
      if rs_operandTLS rs
      then (case applyOperandTLSOptions (re_tables E) (re_unstructured E) (re_yaml E) rendered (TLSProfile m) of
              (Some e, rendered) \<Rightarrow>
                (Inl (Wrap (''applying operand TLS options to '' @ rs_name rs) e), fs)
            | (None, rendered) \<Rightarrow> (Inr rendered, fs))
      else (Inr rendered, fs))))))"

text \<open>The loop over the resource sets, appending to the request's resources.\<close>

fun render_sets ::
  "render_env \<Rightarrow> ReconcilerConfig \<Rightarrow> resourceSet list \<Rightarrow> fnode \<Rightarrow> request \<Rightarrow>
     goerr option \<times> fnode \<times> request" where
  "render_sets E m [] fs rr = (None, fs, rr)"
| "render_sets E m (rs # rss) fs rr =
     (case renderResourceSet E m rs fs of
        (Inl e, fs) \<Rightarrow> (Some e, fs, rr)
      | (Inr rendered, fs) \<Rightarrow>
          render_sets E m rss fs (rr\<lparr>Resources := Resources rr @ rendered\<rparr>))"

definition resource_sets :: "ReconcilerConfig \<Rightarrow> cluster_type \<Rightarrow> string \<Rightarrow> resourceSet list" where
  "resource_sets m clusterType namespace =
     [manifests_set m namespace, runtimes_set m] @
     (if clusterType = ClusterTypeOpenShift then [imagestreams_set m namespace] else [])"

definition renderManifests ::
  "'w platform_api \<Rightarrow> render_env \<Rightarrow> ReconcilerConfig \<Rightarrow> 'w \<Rightarrow> fnode \<Rightarrow> request \<Rightarrow>
     goerr option \<times> fnode \<times> request" where
  "renderManifests P E m w fs rr =
     (let namespace = resolveNamespace (Instance rr) in
      case DetectClusterType P w of
        Inl e \<Rightarrow> (Some (Wrap ''failed to detect cluster type'' e), fs, rr)
      | Inr clusterType \<Rightarrow>
         (case render_sets E m (resource_sets m clusterType namespace) fs rr of
            (Some e, fs, rr) \<Rightarrow> (Some e, fs, rr)
          | (None, fs, rr) \<Rightarrow> (None, fs, rr\<lparr>Generated := True\<rparr>)))"

section \<open>A sample environment\<close>

definition sample_render_env :: render_env where
  "sample_render_env = \<lparr>re_iter = (\<lambda>m. m), re_getenv = sample_env, re_io = no_faults,
     re_kustomize = (\<lambda>p opts fs. Inr sample_items), re_tables = sample_tables,
     re_unstructured = mem_unstructured, re_yaml = sample_yaml\<rparr>"

definition sample_config_paths :: ReconcilerConfig where
  "sample_config_paths = \<lparr>ManifestsPath = [''template''], RuntimesPath = [''runtimes''],
     ImageStreamsPath = [''streams''], WorkDir = [''work''], TLSProfile = sample_profile\<rparr>"

definition sample_work_fs :: fnode where
  "sample_work_fs = Dir [(''work'', Dir [(''manifests'', Dir [(''rhoai'', Dir [(''x.yaml'', File [])])]),
     (''runtimes'', Dir [(''y.yaml'', File [])])])]"

definition sample_platform :: "unit platform_api" where
  "sample_platform = \<lparr>DetectClusterType = (\<lambda>w. Inr ClusterTypeKubernetes),
     OperatorExists = (\<lambda>n w. Inl (Plain n)), GetSingleton = (\<lambda>g w. Inl (Plain [])),
     CustomResourceDefinitionExists = (\<lambda>g k w. None)\<rparr>"

definition empty_request :: request where
  "empty_request = \<lparr>Instance = \<lparr>tr_name = TrainerInstanceName,
       Spec = \<lparr>AppNamespace = [], FeatureGates = [], Controllers = []\<rparr>,
       Status = \<lparr>status_common = \<lparr>Phase = [], Conditions = []\<rparr>, Releases = []\<rparr>\<rparr>,
     Resources = [], Generated = False, marks = []\<rparr>"

lemma sample_render:
  assumes "DetectClusterType P w = Inr ClusterTypeKubernetes" and "resolveNamespace (Instance rr) = defaultNamespace"
  shows "renderManifests P sample_render_env sample_config_paths w sample_work_fs rr =
     (None, sample_work_fs,
      rr\<lparr>Resources := Resources rr @ sample_rendered @ filterConfigMaps sample_items, Generated := True\<rparr>)"
proof -
  have m: "renderResourceSet sample_render_env sample_config_paths
      (manifests_set sample_config_paths defaultNamespace) sample_work_fs = (Inr sample_rendered, sample_work_fs)"
    by (simp add: renderResourceSet_def manifests_set_def sample_render_env_def sample_config_paths_def
        sample_work_fs_def ensureWorkDir_def os_read_dir_def applyParamOverrides_def applyStaticParams_def
        os_stat_def defaultOverlay_def defaultNamespace_def renderOverlay_def sample_apply sys_def)
  have r: "renderResourceSet sample_render_env sample_config_paths (runtimes_set sample_config_paths) sample_work_fs =
      (Inr (filterConfigMaps sample_items), sample_work_fs)"
    by (simp add: renderResourceSet_def runtimes_set_def sample_render_env_def sample_config_paths_def
        sample_work_fs_def ensureWorkDir_def os_read_dir_def applyParamOverrides_def
        os_stat_def renderOverlay_def sys_def)
  from assms show ?thesis by (simp add: renderManifests_def resource_sets_def m r)
qed

section \<open>Properties of the action\<close>

lemma render_sets_frame:
  "render_sets E m rss fs rr = (r, fs', rr') \<Longrightarrow>
     \<exists>out. rr' = rr\<lparr>Resources := Resources rr @ out\<rparr>"
proof (induction rss arbitrary: fs rr)
  case (Cons rs rss)
  show ?case
  proof (cases "renderResourceSet E m rs fs")
    case (Pair x fs1)
    show ?thesis
    proof (cases x)
      case (Inl e)
      with Pair Cons.prems show ?thesis by (intro exI [of _ "[]"]) simp
    next
      case (Inr rendered)
      with Pair Cons.prems Cons.IH [of fs1 "rr\<lparr>Resources := Resources rr @ rendered\<rparr>"]
      show ?thesis by auto
    qed
  qed
qed (intro exI [of _ "[]"], simp)

lemma render_sets_ok:
  "render_sets E m (rs # rss) fs rr = (None, fs', rr') \<longleftrightarrow>
     (\<exists>items fs1. renderResourceSet E m rs fs = (Inr items, fs1) \<and>
        render_sets E m rss fs1 (rr\<lparr>Resources := Resources rr @ items\<rparr>) = (None, fs', rr'))"
  by (auto split: prod.splits sum.splits)

lemma filtered_set:
  "renderResourceSet E m rs fs = (Inr items, fs') \<Longrightarrow> rs_filterConfigMaps rs \<Longrightarrow> \<not> rs_operandTLS rs \<Longrightarrow>
     x \<in> set items \<Longrightarrow> GetKind x \<noteq> ''ConfigMap''"
  by (auto simp: renderResourceSet_def Let_def filterConfigMaps_filter
      split: prod.splits option.splits sum.splits if_splits)

lemma tls_set:
  "renderResourceSet E m rs fs = (Inr items, fs') \<Longrightarrow> rs_operandTLS rs \<Longrightarrow>
     \<exists>rendered. applyOperandTLSOptions (re_tables E) (re_unstructured E) (re_yaml E) rendered (TLSProfile m) =
       (None, items)"
  by (auto simp: renderResourceSet_def Let_def split: prod.splits option.splits sum.splits if_splits)

lemma rendered:
  assumes "renderManifests P E m w fs rr = (None, fs', rr')"
  shows "\<exists>ct trainer runtimes streams. DetectClusterType P w = Inr ct \<and>
    rr' = rr\<lparr>Resources := Resources rr @ trainer @ runtimes @ streams, Generated := True\<rparr> \<and>
    (\<exists>rendered. applyOperandTLSOptions (re_tables E) (re_unstructured E) (re_yaml E) rendered (TLSProfile m) =
       (None, trainer)) \<and>
    (\<forall>x\<in>set (runtimes @ streams). GetKind x \<noteq> ''ConfigMap'') \<and>
    (ct \<noteq> ClusterTypeOpenShift \<longrightarrow> streams = [])"
proof -
  let ?ns = "resolveNamespace (Instance rr)"
  from assms obtain ct rr1 where ct: "DetectClusterType P w = Inr ct"
    and sets: "render_sets E m (resource_sets m ct ?ns) fs rr = (None, fs', rr1)"
    and rr': "rr' = rr1\<lparr>Generated := True\<rparr>"
    by (auto simp: renderManifests_def Let_def split: sum.splits prod.splits option.splits)
  from sets obtain trainer fs1 runtimes fs2 where
    t: "renderResourceSet E m (manifests_set m ?ns) fs = (Inr trainer, fs1)"
    and r: "renderResourceSet E m (runtimes_set m) fs1 = (Inr runtimes, fs2)"
    and rest: "render_sets E m (if ct = ClusterTypeOpenShift then [imagestreams_set m ?ns] else []) fs2
        (rr\<lparr>Resources := (Resources rr @ trainer) @ runtimes\<rparr>) = (None, fs', rr1)"
    by (auto simp only: resource_sets_def append_Cons append_Nil render_sets_ok) simp
  obtain streams where s: "rr1 = rr\<lparr>Resources := Resources rr @ trainer @ runtimes @ streams\<rparr>"
    "ct \<noteq> ClusterTypeOpenShift \<longrightarrow> streams = []" "\<forall>x\<in>set streams. GetKind x \<noteq> ''ConfigMap''"
  proof (cases "ct = ClusterTypeOpenShift")
    case True
    with rest obtain streams fs3 where
      "renderResourceSet E m (imagestreams_set m ?ns) fs2 = (Inr streams, fs3)"
      "rr1 = rr\<lparr>Resources := Resources rr @ trainer @ runtimes @ streams\<rparr>"
      by (auto split: prod.splits sum.splits)
    with that [of streams] True filtered_set show ?thesis by (fastforce simp: imagestreams_set_def)
  next
    case False
    with rest that [of "[]"] show ?thesis by simp
  qed
  have "GetKind x \<noteq> ''ConfigMap''" if "x \<in> set runtimes" for x
    using filtered_set [OF r _ _ that] by (simp add: runtimes_set_def)
  moreover have "\<exists>rendered. applyOperandTLSOptions (re_tables E) (re_unstructured E) (re_yaml E) rendered
      (TLSProfile m) = (None, trainer)"
    using tls_set [OF t] by (simp add: manifests_set_def)
  ultimately show ?thesis
    by (intro exI [of _ ct] exI [of _ trainer] exI [of _ runtimes] exI [of _ streams])
      (use ct rr' s in auto)
qed

lemma rendered_sets:
  assumes "renderManifests P E m w fs rr = (None, fs', rr')"
  shows "\<exists>trainer rest rendered. Resources rr' = Resources rr @ trainer @ rest \<and>
    (\<forall>x\<in>set rest. GetKind x \<noteq> ''ConfigMap'') \<and>
    applyOperandTLSOptions (re_tables E) (re_unstructured E) (re_yaml E) rendered (TLSProfile m) = (None, trainer)"
proof -
  from rendered [OF assms] obtain trainer runtimes streams rendered where
    "rr' = rr\<lparr>Resources := Resources rr @ trainer @ runtimes @ streams, Generated := True\<rparr>"
    "applyOperandTLSOptions (re_tables E) (re_unstructured E) (re_yaml E) rendered (TLSProfile m) = (None, trainer)"
    "\<forall>x\<in>set (runtimes @ streams). GetKind x \<noteq> ''ConfigMap''" by blast
  then show ?thesis by (intro exI [of _ trainer] exI [of _ "runtimes @ streams"] exI [of _ rendered]) simp
qed

text \<open>
  \<^verbatim>\<open>renderManifests\<close> on success: the request is marked generated and its resources are extended,
  in this order, by the trainer manifests with the operand's TLS options applied, the runtimes
  and, on OpenShift only, the image streams; runtimes and image streams bring no ConfigMap.
  Nothing else of the request changes.
\<close>

lemma renderManifests_success:
  assumes "renderManifests P E m w fs rr = (None, fs', rr')"
  shows "\<exists>ct trainer runtimes streams. DetectClusterType P w = Inr ct \<and>
    rr' = rr\<lparr>Resources := Resources rr @ trainer @ runtimes @ streams, Generated := True\<rparr> \<and>
    (\<exists>rendered. applyOperandTLSOptions (re_tables E) (re_unstructured E) (re_yaml E) rendered (TLSProfile m) =
       (None, trainer)) \<and>
    (\<forall>x\<in>set (runtimes @ streams). GetKind x \<noteq> ''ConfigMap'') \<and>
    (ct \<noteq> ClusterTypeOpenShift \<longrightarrow> streams = [])"
  using assms by (rule rendered)

lemma renderManifests_success_witness:
  "\<exists>ct trainer runtimes streams. DetectClusterType sample_platform () = Inr ct \<and>
    empty_request\<lparr>Resources := Resources empty_request @ sample_rendered @ filterConfigMaps sample_items,
      Generated := True\<rparr> =
      empty_request\<lparr>Resources := Resources empty_request @ trainer @ runtimes @ streams, Generated := True\<rparr> \<and>
    (\<exists>rendered. applyOperandTLSOptions (re_tables sample_render_env) (re_unstructured sample_render_env)
       (re_yaml sample_render_env) rendered (TLSProfile sample_config_paths) = (None, trainer)) \<and>
    (\<forall>x\<in>set (runtimes @ streams). GetKind x \<noteq> ''ConfigMap'') \<and>
    (ct \<noteq> ClusterTypeOpenShift \<longrightarrow> streams = [])"
  by (rule renderManifests_success [OF sample_render]) (simp_all add: sample_platform_def resolveNamespace_def empty_request_def)

text \<open>
  C30: \<^verbatim>\<open>renderManifests\<close> fails closed. On any error the request is not marked generated, its
  resources are at most extended and nothing else of it changes; and when the cluster TLS profile
  cannot be translated the action always fails, before any resource has been added.
\<close>

theorem renderManifests_fail_closed:
  "let (r, fs', rr') = renderManifests P E m w fs rr
   in (r \<noteq> None \<longrightarrow> (\<exists>out. rr' = rr\<lparr>Resources := Resources rr @ out\<rparr>)) \<and>
      (isl (TranslateProfile (re_tables E) (TLSProfile m)) \<longrightarrow> r \<noteq> None \<and> rr' = rr)"
proof -
  obtain r fs' rr' where run: "renderManifests P E m w fs rr = (r, fs', rr')" by (cases "renderManifests P E m w fs rr")
  have "\<exists>out. rr' = rr\<lparr>Resources := Resources rr @ out\<rparr>" if "r \<noteq> None"
  proof (cases "DetectClusterType P w")
    case (Inl e)
    with run show ?thesis by (intro exI [of _ "[]"]) (simp add: renderManifests_def)
  next
    case (Inr ct)
    with run that have "render_sets E m (resource_sets m ct (resolveNamespace (Instance rr))) fs rr = (r, fs', rr')"
      by (auto simp: renderManifests_def Let_def split: prod.splits option.splits)
    then show ?thesis by (rule render_sets_frame)
  qed
  moreover have "r \<noteq> None \<and> rr' = rr" if bad: "TranslateProfile (re_tables E) (TLSProfile m) = Inl e" for e
  proof -
    have "\<exists>e'. fst (renderResourceSet E m (manifests_set m ns) fs) = Inl e'" for ns
      using bad by (auto simp: renderResourceSet_def Let_def manifests_set_def applyOperandTLSOptions_def
          split: prod.splits option.splits sum.splits)
    then obtain e' fs1 where "renderResourceSet E m (manifests_set m (resolveNamespace (Instance rr))) fs = (Inl e', fs1)"
      by (metis prod.collapse)
    with run show ?thesis
      by (auto simp: renderManifests_def Let_def resource_sets_def split: sum.splits prod.splits)
  qed
  ultimately show ?thesis using run by (auto simp: isl_def)
qed

definition bad_tables :: tls_tables where
  "bad_tables = sample_tables\<lparr>CurvePreferencesFromSpec := (\<lambda>p. Inl (Plain ''no supported group''))\<rparr>"

theorem renderManifests_fail_closed_witness:
  "let (r, fs', rr') = renderManifests sample_platform (sample_render_env\<lparr>re_tables := bad_tables\<rparr>)
       sample_config_paths () sample_work_fs empty_request
   in r \<noteq> None \<and> rr' = empty_request"
proof -
  have "isl (TranslateProfile (re_tables (sample_render_env\<lparr>re_tables := bad_tables\<rparr>)) (TLSProfile sample_config_paths))"
    by (simp add: TranslateProfile_def bad_tables_def)
  with renderManifests_fail_closed [of sample_platform "sample_render_env\<lparr>re_tables := bad_tables\<rparr>"
      sample_config_paths "()" sample_work_fs empty_request]
  show ?thesis by (auto simp: Let_def)
qed

section \<open>From the template to the overlay kustomize sees\<close>

lemma view_file: "fs_view fs p = Inr (VFile c) \<longleftrightarrow> fs_get fs p = Inr (File c)"
  by (auto simp: fs_view_def split: sum.splits elim: node_view.elims)

lemma filled_overlay_params:
  assumes "\<And>p. fs_view fs (work @ p) = fs_view t p"
    and "fs_view t [overlay, ''params.env''] = Inr (VFile content)"
    and "fs_view t [overlay, ''params.env.tmp''] = Inl ENOENT" and "parse_params content = Inr params"
  shows "holds_params (work @ [overlay]) fs params"
proof -
  have c: "fs_get fs ((work @ [overlay]) @ [''params.env'']) = Inr (File content)"
    using assms(1) [of "[overlay, ''params.env'']"] assms(2) by (simp flip: view_file)
  from fs_get_parent [OF this] assms(1) [of "[overlay, ''params.env.tmp'']"] assms(3)
  have "writable_at ((work @ [overlay]) @ [''params.env.tmp'']) fs"
    by (simp add: writable_at_def butlast_append)
  with c assms(4) show ?thesis unfolding holds_params_def by blast
qed

text \<open>
  From the template to the overlay, across the work directory, the parameter file and the
  rendering: on a fresh work directory, with no failing system call, the trainer manifests are
  rendered by kustomize with the trainer label and the application namespace, from a file system
  in which the overlay's parameter file says what the template's says, except that the operator
  namespace is the application namespace and the controller image is the one of the environment
  when that is set; the operand's TLS options are applied to exactly what kustomize returned.
\<close>

lemma overlay_from_template:
  assumes io: "re_io E = no_faults" and iter: "iterates (re_iter E)"
    and apart: "ManifestsPath m \<parallel> WorkDir m @ [''manifests'']"
    and template: "fs_get fs (ManifestsPath m) = Inr (Dir es)" "wf_tree (Dir es)"
    and fresh: "vacant (WorkDir m @ [''manifests'']) fs" "mkdir_all (WorkDir m @ [''manifests'']) fs = Inr fs0"
    and par: "fs_view (prune (Dir es)) [defaultOverlay, ''params.env''] = Inr (VFile content)"
      "fs_view (prune (Dir es)) [defaultOverlay, ''params.env.tmp''] = Inl ENOENT"
      "parse_params content = Inr params"
    and env: "\<forall>(k, ev)\<in>set trainerImageParamMap. re_getenv E ev \<noteq> [] \<longrightarrow> ok_entry (k, re_getenv E ev)"
    and ns: "ns \<noteq> []" "ok_entry (paramOperatorNamespace, ns)"
  shows "let dir = WorkDir m @ [''manifests''] @ [defaultOverlay] in \<exists>fs' new.
    readParams no_faults (dir @ [''params.env'']) fs' = Inr new \<and>
    (\<forall>k. map_of new k = (if k = paramOperatorNamespace then Some ns
       else case map_of trainerImageParamMap k of
         Some ev \<Rightarrow> if re_getenv E ev \<noteq> [] then Some (re_getenv E ev) else map_of params k
       | None \<Rightarrow> map_of params k)) \<and>
    renderResourceSet E m (manifests_set m ns) fs =
      (case re_kustomize E dir [WithLabel PlatformPartOf trainerPartOf, WithNamespace ns] fs' of
         Inl e \<Rightarrow> (Inl (Wrap ''rendering manifests'' (Wrap ''rendering kustomize overlay'' e)), fs')
       | Inr items \<Rightarrow>
          (case applyOperandTLSOptions (re_tables E) (re_unstructured E) (re_yaml E) items (TLSProfile m) of
             (Some e, out) \<Rightarrow> (Inl (Wrap ''applying operand TLS options to manifests'' e), fs')
           | (None, out) \<Rightarrow> (Inr out, fs')))"
proof -
  let ?work = "WorkDir m @ [''manifests'']"
  let ?dir = "?work @ [defaultOverlay]"
  from workdir_fills [OF apart template fresh] obtain fs1 where
    w: "ensureWorkDir no_faults (ManifestsPath m) ?work fs = (None, fs1)"
    and view: "\<And>p. fs_view fs1 (?work @ p) = fs_view (prune (Dir es)) p" by blast
  have "wf_map trainerImageParamMap" by (simp add: wf_map_def trainerImageParamMap_def)
  from overrides_effect [OF iter filled_overlay_params [OF view par] this env] obtain fs2 p2 where
    o: "applyParamOverrides (re_iter E) (re_getenv E) no_faults ?dir trainerImageParamMap fs1 = (None, fs2)"
    and h2: "holds_params ?dir fs2 p2" and p2: "\<forall>k. map_of p2 k = (case map_of trainerImageParamMap k of
        Some ev \<Rightarrow> if re_getenv E ev \<noteq> [] then Some (re_getenv E ev) else map_of params k
      | None \<Rightarrow> map_of params k)" by blast
  from static_effect [OF iter h2, of "[(paramOperatorNamespace, ns)]"] ns(2) obtain fs3 p3 where
    st: "applyStaticParams (re_iter E) no_faults ?dir [(paramOperatorNamespace, ns)] fs2 = (None, fs3)"
    and h3: "holds_params ?dir fs3 p3" and p3: "map_of p3 = map_of p2 ++ map_of [(paramOperatorNamespace, ns)]"
    by (auto simp: wf_map_def)
  have "renderResourceSet E m (manifests_set m ns) fs =
      (case re_kustomize E ?dir [WithLabel PlatformPartOf trainerPartOf, WithNamespace ns] fs3 of
         Inl e \<Rightarrow> (Inl (Wrap ''rendering manifests'' (Wrap ''rendering kustomize overlay'' e)), fs3)
       | Inr items \<Rightarrow>
          (case applyOperandTLSOptions (re_tables E) (re_unstructured E) (re_yaml E) items (TLSProfile m) of
             (Some e, out) \<Rightarrow> (Inl (Wrap ''applying operand TLS options to manifests'' e), fs3)
           | (None, out) \<Rightarrow> (Inr out, fs3)))"
    using w o st ns(1) io
    by (simp add: renderResourceSet_def manifests_set_def defaultOverlay_def renderOverlay_def
        split: sum.splits prod.splits option.splits)
  with holds_params_read [OF h3] p2 p3 show ?thesis
    unfolding Let_def by (intro exI [of _ fs3] exI [of _ p3]) simp
qed

definition template_fs :: fnode where
  "template_fs = Dir [(''template'', Dir [(''link'', Symlink), (''rhoai'', Dir [(''params.env'',
     File (''odh-kubeflow-trainer-controller-image=default'' @ [newline] @ ''ns=x''))])])]"

section \<open>What a rendering can change\<close>

context fs_kept
begin

lemma renderResourceSet_keeps:
  assumes "inv fs" and below: "prefix d (WorkDir m @ [rs_subDir rs])"
  shows "inv (snd (renderResourceSet E m rs fs))"
proof -
  obtain e1 fs1 where w: "ensureWorkDir (re_io E) (rs_templatePath rs) (WorkDir m @ [rs_subDir rs]) fs = (e1, fs1)"
    by fastforce
  then have "inv fs1" using ensureWorkDir_keeps [OF assms(1) below, of "re_io E" "rs_templatePath rs"] by simp
  let ?dir = "if rs_overlay rs \<noteq> [] then (WorkDir m @ [rs_subDir rs]) @ [rs_overlay rs] else WorkDir m @ [rs_subDir rs]"
  have dir: "prefix d ?dir" using below by auto
  obtain e2 fs2 where o: "applyParamOverrides (re_iter E) (re_getenv E) (re_io E) ?dir (rs_paramMap rs) fs1 = (e2, fs2)"
    by fastforce
  then have "inv fs2" using applyParamOverrides_keeps [OF \<open>inv fs1\<close> dir] by (metis snd_conv)
  obtain e3 fs3 where s: "(if length (rs_staticParams rs) > 0
      then applyStaticParams (re_iter E) (re_io E) ?dir (rs_staticParams rs) fs2 else (None, fs2)) = (e3, fs3)" by fastforce
  then have "inv fs3" using applyStaticParams_keeps [OF \<open>inv fs2\<close> dir] \<open>inv fs2\<close>
    by (metis snd_conv)
  show ?thesis
    unfolding renderResourceSet_def Let_def w prod.case o s
    using \<open>inv fs1\<close> \<open>inv fs2\<close> \<open>inv fs3\<close> by (simp split: option.split sum.split prod.split)
qed

lemma render_sets_keeps:
  "inv fs \<Longrightarrow> prefix d (WorkDir m) \<Longrightarrow> inv (fst (snd (render_sets E m rss fs rr)))"
proof (induction rss arbitrary: fs rr)
  case (Cons rs rss)
  then show ?case using renderResourceSet_keeps [of fs m rs E] by (auto split: prod.split sum.split)
qed simp

lemma renderManifests_keeps_files:
  assumes "inv fs" and "prefix d (WorkDir m)"
  shows "inv (fst (snd (renderManifests P E m w fs rr)))"
proof (cases "DetectClusterType P w")
  case (Inr clusterType)
  let ?sets = "resource_sets m clusterType (resolveNamespace (Instance rr))"
  obtain r1 fs1 rr1 where sets: "render_sets E m ?sets fs rr = (r1, fs1, rr1)" by (cases "render_sets E m ?sets fs rr")
  with render_sets_keeps [OF assms, of E ?sets rr] Inr show ?thesis
    by (cases r1) (simp_all add: renderManifests_def Let_def)
qed (simp add: renderManifests_def Let_def assms(1))

end

end
