(* ===== verification/Dependencies.thy ===== *)
theory Dependencies
  imports Trainer_Types
begin

text \<open>
  The JobSet dependency checks (internal/controller/dependencies.go) and the action
  \<^verbatim>\<open>checkDependencies\<close> with \<^verbatim>\<open>degradeDependency\<close> (internal/controller/trainer_controller.go).
\<close>

section \<open>Constants and messages\<close>

definition jobSetCRDName :: string where "jobSetCRDName = ''jobsets.jobset.x-k8s.io''"
definition jobSetVersion :: string where "jobSetVersion = ''v1alpha2''"
definition jobSetGroup :: string where "jobSetGroup = ''jobset.x-k8s.io''"
definition jobSetKind :: string where "jobSetKind = ''JobSet''"
definition jobSetOperatorCRName :: string where "jobSetOperatorCRName = ''cluster''"
definition jobSetOperatorName :: string where "jobSetOperatorName = ''jobset-operator''"
definition jobSetOperatorGroup :: string where "jobSetOperatorGroup = ''operator.openshift.io''"
definition jobSetOperatorKind :: string where "jobSetOperatorKind = ''JobSetOperator''"
definition jobSetOperatorAPIVersion :: string where "jobSetOperatorAPIVersion = ''v1''"

definition jobSetOperatorGVK :: gvk where
  "jobSetOperatorGVK = \<lparr>gvk_group = jobSetOperatorGroup, gvk_version = jobSetOperatorAPIVersion,
     gvk_kind = jobSetOperatorKind\<rparr>"

definition getJobSetOperatorNotInstalledMessage :: string where
  "getJobSetOperatorNotInstalledMessage = ''JobSet Operator is not installed. '' @
     ''Please install the JobSet Operator via OLM (OperatorHub) before deploying Trainer.''"

definition getJobSetOperatorCRMissingMessage :: string where
  "getJobSetOperatorCRMissingMessage = ''JobSetOperator CR with name '' @ [CHR 0x27] @
     jobSetOperatorCRName @ [CHR 0x27] @ '' not found. '' @
     ''Please create the JobSetOperator CR to enable the JobSet controller.''"

definition getJobSetMissingMessage :: string where
  "getJobSetMissingMessage = ''JobSet CRD ('' @ jobSetCRDName @ '' version '' @ jobSetVersion @
     '') is required but not found. '' @ ''Please install JobSet CRD before deploying Trainer.''"

definition getJobSetMissingMessageOpenShift :: string where
  "getJobSetMissingMessageOpenShift = ''JobSet CRD ('' @ jobSetCRDName @ '' version '' @
     jobSetVersion @ '') is required but not found. '' @
     ''This CRD should be created by the JobSet Operator. '' @
     ''Please check the JobSet Operator status or logs for more details.''"

section \<open>The checks\<close>

definition checkJobSetAvailable :: "'w platform_api \<Rightarrow> 'w \<Rightarrow> bool" where
  "checkJobSetAvailable P w =
     (case CustomResourceDefinitionExists P jobSetGroup jobSetKind w of
        Some e \<Rightarrow> False | None \<Rightarrow> True)"

definition checkJobSetOperatorInstalled :: "'w platform_api \<Rightarrow> 'w \<Rightarrow> bool" where
  "checkJobSetOperatorInstalled P w =
     (case OperatorExists P jobSetOperatorName w of Inl e \<Rightarrow> False | Inr v \<Rightarrow> True)"

definition checkJobSetOperatorCR :: "'w platform_api \<Rightarrow> 'w \<Rightarrow> bool" where
  "checkJobSetOperatorCR P w =
     (case GetSingleton P jobSetOperatorGVK w of Inl e \<Rightarrow> False | Inr cr \<Rightarrow> True)"

definition isJobSetOperatorConditionDegraded :: "string \<Rightarrow> string \<Rightarrow> bool" where
  "isJobSetOperatorConditionDegraded condType condStatus =
     (if condType = ''Degraded'' \<or> condType = ''TargetConfigControllerDegraded'' \<or>
         condType = ''JobSetOperatorStaticResourcesDegraded'' then condStatus = ''True''
      else if condType = ''Available'' then condStatus = ''False''
      else False)"

text \<open>One iteration of the loop over the status conditions: the entry it appends, if any.\<close>

definition condition_issue :: "unstructured_api \<Rightarrow> jval \<Rightarrow> string option" where
  "condition_issue U c =
     (case c of
        JMap cond \<Rightarrow>
          (case (found_string U cond ''type'', found_string U cond ''status'') of
             (Some condType, Some condStatus) \<Rightarrow>
               (if isJobSetOperatorConditionDegraded condType condStatus then
                  (let reason = string_or_empty U cond ''reason'';
                       message = string_or_empty U cond ''message'';
                       entry = condType @ ''='' @ condStatus;
                       entry = (if reason \<noteq> [] then entry @ '' ('' @ reason @ '')'' else entry);
                       entry = (if message \<noteq> [] then entry @ '': '' @ message else entry)
                   in Some entry)
                else None)
           | _ \<Rightarrow> Some ''malformed condition (missing type or status)'')
      | _ \<Rightarrow> None)"

definition checkJobSetOperatorHealth ::
  "unstructured_api \<Rightarrow> 'w platform_api \<Rightarrow> 'w \<Rightarrow> bool result" where
  "checkJobSetOperatorHealth U P w =
     (case GetSingleton P jobSetOperatorGVK w of
        Inl e \<Rightarrow> Inl (Wrap ''failed to fetch JobSetOperator CR for health check'' e)
      | Inr cr \<Rightarrow>
         (case NestedSlice U (u_object cr) [''status'', ''conditions''] of
            Inl e \<Rightarrow> Inl (Wrap ''failed to read JobSetOperator CR status conditions'' e)
          | Inr found \<Rightarrow>
             (case found of
                Some (c # cs) \<Rightarrow>
                  (let degraded = List.map_filter (condition_issue U) (c # cs) in
                   if degraded \<noteq> []
                   then Inl (Plain (''JobSetOperator '' @ u_name cr @ '': '' @ join ''; '' degraded))
                   else Inr True)
              | _ \<Rightarrow> Inl (Plain (''JobSetOperator CR '' @ u_name cr @
                   '' has no status conditions, operator may not have reconciled yet'')))))"

section \<open>The action\<close>

definition degradeDependency :: "string \<Rightarrow> string \<Rightarrow> request \<Rightarrow> goerr option \<times> request" where
  "degradeDependency reason message rr =
     (Some (Plain (''dependency not met: '' @ message)),
      MarkTrue degradedCondition reason message rr)"

definition checkDependencies ::
  "unstructured_api \<Rightarrow> 'w platform_api \<Rightarrow> 'w \<Rightarrow> request \<Rightarrow> goerr option \<times> request" where
  "checkDependencies U P w rr =
     (case DetectClusterType P w of
        Inl e \<Rightarrow>
          (Some (Wrap ''failed to detect cluster type'' e),
           MarkTrue degradedCondition ''ClusterDetectionFailed''
             (''Failed to detect cluster type: '' @ err_text e) rr)
      | Inr clusterType \<Rightarrow>
          (let ok = (None, MarkFalse degradedCondition ''DependenciesAvailable''
                       ''All required dependencies are available'' rr) in
           if clusterType = ClusterTypeOpenShift then
             (if \<not> checkJobSetOperatorInstalled P w then
                degradeDependency ''JobSetOperatorNotInstalled'' getJobSetOperatorNotInstalledMessage rr
              else if \<not> checkJobSetOperatorCR P w then
                degradeDependency ''JobSetOperatorCRNotFound'' getJobSetOperatorCRMissingMessage rr
              else case checkJobSetOperatorHealth U P w of
                     Inl e \<Rightarrow> degradeDependency ''JobSetOperatorDegraded'' (err_text e) rr
                   | Inr b \<Rightarrow>
                      (if \<not> checkJobSetAvailable P w then
                         degradeDependency ''JobSetCRDNotFound'' getJobSetMissingMessageOpenShift rr
                       else ok))
           else if \<not> checkJobSetAvailable P w then
             degradeDependency ''JobSetCRDNotFound'' getJobSetMissingMessage rr
           else ok))"

section \<open>What the checks decide\<close>

lemma condition_issue_None:
  "condition_issue U c = None \<longleftrightarrow>
     (case c of
        JMap m \<Rightarrow> (case (found_string U m ''type'', found_string U m ''status'') of
                   (Some t, Some s) \<Rightarrow> \<not> isJobSetOperatorConditionDegraded t s
                 | _ \<Rightarrow> False)
      | _ \<Rightarrow> True)"
  by (cases c) (auto simp: condition_issue_def Let_def split: option.splits)

text \<open>A healthy operator: at least one status condition, and every one that is an object has a
  type and a status and does not report a degraded state.\<close>

definition healthy_conditions :: "unstructured_api \<Rightarrow> jval list \<Rightarrow> bool" where
  "healthy_conditions U cs \<longleftrightarrow> cs \<noteq> [] \<and>
     (\<forall>c\<in>set cs. case c of
        JMap m \<Rightarrow> (case (found_string U m ''type'', found_string U m ''status'') of
                   (Some t, Some s) \<Rightarrow> \<not> isJobSetOperatorConditionDegraded t s
                 | _ \<Rightarrow> False)
      | _ \<Rightarrow> True)"

lemma healthy_conditions_issues:
  "healthy_conditions U cs \<longleftrightarrow> cs \<noteq> [] \<and> List.map_filter (condition_issue U) cs = []"
  by (simp only: healthy_conditions_def map_filter_Nil_iff condition_issue_None)

text \<open>
  \<^verbatim>\<open>checkJobSetOperatorHealth\<close> reports a healthy operator exactly when the JobSetOperator object
  can be fetched, its status has a non-empty list of conditions, and each condition that is an
  object has a type and a status and does not describe a degraded state; in every other case
  it returns an error, never a plain \<^verbatim>\<open>false\<close>.
\<close>

lemma health_iff:
  "checkJobSetOperatorHealth U P w = Inr b \<longleftrightarrow> b \<and>
     (\<exists>cr cs. GetSingleton P jobSetOperatorGVK w = Inr cr \<and>
        NestedSlice U (u_object cr) [''status'', ''conditions''] = Inr (Some cs) \<and>
        healthy_conditions U cs)"
  unfolding checkJobSetOperatorHealth_def healthy_conditions_issues
  by (auto simp: Let_def split: sum.splits option.splits list.splits)

text \<open>The dependencies of the component, and the failing one that is reported first.\<close>

definition dependencies_met :: "unstructured_api \<Rightarrow> 'w platform_api \<Rightarrow> 'w \<Rightarrow> bool" where
  "dependencies_met U P w \<longleftrightarrow>
     (case DetectClusterType P w of
        Inl e \<Rightarrow> False
      | Inr ct \<Rightarrow>
          CustomResourceDefinitionExists P jobSetGroup jobSetKind w = None \<and>
          (ct = ClusterTypeOpenShift \<longrightarrow>
             \<not> isl (OperatorExists P jobSetOperatorName w) \<and>
             (\<exists>cr cs. GetSingleton P jobSetOperatorGVK w = Inr cr \<and>
                NestedSlice U (u_object cr) [''status'', ''conditions''] = Inr (Some cs) \<and>
                healthy_conditions U cs)))"

definition dependency_checks :: "unstructured_api \<Rightarrow> 'w platform_api \<Rightarrow> 'w \<Rightarrow> (bool \<times> string) list" where
  "dependency_checks U P w =
     (case DetectClusterType P w of
        Inl e \<Rightarrow> [(False, ''ClusterDetectionFailed'')]
      | Inr ClusterTypeOpenShift \<Rightarrow>
          [(checkJobSetOperatorInstalled P w, ''JobSetOperatorNotInstalled''),
           (checkJobSetOperatorCR P w, ''JobSetOperatorCRNotFound''),
           (checkJobSetOperatorHealth U P w = Inr True, ''JobSetOperatorDegraded''),
           (checkJobSetAvailable P w, ''JobSetCRDNotFound'')]
      | Inr ClusterTypeKubernetes \<Rightarrow> [(checkJobSetAvailable P w, ''JobSetCRDNotFound'')])"

lemma health_Inr_True: "checkJobSetOperatorHealth U P w = Inr b \<Longrightarrow> b"
  by (simp add: health_iff)

lemma checkDependencies_table:
  "\<exists>msg. snd (checkDependencies U P w rr) =
     (case find (\<lambda>(ok, reason). \<not> ok) (dependency_checks U P w) of
        None \<Rightarrow> MarkFalse degradedCondition ''DependenciesAvailable''
                  ''All required dependencies are available'' rr
      | Some (ok, reason) \<Rightarrow> MarkTrue degradedCondition reason msg rr) \<and>
   (fst (checkDependencies U P w rr) = None) =
     (find (\<lambda>(ok, reason). \<not> ok) (dependency_checks U P w) = None)"
proof (cases "DetectClusterType P w")
  case (Inl e)
  then show ?thesis by (simp add: checkDependencies_def dependency_checks_def) blast
next
  case (Inr ct)
  show ?thesis
  proof (cases ct)
    case ClusterTypeOpenShift
    show ?thesis
    proof (cases "checkJobSetOperatorHealth U P w")
      case (Inl e)
      with Inr ClusterTypeOpenShift show ?thesis
        by (simp add: checkDependencies_def dependency_checks_def degradeDependency_def) blast
    next
      case (Inr b)
      then have "b" by (rule health_Inr_True)
      with Inr \<open>DetectClusterType P w = Inr ct\<close> ClusterTypeOpenShift show ?thesis
        by (simp add: checkDependencies_def dependency_checks_def degradeDependency_def) blast
    qed
  next
    case ClusterTypeKubernetes
    with Inr show ?thesis
      by (simp add: checkDependencies_def dependency_checks_def degradeDependency_def) blast
  qed
qed

lemma dependency_checks_met:
  "find (\<lambda>(ok, reason). \<not> ok) (dependency_checks U P w) = None \<longleftrightarrow> dependencies_met U P w"
proof (cases "DetectClusterType P w")
  case (Inr ct)
  have crd: "checkJobSetAvailable P w \<longleftrightarrow> CustomResourceDefinitionExists P jobSetGroup jobSetKind w = None"
    by (simp add: checkJobSetAvailable_def split: option.splits)
  have op: "checkJobSetOperatorInstalled P w \<longleftrightarrow> \<not> isl (OperatorExists P jobSetOperatorName w)"
    by (simp add: checkJobSetOperatorInstalled_def split: sum.splits)
  have cr: "checkJobSetOperatorHealth U P w = Inr True \<Longrightarrow> checkJobSetOperatorCR P w"
    by (auto simp: health_iff checkJobSetOperatorCR_def)
  show ?thesis
    using Inr crd op cr health_iff [of U P w True]
    by (cases ct) (auto simp: dependency_checks_def dependencies_met_def)
qed (simp add: dependency_checks_def dependencies_met_def)

text \<open>
  C28: \<^verbatim>\<open>checkDependencies\<close> returns no error exactly when the cluster type can be detected, the
  JobSet CRD is established and, on OpenShift, the JobSet operator is installed and its object
  exists and is healthy.
\<close>

theorem checkDependencies_ok_iff:
  "(fst (checkDependencies U P w rr) = None) = dependencies_met U P w"
  using checkDependencies_table [of U P w rr] dependency_checks_met [of U P w] by auto

text \<open>
  The Degraded condition \<^verbatim>\<open>checkDependencies\<close> sets: exactly one mark is added, it is true
  exactly when the action returns an error, its reason is that of the first failing check in
  the order cluster detection, operator, operator object, operator health, CRD (or
  \<^verbatim>\<open>DependenciesAvailable\<close>), and nothing else of the request changes.
\<close>

lemma checkDependencies_condition:
  "\<exists>msg. snd (checkDependencies U P w rr) = rr\<lparr>marks := marks rr @
     [\<lparr>mark_type = degradedCondition,
       mark_value = (fst (checkDependencies U P w rr) \<noteq> None),
       mark_reason = (case find (\<lambda>(ok, reason). \<not> ok) (dependency_checks U P w) of
          None \<Rightarrow> ''DependenciesAvailable'' | Some (ok, reason) \<Rightarrow> reason),
       mark_message = msg\<rparr>]\<rparr>"
  using checkDependencies_table [of U P w rr]
  by (auto simp: MarkTrue_def MarkFalse_def split: option.splits)

end
