(* ===== verification/Release_Status.thy ===== *)
theory Release_Status
  imports Trainer_Types Go_FS
begin

text \<open>
  The release information the operator keeps in the Trainer status and in the framework's
  reconciler: \<^verbatim>\<open>appendOrUpdateRelease\<close>, \<^verbatim>\<open>currentPlatformVersion\<close>, \<^verbatim>\<open>getPlatformVersion\<close>,
  \<^verbatim>\<open>readBootstrapRelease\<close>, \<^verbatim>\<open>getComponentReleases\<close> and the action \<^verbatim>\<open>updateReleases\<close> of
  internal/controller/trainer_controller.go. The YAML decoder and the semantic-version parser
  are arguments.
\<close>

section \<open>Definitions\<close>

definition platformConfigMapName :: string where "platformConfigMapName = ''odh-trainer-config''"
definition platformVersionKey :: string where "platformVersionKey = ''platformVersion''"
definition platformReleaseName :: string where "platformReleaseName = ''platform''"

record componentRelease =
  meta_name :: string
  meta_version :: string
  meta_repoURL :: string

record componentMetadata =
  meta_releases :: "componentRelease list"

text \<open>The framework's release: a platform name and a parsed version of type \<open>'v\<close>.\<close>

record 'v release =
  rel_name :: string
  rel_version :: 'v

fun appendOrUpdateRelease :: "ComponentRelease list \<Rightarrow> ComponentRelease \<Rightarrow> ComponentRelease list" where
  "appendOrUpdateRelease [] release = [release]"
| "appendOrUpdateRelease (r # releases) release =
     (if cr_name r = cr_name release then release # releases
      else r # appendOrUpdateRelease releases release)"

fun find_version :: "ComponentRelease list \<Rightarrow> string" where
  "find_version [] = []"
| "find_version (r # rs) = (if cr_name r = platformReleaseName then cr_version r else find_version rs)"

definition currentPlatformVersion :: "Trainer \<Rightarrow> string" where
  "currentPlatformVersion t = find_version (Releases (Status t))"

definition getPlatformVersion :: "'w typed_client \<Rightarrow> string \<Rightarrow> 'w \<Rightarrow> string result" where
  "getPlatformVersion C namespace w =
     (case get_configmap C platformConfigMapName namespace w of
        Inl e \<Rightarrow> (if is_not_found e then Inr []
                  else Inl (Wrap ''failed to get platform config ConfigMap'' e))
      | Inr data \<Rightarrow> Inr (map_index data platformVersionKey))"

definition metadata_path :: "path \<Rightarrow> path" where
  "metadata_path manifestsPath = manifestsPath @ [''component_metadata.yaml'']"

definition read_metadata ::
  "io_env \<Rightarrow> (string \<Rightarrow> componentMetadata result) \<Rightarrow> path \<Rightarrow> fnode \<Rightarrow> componentMetadata result" where
  "read_metadata io unmarshal manifestsPath fs =
     (case os_read_file io (metadata_path manifestsPath) fs of
        Inl e \<Rightarrow> Inl (Wrap ''reading component metadata'' e)
      | Inr data \<Rightarrow>
         (case unmarshal data of
            Inl e \<Rightarrow> Inl (Wrap ''parsing component metadata'' e)
          | Inr metadata \<Rightarrow> Inr metadata))"

definition readBootstrapRelease ::
  "io_env \<Rightarrow> (string \<Rightarrow> componentMetadata result) \<Rightarrow> (string \<Rightarrow> 'v result) \<Rightarrow> path \<Rightarrow> fnode \<Rightarrow>
     'v release result" where
  "readBootstrapRelease io unmarshal parse manifestsPath fs =
     (case read_metadata io unmarshal manifestsPath fs of
        Inl e \<Rightarrow> Inl e
      | Inr metadata \<Rightarrow>
         (case meta_releases metadata of
            [] \<Rightarrow> Inl (Plain ''no releases found in component metadata'')
          | r # rs \<Rightarrow>
             (case parse (meta_version r) of
                Inl e \<Rightarrow> Inl (Wrap (''parsing release version '' @ go_quote (meta_version r)) e)
              | Inr v \<Rightarrow> Inr \<lparr>rel_name = meta_name r, rel_version = v\<rparr>)))"

definition getComponentReleases ::
  "io_env \<Rightarrow> (string \<Rightarrow> componentMetadata result) \<Rightarrow> path \<Rightarrow> fnode \<Rightarrow> ComponentRelease list result" where
  "getComponentReleases io unmarshal manifestsPath fs =
     (case read_metadata io unmarshal manifestsPath fs of
        Inl e \<Rightarrow> Inl e
      | Inr metadata \<Rightarrow>
          Inr (map (\<lambda>r. \<lparr>cr_name = meta_name r, cr_version = meta_version r,
                         cr_repoURL = meta_repoURL r\<rparr>) (meta_releases metadata)))"

definition set_releases :: "ComponentRelease list \<Rightarrow> Trainer \<Rightarrow> Trainer" where
  "set_releases rs t = t\<lparr>Status := (Status t)\<lparr>Releases := rs\<rparr>\<rparr>"

text \<open>
  The action: the releases of the component metadata are merged (a failure to read them is
  logged only), then the platform version is read and, when it is set and parses, entered in the
  status and in the reconciler's own release. It returns the error, the changed request and the
  reconciler's release.
\<close>

definition updateReleases ::
  "io_env \<Rightarrow> (string \<Rightarrow> componentMetadata result) \<Rightarrow> (string \<Rightarrow> 'v result) \<Rightarrow> 'w typed_client \<Rightarrow>
     path \<Rightarrow> fnode \<Rightarrow> 'w \<Rightarrow> request \<Rightarrow> 'v release \<Rightarrow> goerr option \<times> request \<times> 'v release" where
  "updateReleases io unmarshal parse C manifestsPath fs w rr rel =
     (let trainer = Instance rr;
          namespace = resolveNamespace trainer;
          trainer = (case getComponentReleases io unmarshal manifestsPath fs of
                       Inl e \<Rightarrow> trainer
                     | Inr releases \<Rightarrow>
                         fold (\<lambda>release t. set_releases
                             (appendOrUpdateRelease (Releases (Status t)) release) t)
                           releases trainer);
          rr = rr\<lparr>Instance := trainer\<rparr>
      in case getPlatformVersion C namespace w of
           Inl e \<Rightarrow> (Some (Wrap ''failed to get platform version'' e), rr, rel)
         | Inr platformVersion \<Rightarrow>
             (if platformVersion = [] then (None, rr, rel)
              else case parse platformVersion of
                     Inl e \<Rightarrow> (None, rr, rel)
                   | Inr v \<Rightarrow>
                       (None,
                        rr\<lparr>Instance := set_releases
                          (appendOrUpdateRelease (Releases (Status trainer))
                             \<lparr>cr_name = platformReleaseName, cr_version = platformVersion,
                              cr_repoURL = []\<rparr>) trainer\<rparr>,
                        \<lparr>rel_name = platformReleaseName, rel_version = v\<rparr>)))"

section \<open>The release list as a store keyed by name\<close>

definition release_named :: "ComponentRelease list \<Rightarrow> string \<Rightarrow> ComponentRelease option" where
  "release_named rs n = find (\<lambda>r. cr_name r = n) rs"

text \<open>
  The contract \<^verbatim>\<open>updateReleases\<close> relies on: entering a release makes a lookup under its name
  return it, leaves the other names alone, and keeps the names distinct.
\<close>

locale keyed_store =
  fixes upsert :: "'s \<Rightarrow> 'r \<Rightarrow> 's"
    and lookup :: "'s \<Rightarrow> 'k \<Rightarrow> 'r option"
    and key :: "'r \<Rightarrow> 'k"
    and invar :: "'s \<Rightarrow> bool"
  assumes lookup_upsert: "lookup (upsert s r) k = (if k = key r then Some r else lookup s k)"
    and invar_upsert: "invar s \<Longrightarrow> invar (upsert s r)"
begin

lemma lookup_upsert_all:
  "lookup (fold (\<lambda>r s. upsert s r) rs s) k =
     (case find (\<lambda>r. key r = k) (rev rs) of None \<Rightarrow> lookup s k | Some r \<Rightarrow> Some r)"
proof (induction rs arbitrary: s)
  case (Cons r rs)
  then show ?case by (auto simp: lookup_upsert find_snoc split: option.splits)
qed simp

lemma invar_upsert_all: "invar s \<Longrightarrow> invar (fold (\<lambda>r s. upsert s r) rs s)"
  by (induction rs arbitrary: s) (simp_all add: invar_upsert)

lemma upsert_last_wins: "lookup (upsert (upsert s r) r') k = lookup (upsert s r') k"
  if "key r = key r'"
  using that by (simp add: lookup_upsert)

end

definition distinct_names :: "ComponentRelease list \<Rightarrow> bool" where
  "distinct_names rs \<longleftrightarrow> distinct (map cr_name rs)"

lemma release_named_upsert:
  "release_named (appendOrUpdateRelease rs r) n =
     (if n = cr_name r then Some r else release_named rs n)"
  by (induction rs r rule: appendOrUpdateRelease.induct) (auto simp: release_named_def)

lemma names_upsert:
  "map cr_name (appendOrUpdateRelease rs r) =
     (if cr_name r \<in> cr_name ` set rs then map cr_name rs else map cr_name rs @ [cr_name r])"
  by (induction rs r rule: appendOrUpdateRelease.induct) auto

lemma distinct_names_upsert: "distinct_names rs \<Longrightarrow> distinct_names (appendOrUpdateRelease rs r)"
  by (auto simp: distinct_names_def names_upsert)

interpretation releases: keyed_store appendOrUpdateRelease release_named cr_name distinct_names
  by unfold_locales (simp_all add: release_named_upsert distinct_names_upsert)

section \<open>Properties\<close>

lemma upsert_idem:
  "appendOrUpdateRelease (appendOrUpdateRelease rs r) r = appendOrUpdateRelease rs r"
  by (induction rs r rule: appendOrUpdateRelease.induct) auto

text \<open>
  \<^verbatim>\<open>appendOrUpdateRelease\<close> keeps a list of releases keyed by name: a lookup under the entered
  name returns the entered release and every other lookup is unchanged; the order of the names
  is kept and a new name goes to the end; distinct names stay distinct; entering the same
  release again changes nothing.
\<close>

lemma appendOrUpdateRelease_spec:
  "(\<forall>n. release_named (appendOrUpdateRelease rs r) n =
      (if n = cr_name r then Some r else release_named rs n)) \<and>
   map cr_name (appendOrUpdateRelease rs r) =
     (if cr_name r \<in> cr_name ` set rs then map cr_name rs else map cr_name rs @ [cr_name r]) \<and>
   (distinct_names (appendOrUpdateRelease rs r) = distinct_names rs) \<and>
   appendOrUpdateRelease (appendOrUpdateRelease rs r) r = appendOrUpdateRelease rs r"
  by (auto simp: releases.lookup_upsert names_upsert upsert_idem distinct_names_def)

lemma Releases_set_releases [simp]:
  "Releases (Status (set_releases rs t)) = rs" "Spec (set_releases rs t) = Spec t"
  "set_releases rs (set_releases rs' t) = set_releases rs t"
  by (simp_all add: set_releases_def)

lemma fold_set_releases:
  "fold (\<lambda>r t. set_releases (appendOrUpdateRelease (Releases (Status t)) r) t) rs t =
     set_releases (fold (\<lambda>r s. appendOrUpdateRelease s r) rs (Releases (Status t))) t"
  by (induction rs arbitrary: t) (simp_all add: set_releases_def)

lemma find_version_named:
  "find_version rs = (case release_named rs platformReleaseName of None \<Rightarrow> [] | Some r \<Rightarrow> cr_version r)"
  by (induction rs) (auto simp: release_named_def)

text \<open>The releases an action merges, and the platform version it publishes.\<close>

definition component_releases ::
  "io_env \<Rightarrow> (string \<Rightarrow> componentMetadata result) \<Rightarrow> path \<Rightarrow> fnode \<Rightarrow> ComponentRelease list" where
  "component_releases io unmarshal mp fs =
     (case getComponentReleases io unmarshal mp fs of Inl e \<Rightarrow> [] | Inr rs \<Rightarrow> rs)"

definition published_version ::
  "(string \<Rightarrow> 'v result) \<Rightarrow> 'w typed_client \<Rightarrow> string \<Rightarrow> 'w \<Rightarrow> (string \<times> 'v) option" where
  "published_version parse C ns w =
     (case getPlatformVersion C ns w of
        Inl e \<Rightarrow> None
      | Inr pv \<Rightarrow> if pv = [] then None
                 else (case parse pv of Inl e \<Rightarrow> None | Inr v \<Rightarrow> Some (pv, v)))"

definition platform_release :: "string \<Rightarrow> ComponentRelease" where
  "platform_release pv = \<lparr>cr_name = platformReleaseName, cr_version = pv, cr_repoURL = []\<rparr>"

text \<open>The new release list: the merged component releases, then the published version.\<close>

definition new_releases ::
  "ComponentRelease list \<Rightarrow> ComponentRelease list \<Rightarrow> (string \<times> 'v) option \<Rightarrow> ComponentRelease list" where
  "new_releases old comps pub =
     (let merged = fold (\<lambda>r s. appendOrUpdateRelease s r) comps old in
      case pub of None \<Rightarrow> merged | Some (pv, v) \<Rightarrow> appendOrUpdateRelease merged (platform_release pv))"

lemma set_releases_same: "set_releases (Releases (Status t)) t = t"
  by (simp add: set_releases_def)

lemma updateReleases_unfold:
  "updateReleases io unmarshal parse C mp fs w rr rel =
     (let pub = published_version parse C (resolveNamespace (Instance rr)) w in
      (case getPlatformVersion C (resolveNamespace (Instance rr)) w of
         Inl e \<Rightarrow> Some (Wrap ''failed to get platform version'' e) | Inr pv \<Rightarrow> None,
       rr\<lparr>Instance := set_releases (new_releases (Releases (Status (Instance rr)))
            (component_releases io unmarshal mp fs) pub) (Instance rr)\<rparr>,
       case pub of None \<Rightarrow> rel | Some (pv, v) \<Rightarrow> \<lparr>rel_name = platformReleaseName, rel_version = v\<rparr>))"
  by (auto simp: updateReleases_def published_version_def new_releases_def component_releases_def
      platform_release_def Let_def fold_set_releases set_releases_same
      split: sum.splits)

lemma release_named_new:
  "release_named (new_releases old comps pub) n =
     (case pub of
        Some (pv, v) \<Rightarrow> if n = platformReleaseName then Some (platform_release pv)
          else (case find (\<lambda>r. cr_name r = n) (rev comps) of
                  None \<Rightarrow> release_named old n | Some r \<Rightarrow> Some r)
      | None \<Rightarrow> (case find (\<lambda>r. cr_name r = n) (rev comps) of
                  None \<Rightarrow> release_named old n | Some r \<Rightarrow> Some r))"
  by (auto simp: new_releases_def Let_def releases.lookup_upsert releases.lookup_upsert_all
      platform_release_def split: option.splits)

text \<open>
  C32: What \<^verbatim>\<open>updateReleases\<close> leaves in the status, on every path: under each name, the published
  platform version for the name \<^verbatim>\<open>platform\<close>, else the last release of that name in the component
  metadata, else the release that was there before; names that were distinct stay distinct, and
  apart from the release list the request is unchanged.
\<close>

theorem updateReleases_status:
  "let (r, rr', rel') = updateReleases io unmarshal parse C mp fs w rr rel;
       old = Releases (Status (Instance rr)); new = Releases (Status (Instance rr'));
       comps = component_releases io unmarshal mp fs;
       pub = published_version parse C (resolveNamespace (Instance rr)) w
   in (\<forall>n. release_named new n =
         (if pub \<noteq> None \<and> n = platformReleaseName then Some (platform_release (fst (the pub)))
          else (case find (\<lambda>r. cr_name r = n) (rev comps) of
                  None \<Rightarrow> release_named old n | Some r \<Rightarrow> Some r))) \<and>
      (distinct_names old \<longrightarrow> distinct_names new) \<and>
      rr' = rr\<lparr>Instance := set_releases new (Instance rr)\<rparr>"
proof -
  let ?pub = "published_version parse C (resolveNamespace (Instance rr)) w"
  have "distinct_names old \<Longrightarrow> distinct_names (new_releases old comps ?pub)" for old comps
    by (auto simp: new_releases_def Let_def releases.invar_upsert releases.invar_upsert_all
        split: option.splits)
  then show ?thesis
    by (auto simp: updateReleases_unfold Let_def release_named_new split: option.splits)
qed

definition sample_metadata :: componentMetadata where
  "sample_metadata = \<lparr>meta_releases =
     [\<lparr>meta_name = ''Kubeflow Trainer'', meta_version = ''2.2.0'', meta_repoURL = ''github''\<rparr>]\<rparr>"

definition sample_spec :: TrainerSpec where
  "sample_spec = \<lparr>AppNamespace = [], FeatureGates = [], Controllers = []\<rparr>"

definition sample_request :: request where
  "sample_request = \<lparr>Instance = \<lparr>tr_name = TrainerInstanceName, Spec = sample_spec,
       Status = \<lparr>status_common = \<lparr>Phase = [], Conditions = []\<rparr>,
         Releases = [\<lparr>cr_name = ''Kubeflow Trainer'', cr_version = ''2.1.0'', cr_repoURL = []\<rparr>]\<rparr>\<rparr>,
     Resources = [], Generated = False, marks = []\<rparr>"

definition sample_client :: "unit typed_client" where
  "sample_client = \<lparr>get_namespace = (\<lambda>n w. Inl (goerr.Status NotFound n)),
     create_namespace = (\<lambda>n w. (None, w)),
     get_configmap = (\<lambda>name ns w. Inr [(platformVersionKey, ''3.0'')]),
     delete_object = (\<lambda>k ns n w. (None, w))\<rparr>"

definition sample_metadata_fs :: fnode where
  "sample_metadata_fs = Dir [(''component_metadata.yaml'', File ''releases'')]"

lemma sample_release_setup:
  "component_releases no_faults (\<lambda>d. Inr sample_metadata) [] sample_metadata_fs =
     [\<lparr>cr_name = ''Kubeflow Trainer'', cr_version = ''2.2.0'', cr_repoURL = ''github''\<rparr>]"
  "published_version (\<lambda>v. Inr v) sample_client ns () = Some (''3.0'', ''3.0'')"
  by (simp_all add: component_releases_def getComponentReleases_def read_metadata_def
      metadata_path_def os_read_file_def os_open_def os_read_def sample_metadata_fs_def sample_metadata_def
      published_version_def getPlatformVersion_def sample_client_def map_index_def
      platformVersionKey_def)

theorem updateReleases_status_witness:
  "distinct_names (Releases (Status (Instance sample_request))) \<and>
   distinct_names (Releases (Status (Instance (fst (snd
     (updateReleases no_faults (\<lambda>d. Inr sample_metadata) (\<lambda>v. Inr v) sample_client []
        sample_metadata_fs () sample_request \<lparr>rel_name = [], rel_version = []\<rparr>))))))"
proof -
  have "distinct_names (Releases (Status (Instance sample_request)))"
    by (simp add: distinct_names_def sample_request_def)
  then show ?thesis
    using updateReleases_status [of no_faults "\<lambda>d. Inr sample_metadata" "\<lambda>v. Inr v" sample_client
        "[]" sample_metadata_fs "()" sample_request "\<lparr>rel_name = [], rel_version = []\<rparr>"]
    by (simp add: Let_def split_beta)
qed

text \<open>
  C33: The platform version on every path of \<^verbatim>\<open>updateReleases\<close>. The action fails exactly when the
  platform ConfigMap cannot be read for another reason than its absence, and then the
  reconciler's release is untouched. A missing ConfigMap, an absent or empty version and a
  version that does not parse are no errors and leave the reconciler's release alone; a version
  that parses is the one \<^verbatim>\<open>currentPlatformVersion\<close> reports afterwards, and the reconciler's release
  becomes the platform at that version.
\<close>

theorem updateReleases_platform_version:
  "let (r, rr', rel') = updateReleases io unmarshal parse C mp fs w rr rel
   in (case get_configmap C platformConfigMapName (resolveNamespace (Instance rr)) w of
         Inl e \<Rightarrow> rel' = rel \<and> (if is_not_found e then r = None
            else r = Some (Wrap ''failed to get platform version''
                        (Wrap ''failed to get platform config ConfigMap'' e)))
       | Inr data \<Rightarrow> r = None \<and>
           (case (map_index data platformVersionKey, parse (map_index data platformVersionKey)) of
              (pv # pvs, Inr v) \<Rightarrow> currentPlatformVersion (Instance rr') = pv # pvs \<and>
                 rel' = \<lparr>rel_name = platformReleaseName, rel_version = v\<rparr>
            | _ \<Rightarrow> rel' = rel))"
  by (auto simp: updateReleases_unfold Let_def published_version_def getPlatformVersion_def
      currentPlatformVersion_def find_version_named release_named_new platform_release_def
      split: sum.splits list.splits)

section \<open>Repeated updates\<close>

lemma releases_eqI:
  assumes "distinct_names rs" and "map cr_name rs = map cr_name rs'"
    and "\<And>n. release_named rs n = release_named rs' n"
  shows "rs = rs'"
  using assms
proof (induction rs arbitrary: rs')
  case (Cons r rs)
  from Cons.prems(2) obtain r' rs1 where rs': "rs' = r' # rs1" and n: "cr_name r = cr_name r'"
      and ns: "map cr_name rs = map cr_name rs1"
    by (cases rs') auto
  from Cons.prems(3) [of "cr_name r"] rs' n have "r = r'" by (simp add: release_named_def)
  moreover have "release_named rs m = release_named rs1 m" for m
  proof (cases "m = cr_name r")
    case True
    have none: "release_named xs m = None" if "m \<notin> set (map cr_name xs)" for xs
      using that by (auto simp: release_named_def find_None_iff)
    from Cons.prems(1) True have "m \<notin> set (map cr_name rs)" by (simp add: distinct_names_def)
    moreover from this have "m \<notin> set (map cr_name rs1)" unfolding ns .
    ultimately show ?thesis by (metis none)
  next
    case False
    with Cons.prems(3) [of m] rs' n show ?thesis by (simp add: release_named_def)
  qed
  with Cons.IH [of rs1] Cons.prems(1) ns have "rs = rs1" by (simp add: distinct_names_def)
  with \<open>r = r'\<close> rs' show ?case by simp
qed simp

lemma names_merge_known:
  "cr_name ` set comps \<subseteq> cr_name ` set rs \<Longrightarrow>
     map cr_name (fold (\<lambda>r s. appendOrUpdateRelease s r) comps rs) = map cr_name rs"
proof (induction comps arbitrary: rs)
  case (Cons r comps)
  have "map cr_name (appendOrUpdateRelease rs r) = map cr_name rs"
    using Cons.prems by (auto simp: names_upsert)
  moreover from this have "cr_name ` set (appendOrUpdateRelease rs r) = cr_name ` set rs"
    by (metis set_map)
  ultimately show ?case using Cons.IH [of "appendOrUpdateRelease rs r"] Cons.prems by simp
qed simp

lemma names_merge_superset:
  "cr_name ` set comps \<union> cr_name ` set rs \<subseteq>
     cr_name ` set (fold (\<lambda>r s. appendOrUpdateRelease s r) comps rs)"
proof (induction comps arbitrary: rs)
  case (Cons r comps)
  have "cr_name ` set (appendOrUpdateRelease rs r) = insert (cr_name r) (cr_name ` set rs)"
    using arg_cong [OF names_upsert [of rs r], of set] by auto
  with Cons.IH [of "appendOrUpdateRelease rs r"] show ?case by auto
qed simp

lemma distinct_names_new: "distinct_names old \<Longrightarrow> distinct_names (new_releases old comps pub)"
  by (auto simp: new_releases_def Let_def releases.invar_upsert releases.invar_upsert_all
      split: option.splits)

lemma names_new_superset:
  "cr_name ` set comps \<subseteq> cr_name ` set (new_releases old comps pub)"
  "pub \<noteq> None \<Longrightarrow> platformReleaseName \<in> cr_name ` set (new_releases old comps pub)"
proof -
  let ?m = "fold (\<lambda>r s. appendOrUpdateRelease s r) comps old"
  have up: "cr_name ` set (appendOrUpdateRelease rs r) = insert (cr_name r) (cr_name ` set rs)" for rs r
    using arg_cong [OF names_upsert [of rs r], of set] by auto
  show "cr_name ` set comps \<subseteq> cr_name ` set (new_releases old comps pub)"
    using names_merge_superset [of comps old]
    by (auto simp: new_releases_def Let_def up split: option.splits)
  show "platformReleaseName \<in> cr_name ` set (new_releases old comps pub)" if "pub \<noteq> None"
    using that by (auto simp: new_releases_def Let_def up platform_release_def split: option.splits)
qed

lemma new_releases_idem:
  assumes "distinct_names old"
  shows "new_releases (new_releases old comps pub) comps pub = new_releases old comps pub"
    (is "?twice = ?once")
proof (rule releases_eqI)
  show "distinct_names ?twice" using assms by (simp add: distinct_names_new)
  let ?m = "fold (\<lambda>r s. appendOrUpdateRelease s r) comps ?once"
  have m: "map cr_name ?m = map cr_name ?once"
    using names_merge_known [of comps ?once] names_new_superset(1) by blast
  then have "cr_name ` set ?m = cr_name ` set ?once" by (metis set_map)
  moreover have "?twice = (case pub of None \<Rightarrow> ?m | Some (pv, v) \<Rightarrow> appendOrUpdateRelease ?m (platform_release pv))"
    unfolding new_releases_def [of ?once] Let_def ..
  ultimately show "map cr_name ?twice = map cr_name ?once"
    using m names_new_superset(2) [of pub old comps]
    by (cases pub) (simp_all add: names_upsert platform_release_def split_beta)
  show "release_named ?twice n = release_named ?once n" for n
    by (auto simp: release_named_new split: option.splits)
qed

text \<open>
  \<^verbatim>\<open>updateReleases\<close> converges: run again on the request it left, with the cluster and the
  manifests unchanged, it reports the same outcome and changes neither the request nor the
  reconciler's release, so that an idle cluster sees no further status writes.
\<close>

lemma updateReleases_idempotent:
  assumes "distinct_names (Releases (Status (Instance rr)))"
    and "updateReleases io unmarshal parse C mp fs w rr rel = (r, rr', rel')"
  shows "updateReleases io unmarshal parse C mp fs w rr' rel' = (r, rr', rel')"
proof -
  have "resolveNamespace (set_releases rs t) = resolveNamespace t" for rs t
    by (simp add: resolveNamespace_def)
  with assms show ?thesis
    by (auto simp: updateReleases_unfold Let_def new_releases_idem split: option.splits)
qed

lemma updateReleases_idempotent_witness:
  "\<exists>r rr' rel'. updateReleases no_faults (\<lambda>d. Inr sample_metadata) (\<lambda>v. Inr v) sample_client []
      sample_metadata_fs () sample_request \<lparr>rel_name = [], rel_version = []\<rparr> = (r, rr', rel') \<and>
    updateReleases no_faults (\<lambda>d. Inr sample_metadata) (\<lambda>v. Inr v) sample_client []
      sample_metadata_fs () rr' rel' = (r, rr', rel') \<and> rr' \<noteq> sample_request"
proof -
  have "distinct_names (Releases (Status (Instance sample_request)))"
    by (simp add: distinct_names_def sample_request_def)
  moreover obtain r rr' rel' where u: "updateReleases no_faults (\<lambda>d. Inr sample_metadata)
      (\<lambda>v. Inr v) sample_client [] sample_metadata_fs () sample_request
      \<lparr>rel_name = [], rel_version = []\<rparr> = (r, rr', rel')"
    by (metis prod_cases3)
  ultimately have "updateReleases no_faults (\<lambda>d. Inr sample_metadata) (\<lambda>v. Inr v) sample_client []
      sample_metadata_fs () rr' rel' = (r, rr', rel')"
    by (rule updateReleases_idempotent)
  moreover have "rr' \<noteq> sample_request"
    using u by (auto simp: updateReleases_unfold Let_def sample_release_setup new_releases_def
        sample_request_def set_releases_def platform_release_def platformReleaseName_def)
  ultimately show ?thesis using u by blast
qed

text \<open>
  The bootstrap release and the release list read the same metadata: both fail alike when the
  file cannot be read or decoded, and otherwise the bootstrap release is the first listed
  release with its version parsed, an empty list or an unparsable version being an error.
\<close>

lemma readBootstrapRelease_first:
  "case getComponentReleases io unmarshal mp fs of
     Inl e \<Rightarrow> readBootstrapRelease io unmarshal parse mp fs = Inl e
   | Inr [] \<Rightarrow> readBootstrapRelease io unmarshal parse mp fs =
       Inl (Plain ''no releases found in component metadata'')
   | Inr (r # rs) \<Rightarrow>
       (case parse (cr_version r) of
          Inl e \<Rightarrow> isl (readBootstrapRelease io unmarshal parse mp fs)
        | Inr v \<Rightarrow> readBootstrapRelease io unmarshal parse mp fs =
            Inr \<lparr>rel_name = cr_name r, rel_version = v\<rparr>)"
  by (auto simp: getComponentReleases_def readBootstrapRelease_def split: sum.splits list.splits)

end
