(* ===== verification/Runtimes.thy ===== *)
theory Runtimes
  imports Kube_Api
begin

text \<open>
  The training runtimes (internal/controller/trainer_controller.go): removal of the finalizer
  earlier Trainer versions left on them (\<^verbatim>\<open>removeRuntimeFinalizers\<close>) and their deletion
  (\<^verbatim>\<open>cleanupTrainerResources\<close>). The dynamic client is a parameter; the theorems name what the API
  server promises of a list, an update and a delete.
\<close>

section \<open>The operations\<close>

definition trainerKubeflowGroup :: string where "trainerKubeflowGroup = ''trainer.kubeflow.org''"
definition trainerKubeflowVersion :: string where "trainerKubeflowVersion = ''v1alpha1''"
definition clusterTrainingRuntime :: string where "clusterTrainingRuntime = ''ClusterTrainingRuntime''"
definition trainingRuntime :: string where "trainingRuntime = ''TrainingRuntime''"
definition clusterTrainingRuntimeResource :: string where
  "clusterTrainingRuntimeResource = ''clustertrainingruntimes''"
definition trainingRuntimeResource :: string where "trainingRuntimeResource = ''trainingruntimes''"

definition clusterTrainingRuntimeGVK :: gvk where
  "clusterTrainingRuntimeGVK = \<lparr>gvk_group = trainerKubeflowGroup,
     gvk_version = trainerKubeflowVersion, gvk_kind = ''ClusterTrainingRuntime''\<rparr>"

definition trainingRuntimeGVK :: gvk where
  "trainingRuntimeGVK = \<lparr>gvk_group = trainerKubeflowGroup,
     gvk_version = trainerKubeflowVersion, gvk_kind = trainingRuntime\<rparr>"

definition runtime_gvrs :: "gvr list" where
  "runtime_gvrs =
     [\<lparr>gvr_group = trainerKubeflowGroup, gvr_version = trainerKubeflowVersion,
       gvr_resource = clusterTrainingRuntimeResource\<rparr>,
      \<lparr>gvr_group = trainerKubeflowGroup, gvr_version = trainerKubeflowVersion,
       gvr_resource = trainingRuntimeResource\<rparr>]"

definition legacyTrainerFinalizer :: string where
  "legacyTrainerFinalizer = ''trainer.kubeflow.org/resource-in-use''"

fun filterFinalizer :: "string list \<Rightarrow> string \<Rightarrow> string list" where
  "filterFinalizer [] toRemove = []"
| "filterFinalizer (f # finalizers) toRemove =
     (if f \<noteq> toRemove then f # filterFinalizer finalizers toRemove
      else filterFinalizer finalizers toRemove)"

text \<open>The loop over the listed objects of one resource.\<close>

fun strip_items ::
  "'w dynamic_client \<Rightarrow> gvr \<Rightarrow> unstructured list \<Rightarrow> 'w \<Rightarrow> goerr option \<times> 'w" where
  "strip_items D g [] w = (None, w)"
| "strip_items D g (item # items) w =
     (let retained = filterFinalizer (u_finalizers item) legacyTrainerFinalizer in
      if length retained = length (u_finalizers item) then strip_items D g items w
      else case dyn_update D g (u_namespace item) (item\<lparr>u_finalizers := retained\<rparr>) w of
             (Some e, w') \<Rightarrow>
               (Some (Wrap (''removing finalizer from '' @ gvr_resource g @ '' '' @
                  u_namespace item @ ''/'' @ u_name item) e), w')
           | (None, w') \<Rightarrow> strip_items D g items w')"

fun strip_resources :: "'w dynamic_client \<Rightarrow> gvr list \<Rightarrow> 'w \<Rightarrow> goerr option \<times> 'w" where
  "strip_resources D [] w = (None, w)"
| "strip_resources D (g # gs) w =
     (case dyn_list D g part_of_selector w of
        Inl e \<Rightarrow>
          (if is_not_found e then strip_resources D gs w
           else (Some (Wrap (''listing '' @ gvr_resource g @ '' for finalizer removal'') e), w))
      | Inr items \<Rightarrow>
          (case strip_items D g items w of
             (Some e, w') \<Rightarrow> (Some e, w')
           | (None, w') \<Rightarrow> strip_resources D gs w'))"

definition removeRuntimeFinalizers :: "'w dynamic_client \<Rightarrow> 'w \<Rightarrow> goerr option \<times> 'w" where
  "removeRuntimeFinalizers D w = strip_resources D runtime_gvrs w"

fun delete_items :: "'w dynamic_client \<Rightarrow> gvr \<Rightarrow> unstructured list \<Rightarrow> 'w \<Rightarrow> 'w" where
  "delete_items D g [] w = w"
| "delete_items D g (item # items) w =
     (if u_deleting item then delete_items D g items w
      else delete_items D g items (snd (dyn_delete D g (u_namespace item) (u_name item) w)))"

fun delete_resources :: "'w dynamic_client \<Rightarrow> gvr list \<Rightarrow> 'w \<Rightarrow> 'w" where
  "delete_resources D [] w = w"
| "delete_resources D (g # gs) w =
     (case dyn_list D g part_of_selector w of
        Inl e \<Rightarrow> delete_resources D gs w
      | Inr items \<Rightarrow> delete_resources D gs (delete_items D g items w))"

definition cleanupTrainerResources :: "'w dynamic_client \<Rightarrow> 'w \<Rightarrow> 'w" where
  "cleanupTrainerResources D w = delete_resources D runtime_gvrs w"

section \<open>What the API server promises\<close>

text \<open>
  \<open>content w g\<close> is the list of stored objects of resource \<open>g\<close>, \<^const>\<open>None\<close> when the API is not
  installed. An update stores the object, a delete marks it; an object marked for deletion
  disappears once it has no finalizer. A call that reports an error may or may not have been
  carried out. These laws are for one client on its own and leave the resource versions out; with
  several clients, where they matter, Runtime_Interleaving has the laws of the server.
\<close>

type_synonym contents = "gvr \<Rightarrow> unstructured list option"

definition obj_key :: "unstructured \<Rightarrow> string \<times> string" where
  "obj_key o1 = (u_namespace o1, u_name o1)"

definition labelled :: "unstructured \<Rightarrow> bool" where
  "labelled o1 \<longleftrightarrow> map_of (u_labels o1) PlatformPartOf = Some trainerPartOf"

definition stored :: "unstructured \<Rightarrow> unstructured option" where
  "stored o1 = (if u_deleting o1 \<and> u_finalizers o1 = [] then None else Some o1)"

definition change_at ::
  "gvr \<Rightarrow> string \<times> string \<Rightarrow> (unstructured \<Rightarrow> unstructured option) \<Rightarrow> contents \<Rightarrow> contents" where
  "change_at g k f c =
     c(g := map_option (List.map_filter (\<lambda>x. if obj_key x = k then f x else Some x)) (c g))"

definition dynamic_laws :: "('w \<Rightarrow> contents) \<Rightarrow> 'w dynamic_client \<Rightarrow> bool" where
  "dynamic_laws content D \<longleftrightarrow>
     (\<forall>g w xs. dyn_list D g part_of_selector w = Inr xs \<longrightarrow>
        (\<exists>os. content w g = Some os \<and> xs = filter labelled os)) \<and>
     (\<forall>g w e. dyn_list D g part_of_selector w = Inl e \<and> is_not_found e \<longrightarrow> content w g = None) \<and>
     (\<forall>g ns ob w r w'. dyn_update D g ns ob w = (r, w') \<longrightarrow>
        content w' = change_at g (ns, u_name ob) (\<lambda>x. stored ob) (content w) \<or>
        r \<noteq> None \<and> content w' = content w) \<and>
     (\<forall>g ns n w r w'. dyn_delete D g ns n w = (r, w') \<longrightarrow>
        content w' = change_at g (ns, n) (\<lambda>x. stored (x\<lparr>u_deleting := True\<rparr>)) (content w) \<or>
        r \<noteq> None \<and> content w' = content w)"

text \<open>The server answers: a call on what exists succeeds, and a missing API is reported as such.\<close>

definition dynamic_available :: "('w \<Rightarrow> contents) \<Rightarrow> 'w dynamic_client \<Rightarrow> bool" where
  "dynamic_available content D \<longleftrightarrow>
     (\<forall>g w. case dyn_list D g part_of_selector w of
        Inl e \<Rightarrow> is_not_found e | Inr xs \<Rightarrow> True) \<and>
     (\<forall>g w. content w g \<noteq> None \<longrightarrow> \<not> isl (dyn_list D g part_of_selector w)) \<and>
     (\<forall>g ob w os. content w g = Some os \<and> obj_key ob \<in> obj_key ` set os \<longrightarrow>
        fst (dyn_update D g (u_namespace ob) ob w) = None) \<and>
     (\<forall>g ob w os. content w g = Some os \<and> obj_key ob \<in> obj_key ` set os \<longrightarrow>
        fst (dyn_delete D g (u_namespace ob) (u_name ob) w) = None)"

definition distinct_objects :: "contents \<Rightarrow> bool" where
  "distinct_objects c \<longleftrightarrow> (\<forall>g os. c g = Some os \<longrightarrow> distinct (map obj_key os))"

text \<open>An in-memory server with these properties.\<close>

definition mem_client :: "contents dynamic_client" where
  "mem_client =
     \<lparr>dyn_list = (\<lambda>g sel c. case c g of
        None \<Rightarrow> Inl (Status NotFound ''the server could not find the requested resource'')
      | Some os \<Rightarrow> Inr (filter labelled os)),
      dyn_update = (\<lambda>g ns ob c. case c g of
        None \<Rightarrow> (Some (Status NotFound ''not found''), c)
      | Some os \<Rightarrow> if (ns, u_name ob) \<in> obj_key ` set os
                   then (None, change_at g (ns, u_name ob) (\<lambda>x. stored ob) c)
                   else (Some (Status NotFound ''not found''), c)),
      dyn_delete = (\<lambda>g ns n c. case c g of
        None \<Rightarrow> (Some (Status NotFound ''not found''), c)
      | Some os \<Rightarrow> if (ns, n) \<in> obj_key ` set os
                   then (None, change_at g (ns, n) (\<lambda>x. stored (x\<lparr>u_deleting := True\<rparr>)) c)
                   else (Some (Status NotFound ''not found''), c))\<rparr>"

lemma mem_client_laws: "dynamic_laws id mem_client"
  by (auto simp: dynamic_laws_def mem_client_def split: option.splits if_splits)

lemma mem_client_available: "dynamic_available id mem_client"
  by (auto simp: dynamic_available_def mem_client_def obj_key_def image_iff split: option.splits)

section \<open>Sweeps over a snapshot\<close>

text \<open>
  Both loops go through a snapshot of the stored objects and change one stored object per
  iteration, found by its key. As long as a change keeps the key, the order of the changes and
  the age of the snapshot do not matter: the result is one simultaneous change of the selected
  objects.
\<close>

locale snapshot_sweep =
  fixes key :: "'o \<Rightarrow> 'k"
    and change :: "'o \<Rightarrow> 'o \<Rightarrow> 'o option"
  assumes key_change: "change i x = Some y \<Longrightarrow> key x = key i \<Longrightarrow> key y = key i"
begin

definition sweep_step :: "'o \<Rightarrow> 'o list \<Rightarrow> 'o list" where
  "sweep_step i = List.map_filter (\<lambda>x. if key x = key i then change i x else Some x)"

lemma fold_sweep:
  "distinct (map key is) \<Longrightarrow> fold sweep_step is os =
     List.map_filter (\<lambda>x. case find (\<lambda>i. key i = key x) is of None \<Rightarrow> Some x | Some i \<Rightarrow> change i x) os"
proof (induction "is" arbitrary: os)
  case Nil
  show ?case by (induction os) (simp_all add: map_filter_simps)
next
  case (Cons i "is")
  have none: "find (\<lambda>j. key j = key i) is = None"
    using Cons.prems by (simp add: find_None_iff) (metis image_eqI)
  have "fold sweep_step (i # is) os = List.map_filter
      (\<lambda>x. case find (\<lambda>j. key j = key x) is of None \<Rightarrow> Some x | Some j \<Rightarrow> change j x) (sweep_step i os)"
    using Cons by simp
  also have "\<dots> = List.map_filter
      (\<lambda>x. case find (\<lambda>j. key j = key x) (i # is) of None \<Rightarrow> Some x | Some j \<Rightarrow> change j x) os"
  proof (induction os)
    case (Cons x os)
    then show ?case
      using none key_change [of i x]
      by (auto simp: sweep_step_def map_filter_simps split: option.splits)
  qed (simp add: sweep_step_def map_filter_simps)
  finally show ?case .
qed

lemma find_selected:
  assumes "distinct (map key os)" and "set is \<subseteq> set os" and "x \<in> set os"
  shows "find (\<lambda>i. key i = key x) is = (if x \<in> set is then Some x else None)"
proof -
  have same: "i = x" if "i \<in> set is" "key i = key x" for i
    using that assms by (metis distinct_map inj_onD subsetD)
  show ?thesis
  proof (cases "find (\<lambda>i. key i = key x) is")
    case None
    then show ?thesis by (auto simp: find_None_iff)
  next
    case (Some i)
    then have "i \<in> set is" and "key i = key x" by (auto simp: find_Some_iff)
    with same Some show ?thesis by auto
  qed
qed

lemma fold_sweep_selected:
  assumes "distinct (map key os)" and "subseq is os"
  shows "fold sweep_step is os =
    List.map_filter (\<lambda>x. if x \<in> set is then change x x else Some x) os"
proof -
  have "distinct (map key is)"
    using assms(2,1) by (rule subseq_distinct_map)
  moreover have sub: "set is \<subseteq> set os" using assms(2) by (auto dest: list_emb_set)
  moreover have "List.map_filter (\<lambda>x. case find (\<lambda>i. key i = key x) is of
      None \<Rightarrow> Some x | Some i \<Rightarrow> change i x) os =
      List.map_filter (\<lambda>x. if x \<in> set is then change x x else Some x) os"
    using find_selected [OF assms(1) sub]
    by (intro map_filter_cong refl) (simp split: option.splits)
  ultimately show ?thesis by (simp add: fold_sweep)
qed

end

definition has_legacy :: "unstructured \<Rightarrow> bool" where
  "has_legacy o1 \<longleftrightarrow> legacyTrainerFinalizer \<in> set (u_finalizers o1)"

text \<open>What becomes of an object that is stripped, and of one that is deleted.\<close>

definition stripped :: "unstructured \<Rightarrow> unstructured option" where
  "stripped o1 = stored (o1\<lparr>u_finalizers := [f \<leftarrow> u_finalizers o1. f \<noteq> legacyTrainerFinalizer]\<rparr>)"

definition deleted :: "unstructured \<Rightarrow> unstructured option" where
  "deleted o1 = stored (o1\<lparr>u_deleting := True\<rparr>)"

lemma filterFinalizer_filter: "filterFinalizer fs t = [f \<leftarrow> fs. f \<noteq> t]"
  by (induction fs) simp_all

lemma filterFinalizer_length_iff: "length (filterFinalizer fs t) = length fs \<longleftrightarrow> t \<notin> set fs"
proof (cases "t \<in> set fs")
  case True
  then show ?thesis using length_filter_less [of t fs "\<lambda>f. f \<noteq> t"] by (simp add: filterFinalizer_filter)
qed (induction fs, auto)

lemma key_stored: "stored o1 = Some y \<Longrightarrow> y = o1"
  by (simp add: stored_def split: if_splits)

lemma obj_key_update [simp]:
  "obj_key (o1\<lparr>u_finalizers := fs\<rparr>) = obj_key o1" "obj_key (o1\<lparr>u_deleting := b\<rparr>) = obj_key o1"
  by (simp_all add: obj_key_def)

lemma key_stripped: "stripped x = Some y \<Longrightarrow> obj_key y = obj_key x"
  by (auto simp: stripped_def dest: key_stored)

lemma key_deleted: "deleted x = Some y \<Longrightarrow> obj_key y = obj_key x"
  by (auto simp: deleted_def dest: key_stored)

interpretation strip: snapshot_sweep obj_key "\<lambda>i x. stripped i"
  by unfold_locales (rule key_stripped)

interpretation removal: snapshot_sweep obj_key "\<lambda>i x. deleted x"
  by unfold_locales (simp add: key_deleted)

section \<open>The two loops as sweeps\<close>

lemma change_at_strip:
  "c g = Some os \<Longrightarrow> change_at g (obj_key i) (\<lambda>x. stripped i) c = c(g \<mapsto> strip.sweep_step i os)"
  by (simp add: change_at_def strip.sweep_step_def)

lemma change_at_removal:
  "c g = Some os \<Longrightarrow> change_at g (obj_key i) deleted c = c(g \<mapsto> removal.sweep_step i os)"
  by (simp add: change_at_def removal.sweep_step_def)

lemma update_law:
  assumes "dynamic_laws content D" and "content w g = Some os"
    and "dyn_update D g (u_namespace i)
      (i\<lparr>u_finalizers := filterFinalizer (u_finalizers i) legacyTrainerFinalizer\<rparr>) w = (r, w')"
  shows "content w' = (content w)(g \<mapsto> strip.sweep_step i os) \<or> r \<noteq> None \<and> content w' = content w"
proof -
  let ?i = "i\<lparr>u_finalizers := filterFinalizer (u_finalizers i) legacyTrainerFinalizer\<rparr>"
  have "content w' = change_at g (u_namespace i, u_name ?i) (\<lambda>x. stored ?i) (content w) \<or>
      r \<noteq> None \<and> content w' = content w"
    using assms(1,3) unfolding dynamic_laws_def by blast
  moreover have "(u_namespace i, u_name ?i) = obj_key i" and "stored ?i = stripped i"
    by (simp_all add: obj_key_def stripped_def filterFinalizer_filter)
  ultimately show ?thesis using change_at_strip [of "content w" g os i] assms(2) by simp
qed

lemma delete_law:
  assumes "dynamic_laws content D" and "content w g = Some os"
    and "dyn_delete D g (u_namespace i) (u_name i) w = (r, w')"
  shows "content w' = (content w)(g \<mapsto> removal.sweep_step i os) \<or> r \<noteq> None \<and> content w' = content w"
proof -
  have "content w' = change_at g (u_namespace i, u_name i) (\<lambda>x. stored (x\<lparr>u_deleting := True\<rparr>)) (content w) \<or>
      r \<noteq> None \<and> content w' = content w"
    using assms(1,3) unfolding dynamic_laws_def by blast
  moreover have "(\<lambda>x. stored (x\<lparr>u_deleting := True\<rparr>)) = deleted"
    by (simp add: deleted_def fun_eq_iff)
  ultimately show ?thesis
    using change_at_removal [of "content w" g os i] assms(2) by (simp add: obj_key_def)
qed

lemma strip_step_content:
  assumes "dynamic_laws content D" and "content w g = Some os" and "has_legacy i"
    and "strip_items D g (i # items) w = (r, w')"
  obtains (goes_on) w1 where "content w1 = (content w)(g \<mapsto> strip.sweep_step i os)"
      "strip_items D g items w1 = (r, w')"
    | (stops) applied where "r \<noteq> None" "subseq applied [i]"
      "content w' = (content w)(g \<mapsto> fold strip.sweep_step applied os)"
proof -
  let ?i = "i\<lparr>u_finalizers := filterFinalizer (u_finalizers i) legacyTrainerFinalizer\<rparr>"
  obtain r1 w1 where u: "dyn_update D g (u_namespace i) ?i w = (r1, w1)" by fastforce
  note law = update_law [OF assms(1,2) u]
  show ?thesis
  proof (cases r1)
    case None
    with assms(3,4) u have "strip_items D g items w1 = (r, w')"
      by (simp add: filterFinalizer_length_iff has_legacy_def)
    with law None goes_on show ?thesis by simp
  next
    case (Some e)
    with assms(3,4) u have r: "r \<noteq> None" and "w' = w1"
      by (auto simp: filterFinalizer_length_iff has_legacy_def)
    with law consider "content w' = (content w)(g \<mapsto> strip.sweep_step i os)"
      | "content w' = content w" by blast
    then show ?thesis
      by cases (use r assms(2) stops [of "[i]"] stops [of "[]"] in \<open>simp_all add: fun_upd_idem\<close>)
  qed
qed

lemma strip_items_content:
  assumes "dynamic_laws content D"
  shows "content w g = Some os \<Longrightarrow> strip_items D g items w = (r, w') \<Longrightarrow>
    \<exists>applied. subseq applied (filter has_legacy items) \<and>
      content w' = (content w)(g \<mapsto> fold strip.sweep_step applied os) \<and>
      (r = None \<longrightarrow> applied = filter has_legacy items)"
proof (induction items arbitrary: w os)
  case Nil
  then show ?case by (auto simp: fun_eq_iff)
next
  case (Cons i items)
  show ?case
  proof (cases "has_legacy i")
    case False
    then have "strip_items D g items w = (r, w')"
      using Cons.prems(2) by (simp add: filterFinalizer_length_iff has_legacy_def)
    with Cons.IH [OF Cons.prems(1)] False show ?thesis by simp
  next
    case True
    from assms Cons.prems(1) True Cons.prems(2) show ?thesis
    proof (cases rule: strip_step_content)
      case (goes_on w1)
      then have "content w1 g = Some (strip.sweep_step i os)" by simp
      from Cons.IH [OF this goes_on(2)] obtain applied where
        a: "subseq applied (filter has_legacy items)"
        "content w' = (content w1)(g \<mapsto> fold strip.sweep_step applied (strip.sweep_step i os))"
        "r = None \<longrightarrow> applied = filter has_legacy items" by blast
      show ?thesis
        by (rule exI [of _ "i # applied"]) (use a goes_on(1) True in simp)
    next
      case (stops applied)
      have "subseq applied (filter has_legacy (i # items))"
        using stops(2) True by (auto elim: list_emb.cases)
      with stops show ?thesis by blast
    qed
  qed
qed

text \<open>A server that answers carries the delete out, or there was nothing to delete.\<close>

lemma delete_available:
  assumes "dynamic_laws content D" and "dynamic_available content D" and "content w g = Some os"
    and "dyn_delete D g (u_namespace i) (u_name i) w = (r, w')"
  shows "content w' = (content w)(g \<mapsto> removal.sweep_step i os)"
proof (cases "obj_key i \<in> obj_key ` set os")
  case True
  with assms(2-4) have "r = None" unfolding dynamic_available_def by (metis fst_conv)
  with delete_law [OF assms(1,3,4)] show ?thesis by simp
next
  case False
  then have "(if obj_key x = obj_key i then deleted x else Some x) = Some x" if "x \<in> set os" for x
    using that by (metis image_eqI)
  then have "removal.sweep_step i os = os"
    unfolding removal.sweep_step_def by (simp cong: map_filter_cong)
  with delete_law [OF assms(1,3,4)] assms(3) show ?thesis by (auto simp: fun_upd_idem)
qed

lemma delete_items_content:
  assumes "dynamic_laws content D"
  shows "content w g = Some os \<Longrightarrow>
    \<exists>applied. subseq applied [i \<leftarrow> items. \<not> u_deleting i] \<and>
      content (delete_items D g items w) = (content w)(g \<mapsto> fold removal.sweep_step applied os) \<and>
      (dynamic_available content D \<longrightarrow> applied = [i \<leftarrow> items. \<not> u_deleting i])"
proof (induction items arbitrary: w os)
  case Nil
  then show ?case by (intro exI [of _ "[]"]) (simp add: fun_upd_idem)
next
  case (Cons i items)
  obtain r1 w1 where u: "dyn_delete D g (u_namespace i) (u_name i) w = (r1, w1)" by fastforce
  note law = delete_law [OF assms Cons.prems u]
  have avail: "content w1 = (content w)(g \<mapsto> removal.sweep_step i os)" if "dynamic_available content D"
    using delete_available [OF assms that Cons.prems u] .
  show ?case
  proof (cases "u_deleting i")
    case True
    with Cons show ?thesis by simp
  next
    case False
    then have step: "delete_items D g (i # items) w = delete_items D g items w1" using u by simp
    show ?thesis
    proof (cases "content w1 = (content w)(g \<mapsto> removal.sweep_step i os)")
      case True
      then have "content w1 g = Some (removal.sweep_step i os)" by simp
      from Cons.IH [OF this] obtain applied where
        "subseq applied [i \<leftarrow> items. \<not> u_deleting i]"
        "content (delete_items D g items w1) =
           (content w1)(g \<mapsto> fold removal.sweep_step applied (removal.sweep_step i os))"
        "dynamic_available content D \<longrightarrow> applied = [i \<leftarrow> items. \<not> u_deleting i]" by blast
      then show ?thesis
        by (intro exI [of _ "i # applied"]) (use True False step in auto)
    next
      case unchanged: False
      then have "content w1 = content w" and "\<not> dynamic_available content D"
        using law avail by auto
      with Cons.IH [of w1 os] Cons.prems False step show ?thesis
        by (auto intro: subseq_order.order_trans)
    qed
  qed
qed

section \<open>All resources\<close>

definition sweep_objects ::
  "unstructured set \<Rightarrow> (unstructured \<Rightarrow> unstructured option) \<Rightarrow> unstructured list \<Rightarrow> unstructured list" where
  "sweep_objects S f = List.map_filter (\<lambda>x. if x \<in> S then f x else Some x)"

lemma sweep_objects_empty [simp]: "sweep_objects {} f = id"
  by (simp add: sweep_objects_def fun_eq_iff)

lemma sweep_objects_cong:
  "(\<And>x. x \<in> set os \<Longrightarrow> x \<in> S \<longleftrightarrow> x \<in> T) \<Longrightarrow> sweep_objects S f os = sweep_objects T f os"
  by (auto simp: sweep_objects_def intro!: map_filter_cong)

lemma distinct_sweep_objects:
  assumes "distinct (map obj_key os)" and "\<And>x y. f x = Some y \<Longrightarrow> obj_key y = obj_key x"
  shows "distinct (map obj_key (sweep_objects S f os))"
  unfolding sweep_objects_def
  by (rule distinct_map_filter [OF assms(1)]) (auto split: if_splits dest: assms(2))

lemma distinct_objects_upd:
  "distinct_objects c \<Longrightarrow> distinct (map obj_key os) \<Longrightarrow> distinct_objects (c(g \<mapsto> os))"
  by (auto simp: distinct_objects_def)

text \<open>
  A resource before and after a loop: some of the objects of the set \<open>T\<close> have been changed (all of
  them when the loop is complete), no other object has.
\<close>

definition sweep_outcome ::
  "unstructured set \<Rightarrow> (unstructured \<Rightarrow> unstructured option) \<Rightarrow> bool \<Rightarrow>
     unstructured list option \<Rightarrow> unstructured list option \<Rightarrow> bool" where
  "sweep_outcome T f complete before after \<longleftrightarrow>
     (\<exists>S\<subseteq>T. after = map_option (sweep_objects S f) before \<and> (complete \<longrightarrow> S = T))"

lemma sweep_outcome_None: "sweep_outcome T f c None after \<longleftrightarrow> after = None"
  by (auto simp: sweep_outcome_def)

lemma sweep_outcome_same: "\<not> c \<Longrightarrow> sweep_outcome T f c os os"
  by (auto simp: sweep_outcome_def option.map_id intro!: exI [of _ "{}"])

lemma sweep_outcome_mono: "sweep_outcome T f True os os' \<Longrightarrow> sweep_outcome T f c os os'"
  by (auto simp: sweep_outcome_def)

text \<open>The objects the removal of the finalizer changes, and those the cleanup deletes.\<close>

definition legacy_objects :: "unstructured set" where
  "legacy_objects = {x. labelled x \<and> has_legacy x}"

definition live_objects :: "unstructured set" where
  "live_objects = {x. labelled x \<and> \<not> u_deleting x}"

lemma strip_resource:
  assumes "dynamic_laws content D" and "distinct_objects (content w)"
    and "dyn_list D g part_of_selector w = Inr items" and "strip_items D g items w = (r, w')"
  shows "sweep_outcome legacy_objects stripped (r = None) (content w g) (content w' g) \<and>
    (\<forall>h. h \<noteq> g \<longrightarrow> content w' h = content w h) \<and> distinct_objects (content w')"
proof -
  from assms(1,3) obtain os where os: "content w g = Some os" and items: "items = filter labelled os"
    unfolding dynamic_laws_def by blast
  from strip_items_content [OF assms(1) os assms(4)] items obtain applied where
    sub: "subseq applied (filter has_legacy (filter labelled os))"
    and w': "content w' = (content w)(g \<mapsto> fold strip.sweep_step applied os)"
    and ok: "r = None \<longrightarrow> applied = filter has_legacy (filter labelled os)" by blast
  have dist: "distinct (map obj_key os)" using assms(2) os by (simp add: distinct_objects_def)
  have "subseq (filter has_legacy (filter labelled os)) os"
    by (simp only: filter_filter subseq_filter_left)
  with sub have "subseq applied os" by (rule subseq_order.order_trans)
  from strip.fold_sweep_selected [OF dist this] w'
  have w2: "content w' = (content w)(g \<mapsto> sweep_objects (set applied) stripped os)"
    by (simp add: sweep_objects_def)
  moreover have "set applied \<subseteq> legacy_objects"
  proof
    fix x assume "x \<in> set applied"
    with sub show "x \<in> legacy_objects" by (elim list_emb_set) (auto simp: legacy_objects_def)
  qed
  moreover have "sweep_objects (set applied) stripped os = sweep_objects legacy_objects stripped os"
    if "r = None"
    by (rule sweep_objects_cong) (use ok that in \<open>auto simp: legacy_objects_def\<close>)
  moreover have "distinct_objects (content w')"
    unfolding w2 by (intro distinct_objects_upd assms distinct_sweep_objects dist key_stripped)
  ultimately show ?thesis using os by (cases "r = None") (auto simp: sweep_outcome_def)
qed

lemma sweep_outcomes_Cons:
  assumes "g \<notin> set gs" and "sweep_outcome sel change b (content0 g) (content1 g)"
    and "\<And>h. h \<noteq> g \<Longrightarrow> content1 h = content0 h"
    and "\<And>h. if h \<in> set gs then sweep_outcome sel change b (content1 h) (content2 h)
      else content2 h = content1 h"
  shows "if h \<in> set (g # gs) then sweep_outcome sel change b (content0 h) (content2 h)
    else content2 h = content0 h"
proof (cases "h = g")
  case True
  with assms(1,2) assms(4) [of g] show ?thesis by simp
next
  case False
  with assms(3) assms(4) [of h] show ?thesis by (auto split: if_splits)
qed

lemma strip_resources_content:
  assumes "dynamic_laws content D"
  shows "distinct gs \<Longrightarrow> distinct_objects (content w) \<Longrightarrow> strip_resources D gs w = (r, w') \<Longrightarrow>
    distinct_objects (content w') \<and>
    (\<forall>g. if g \<in> set gs then sweep_outcome legacy_objects stripped (r = None) (content w g) (content w' g)
         else content w' g = content w g)"
proof (induction gs arbitrary: w)
  case (Cons g gs)
  show ?case
  proof (cases "dyn_list D g part_of_selector w")
    case (Inl e)
    show ?thesis
    proof (cases "is_not_found e")
      case True
      with assms Inl have none: "content w g = None" unfolding dynamic_laws_def by blast
      from Inl True Cons.prems have "strip_resources D gs w = (r, w')" by simp
      with Cons.IH [of w] Cons.prems none show ?thesis by (auto simp: sweep_outcome_None)
    next
      case False
      with Inl Cons.prems have "w' = w" and "r \<noteq> None" by auto
      with Cons.prems show ?thesis by (auto simp: sweep_outcome_same)
    qed
  next
    case (Inr items)
    obtain r1 w1 where s: "strip_items D g items w = (r1, w1)" by fastforce
    note one = strip_resource [OF assms Cons.prems(2) Inr s]
    show ?thesis
    proof (cases r1)
      case None
      with Inr s Cons.prems have "strip_resources D gs w1 = (r, w')" by simp
      with Cons.IH [of w1] Cons.prems(1) one have IH: "distinct_objects (content w')"
        "if h \<in> set gs then sweep_outcome legacy_objects stripped (r = None) (content w1 h) (content w' h)
         else content w' h = content w1 h" for h by auto
      from one None have "sweep_outcome legacy_objects stripped (r = None) (content w g) (content w1 g)"
        and "\<And>h. h \<noteq> g \<Longrightarrow> content w1 h = content w h" by (auto simp: sweep_outcome_mono)
      from sweep_outcomes_Cons [of g gs, OF _ this IH(2)] Cons.prems(1)
      have "if h \<in> set (g # gs) then sweep_outcome legacy_objects stripped (r = None) (content w h) (content w' h)
         else content w' h = content w h" for h by simp
      with IH(1) show ?thesis by blast
    next
      case (Some e)
      with Inr s Cons.prems have "w' = w1" and "r \<noteq> None" by auto
      with one Some show ?thesis by (auto simp: sweep_outcome_same)
    qed
  qed
qed simp

lemma delete_resource:
  assumes "dynamic_laws content D" and "distinct_objects (content w)"
    and "dyn_list D g part_of_selector w = Inr items"
  shows "sweep_outcome live_objects deleted (dynamic_available content D) (content w g)
      (content (delete_items D g items w) g) \<and>
    (\<forall>h. h \<noteq> g \<longrightarrow> content (delete_items D g items w) h = content w h) \<and>
    distinct_objects (content (delete_items D g items w))"
proof -
  let ?w' = "delete_items D g items w"
  from assms(1,3) obtain os where os: "content w g = Some os" and items: "items = filter labelled os"
    unfolding dynamic_laws_def by blast
  let ?live = "[i \<leftarrow> filter labelled os. \<not> u_deleting i]"
  from delete_items_content [OF assms(1) os, of items] items obtain applied where
    sub: "subseq applied ?live"
    and w': "content ?w' = (content w)(g \<mapsto> fold removal.sweep_step applied os)"
    and ok: "dynamic_available content D \<longrightarrow> applied = ?live" by blast
  have dist: "distinct (map obj_key os)" using assms(2) os by (simp add: distinct_objects_def)
  have "subseq ?live os" by (simp only: filter_filter subseq_filter_left)
  with sub have "subseq applied os" by (rule subseq_order.order_trans)
  from removal.fold_sweep_selected [OF dist this] w'
  have w2: "content ?w' = (content w)(g \<mapsto> sweep_objects (set applied) deleted os)"
    by (simp add: sweep_objects_def)
  moreover have "set applied \<subseteq> live_objects"
  proof
    fix x assume "x \<in> set applied"
    with sub show "x \<in> live_objects" by (elim list_emb_set) (auto simp: live_objects_def)
  qed
  moreover have "sweep_objects (set applied) deleted os = sweep_objects live_objects deleted os"
    if "dynamic_available content D"
    by (rule sweep_objects_cong) (use ok that in \<open>auto simp: live_objects_def\<close>)
  moreover have "distinct_objects (content ?w')"
    unfolding w2 by (intro distinct_objects_upd assms distinct_sweep_objects dist key_deleted)
  ultimately show ?thesis
    using os by (cases "dynamic_available content D") (auto simp: sweep_outcome_def)
qed

lemma delete_resources_content:
  assumes "dynamic_laws content D"
  shows "distinct gs \<Longrightarrow> distinct_objects (content w) \<Longrightarrow>
    distinct_objects (content (delete_resources D gs w)) \<and>
    (\<forall>g. if g \<in> set gs then sweep_outcome live_objects deleted (dynamic_available content D)
             (content w g) (content (delete_resources D gs w) g)
         else content (delete_resources D gs w) g = content w g)"
proof (induction gs arbitrary: w)
  case (Cons g gs)
  obtain w1 where step: "delete_resources D (g # gs) w = delete_resources D gs w1"
    and one: "sweep_outcome live_objects deleted (dynamic_available content D) (content w g) (content w1 g)"
      "\<forall>h. h \<noteq> g \<longrightarrow> content w1 h = content w h" "distinct_objects (content w1)"
  proof (cases "dyn_list D g part_of_selector w")
    case (Inl e)
    have "content w g = None" if "dynamic_available content D"
      using that Inl unfolding dynamic_available_def by (metis isl_def)
    then have "sweep_outcome live_objects deleted (dynamic_available content D) (content w g) (content w g)"
      by (cases "dynamic_available content D") (simp_all add: sweep_outcome_None sweep_outcome_same)
    with that [of w] Inl Cons.prems show ?thesis by simp
  next
    case (Inr items)
    with that [of "delete_items D g items w"] delete_resource [OF assms Cons.prems(2) Inr]
    show ?thesis by simp
  qed
  let ?w' = "delete_resources D gs w1"
  have IH: "distinct_objects (content ?w')"
    "if h \<in> set gs then sweep_outcome live_objects deleted (dynamic_available content D) (content w1 h) (content ?w' h)
     else content ?w' h = content w1 h" for h
    using Cons.IH [of w1] Cons.prems(1) one(3) by auto
  from one(2) have "\<And>h. h \<noteq> g \<Longrightarrow> content w1 h = content w h" by blast
  from sweep_outcomes_Cons [of g gs, OF _ one(1) this IH(2)] Cons.prems(1)
  have "if h \<in> set (g # gs) then sweep_outcome live_objects deleted (dynamic_available content D)
      (content w h) (content ?w' h) else content ?w' h = content w h" for h by simp
  with IH(1) show ?case unfolding step by blast
qed simp

lemma strip_items_available:
  assumes "dynamic_laws content D" and "dynamic_available content D"
  shows "content w g = Some os \<Longrightarrow> distinct (map obj_key items) \<Longrightarrow>
    obj_key ` set items \<subseteq> obj_key ` set os \<Longrightarrow> fst (strip_items D g items w) = None"
proof (induction items arbitrary: w os)
  case (Cons i items)
  let ?i = "i\<lparr>u_finalizers := filterFinalizer (u_finalizers i) legacyTrainerFinalizer\<rparr>"
  obtain r1 w1 where u: "dyn_update D g (u_namespace i) ?i w = (r1, w1)" by fastforce
  have "obj_key ?i \<in> obj_key ` set os" using Cons.prems(3) by simp
  with assms(2) Cons.prems(1) have "fst (dyn_update D g (u_namespace ?i) ?i w) = None"
    unfolding dynamic_available_def by blast
  with u have r1: "r1 = None" by simp
  with update_law [OF assms(1) Cons.prems(1) u]
  have w1: "content w1 g = Some (strip.sweep_step i os)" by simp
  have "obj_key ` set items \<subseteq> obj_key ` set (strip.sweep_step i os)"
  proof
    fix k assume k: "k \<in> obj_key ` set items"
    with Cons.prems(3) obtain x where "x \<in> set os" "k = obj_key x" by auto
    moreover have "k \<noteq> obj_key i" using k Cons.prems(2) by (metis distinct.simps(2) list.simps(9) set_map)
    ultimately show "k \<in> obj_key ` set (strip.sweep_step i os)"
      by (auto simp: strip.sweep_step_def set_map_filter intro!: image_eqI [of _ _ x] bexI [of _ x])
  qed
  with Cons.IH [OF w1] Cons.IH [OF Cons.prems(1)] Cons.prems u r1 show ?case
    by (simp add: filterFinalizer_length_iff)
qed simp

lemma strip_resources_available:
  assumes "dynamic_laws content D" and "dynamic_available content D"
  shows "distinct_objects (content w) \<Longrightarrow> fst (strip_resources D gs w) = None"
proof (induction gs arbitrary: w)
  case (Cons g gs)
  show ?case
  proof (cases "dyn_list D g part_of_selector w")
    case (Inl e)
    then have "is_not_found e"
      using assms(2) unfolding dynamic_available_def by (metis sum.case(1))
    with Inl Cons show ?thesis by simp
  next
    case (Inr items)
    with assms(1) obtain os where os: "content w g = Some os" "items = filter labelled os"
      unfolding dynamic_laws_def by blast
    from Cons.prems os have "distinct (map obj_key items)"
      using subseq_distinct_map [OF subseq_filter_left, of obj_key os] by (auto simp: distinct_objects_def)
    moreover have "obj_key ` set items \<subseteq> obj_key ` set os" using os by auto
    ultimately have none: "fst (strip_items D g items w) = None"
      by (rule strip_items_available [OF assms os(1)])
    obtain w1 where s: "strip_items D g items w = (None, w1)"
      using none by (metis prod.collapse)
    from strip_resource [OF assms(1) Cons.prems Inr s] have "distinct_objects (content w1)" by blast
    with Cons.IH Inr s show ?thesis by simp
  qed
qed simp

section \<open>Properties\<close>

lemma distinct_runtime_gvrs: "distinct runtime_gvrs"
  by (simp add: runtime_gvrs_def clusterTrainingRuntimeResource_def trainingRuntimeResource_def)

lemma remove_outcome:
  assumes "dynamic_laws content D" and "distinct_objects (content w)"
    and "removeRuntimeFinalizers D w = (r, w')"
  shows "distinct_objects (content w') \<and>
    (\<forall>g. if g \<in> set runtime_gvrs
         then sweep_outcome legacy_objects stripped (r = None) (content w g) (content w' g)
         else content w' g = content w g)"
  using strip_resources_content [OF assms(1) distinct_runtime_gvrs assms(2)] assms(3)
  by (simp add: removeRuntimeFinalizers_def)

lemma cleanup_outcome:
  assumes "dynamic_laws content D" and "distinct_objects (content w)"
  shows "distinct_objects (content (cleanupTrainerResources D w)) \<and>
    (\<forall>g. if g \<in> set runtime_gvrs
         then sweep_outcome live_objects deleted (dynamic_available content D)
                (content w g) (content (cleanupTrainerResources D w) g)
         else content (cleanupTrainerResources D w) g = content w g)"
  using delete_resources_content [OF assms(1) distinct_runtime_gvrs assms(2)]
  by (simp add: cleanupTrainerResources_def)

lemma stripped_clean: "stripped x = Some y \<Longrightarrow> \<not> has_legacy y"
  by (auto simp: stripped_def has_legacy_def dest: key_stored)

text \<open>Failed deletions are passed over: when none is carried out, nobody is told.\<close>

lemma failed_deletions_ignored:
  assumes "\<And>g ns n w. snd (dyn_delete D g ns n w) = w"
  shows "cleanupTrainerResources D w = w"
proof -
  have items: "delete_items D g items w = w" for g items
    by (induction items) (simp_all add: assms)
  have "delete_resources D gs w = w" for gs
    by (induction gs) (simp_all add: items split: sum.split)
  then show ?thesis by (simp add: cleanupTrainerResources_def)
qed

definition sample_runtime :: "string \<Rightarrow> (string, string) gomap \<Rightarrow> string list \<Rightarrow> bool \<Rightarrow> unstructured" where
  "sample_runtime n ls fins del = \<lparr>u_gvk = clusterTrainingRuntimeGVK, u_name = n, u_namespace = [],
     u_labels = ls, u_finalizers = fins, u_deleting = del, u_object = []\<rparr>"

definition sample_runtimes :: contents where
  "sample_runtimes = (\<lambda>_. None)(runtime_gvrs ! 0 \<mapsto>
     [sample_runtime ''torch'' [(PlatformPartOf, trainerPartOf)] [legacyTrainerFinalizer, ''x''] False,
      sample_runtime ''old'' [(PlatformPartOf, trainerPartOf)] [legacyTrainerFinalizer] True,
      sample_runtime ''mine'' [] [legacyTrainerFinalizer] False])"

lemmas sample_runtimes_eval = sample_runtimes_def sample_runtime_def runtime_gvrs_def
  clusterTrainingRuntimeResource_def trainingRuntimeResource_def clusterTrainingRuntimeGVK_def
  obj_key_def

lemma sample_runtimes_distinct: "distinct_objects (id sample_runtimes)"
  by (auto simp: distinct_objects_def sample_runtimes_eval)

text \<open>
  C5: \<^verbatim>\<open>removeRuntimeFinalizers\<close> whatever its outcome: no resource other than the two training
  runtimes changes, and of these only objects with the trainer label that carry the legacy
  finalizer change, by losing exactly that finalizer (and disappearing when they were only
  waiting for it); when it reports success every such object has been changed. Other finalizers
  and unlabelled runtimes are never touched, not even when an update fails half-way.
\<close>

theorem removeRuntimeFinalizers_outcome:
  assumes "dynamic_laws content D" and "distinct_objects (content w)"
    and "removeRuntimeFinalizers D w = (r, w')"
  shows "if g \<in> set runtime_gvrs
    then \<exists>S\<subseteq>{x. labelled x \<and> legacyTrainerFinalizer \<in> set (u_finalizers x)}.
      content w' g = map_option (List.map_filter (\<lambda>x. if x \<in> S
          then stored (x\<lparr>u_finalizers := [f \<leftarrow> u_finalizers x. f \<noteq> legacyTrainerFinalizer]\<rparr>)
          else Some x)) (content w g) \<and>
      (r = None \<longrightarrow> S = {x. labelled x \<and> legacyTrainerFinalizer \<in> set (u_finalizers x)})
    else content w' g = content w g"
  using spec [OF conjunct2 [OF remove_outcome [OF assms]], of g]
  unfolding sweep_outcome_def sweep_objects_def legacy_objects_def has_legacy_def stripped_def .

lemma sample_remove_ok: "\<exists>c. removeRuntimeFinalizers mem_client sample_runtimes = (None, c)"
  using strip_resources_available [OF mem_client_laws mem_client_available, of sample_runtimes runtime_gvrs]
    sample_runtimes_distinct
  by (metis removeRuntimeFinalizers_def prod.collapse)

theorem removeRuntimeFinalizers_outcome_witness:
  "\<exists>c. removeRuntimeFinalizers mem_client sample_runtimes = (None, c) \<and>
     c (runtime_gvrs ! 0) = Some
       [sample_runtime ''torch'' [(PlatformPartOf, trainerPartOf)] [''x''] False,
        sample_runtime ''mine'' [] [legacyTrainerFinalizer] False]"
proof -
  obtain c where c: "removeRuntimeFinalizers mem_client sample_runtimes = (None, c)"
    using sample_remove_ok by blast
  have "runtime_gvrs ! 0 \<in> set runtime_gvrs" by (simp add: runtime_gvrs_def)
  with removeRuntimeFinalizers_outcome [where content = id and w = sample_runtimes, OF mem_client_laws sample_runtimes_distinct c, of "runtime_gvrs ! 0"]
  have "c (runtime_gvrs ! 0) = map_option (List.map_filter (\<lambda>x.
      if labelled x \<and> legacyTrainerFinalizer \<in> set (u_finalizers x)
      then stored (x\<lparr>u_finalizers := [f \<leftarrow> u_finalizers x. f \<noteq> legacyTrainerFinalizer]\<rparr>)
      else Some x)) (sample_runtimes (runtime_gvrs ! 0))" by auto
  moreover have "''x'' \<noteq> legacyTrainerFinalizer" by (simp add: legacyTrainerFinalizer_def)
  ultimately show ?thesis
    using c by (simp add: sample_runtimes_def sample_runtime_def labelled_def stored_def
        List.map_filter_simps)
qed

text \<open>
  \<^verbatim>\<open>removeRuntimeFinalizers\<close> completes: when the API server answers (a missing runtime API
  included), it returns no error and afterwards no labelled training runtime carries the legacy
  finalizer, so none of them can be held back by a controller that no longer exists.
\<close>

lemma removeRuntimeFinalizers_completes:
  assumes "dynamic_laws content D" and "dynamic_available content D"
    and "distinct_objects (content w)"
  shows "\<exists>w'. removeRuntimeFinalizers D w = (None, w') \<and>
    (\<forall>g\<in>set runtime_gvrs. \<forall>os. content w' g = Some os \<longrightarrow>
       (\<forall>x\<in>set os. labelled x \<longrightarrow> legacyTrainerFinalizer \<notin> set (u_finalizers x)))"
proof -
  obtain w' where w': "removeRuntimeFinalizers D w = (None, w')"
    using strip_resources_available [OF assms, of runtime_gvrs]
    by (metis removeRuntimeFinalizers_def prod.collapse)
  have "\<not> has_legacy x" if "g \<in> set runtime_gvrs" "content w' g = Some os" "x \<in> set os" "labelled x" for g os x
    using conjunct2 [OF remove_outcome [OF assms(1,3) w']] that stripped_clean
    by (fastforce simp: sweep_outcome_def sweep_objects_def set_map_filter legacy_objects_def
        split: if_splits)
  with w' show ?thesis by (auto simp: has_legacy_def)
qed

lemma removeRuntimeFinalizers_completes_witness:
  "\<exists>c. removeRuntimeFinalizers mem_client sample_runtimes = (None, c) \<and>
    (\<forall>g\<in>set runtime_gvrs. \<forall>os. id c g = Some os \<longrightarrow>
       (\<forall>x\<in>set os. labelled x \<longrightarrow> legacyTrainerFinalizer \<notin> set (u_finalizers x)))"
  by (rule removeRuntimeFinalizers_completes [where content = id and w = sample_runtimes, OF mem_client_laws mem_client_available
      sample_runtimes_distinct])

text \<open>
  The runtime APIs on any client, with nothing assumed of it. When neither API is served both
  routines leave the cluster as it is and the removal reports success, so a Trainer object whose
  dependencies never came up can still be deleted; a list that fails for another reason stops
  the removal with a wrapped error before anything is changed, and does not stop the cleanup
  from going on to the namespaced runtimes.
\<close>

lemma runtime_api_missing:
  "((\<forall>g\<in>set runtime_gvrs. \<exists>e. dyn_list D g part_of_selector w = Inl e \<and> is_not_found e) \<longrightarrow>
      removeRuntimeFinalizers D w = (None, w) \<and> cleanupTrainerResources D w = w) \<and>
   (\<forall>e. dyn_list D (runtime_gvrs ! 0) part_of_selector w = Inl e \<and> \<not> is_not_found e \<longrightarrow>
      removeRuntimeFinalizers D w =
        (Some (Wrap ''listing clustertrainingruntimes for finalizer removal'' e), w) \<and>
      cleanupTrainerResources D w = delete_resources D [runtime_gvrs ! 1] w)"
  by (auto simp: removeRuntimeFinalizers_def cleanupTrainerResources_def runtime_gvrs_def
      clusterTrainingRuntimeResource_def)

lemma runtime_api_missing_witness:
  "removeRuntimeFinalizers mem_client (\<lambda>_. None) = (None, \<lambda>_. None) \<and>
   cleanupTrainerResources mem_client (\<lambda>_. None) = (\<lambda>_. None)"
  using runtime_api_missing [of mem_client "\<lambda>_. None"] by (simp add: mem_client_def)

text \<open>
  C29: \<^verbatim>\<open>cleanupTrainerResources\<close> deletes: no resource other than the training runtimes changes, only
  labelled runtimes that are not being deleted already change, each by a delete (gone when it
  has no finalizer, marked otherwise), and when the API server answers every such runtime has
  been deleted.
\<close>

theorem cleanupTrainerResources_outcome:
  assumes "dynamic_laws content D" and "distinct_objects (content w)"
  shows "if g \<in> set runtime_gvrs
    then \<exists>S\<subseteq>{x. labelled x \<and> \<not> u_deleting x}.
      content (cleanupTrainerResources D w) g = map_option (List.map_filter (\<lambda>x. if x \<in> S
          then stored (x\<lparr>u_deleting := True\<rparr>) else Some x)) (content w g) \<and>
      (dynamic_available content D \<longrightarrow> S = {x. labelled x \<and> \<not> u_deleting x})
    else content (cleanupTrainerResources D w) g = content w g"
  using spec [OF conjunct2 [OF cleanup_outcome [OF assms]], of g]
  unfolding sweep_outcome_def sweep_objects_def live_objects_def deleted_def .

theorem cleanupTrainerResources_outcome_witness:
  "cleanupTrainerResources mem_client sample_runtimes (runtime_gvrs ! 0) = Some
     [sample_runtime ''torch'' [(PlatformPartOf, trainerPartOf)] [legacyTrainerFinalizer, ''x''] True,
      sample_runtime ''old'' [(PlatformPartOf, trainerPartOf)] [legacyTrainerFinalizer] True,
      sample_runtime ''mine'' [] [legacyTrainerFinalizer] False]"
proof -
  have "runtime_gvrs ! 0 \<in> set runtime_gvrs" by (simp add: runtime_gvrs_def)
  with cleanupTrainerResources_outcome [where content = id and w = sample_runtimes, OF mem_client_laws sample_runtimes_distinct, of "runtime_gvrs ! 0"]
    mem_client_available
  have "cleanupTrainerResources mem_client sample_runtimes (runtime_gvrs ! 0) =
      map_option (List.map_filter (\<lambda>x. if labelled x \<and> \<not> u_deleting x
          then stored (x\<lparr>u_deleting := True\<rparr>) else Some x)) (sample_runtimes (runtime_gvrs ! 0))"
    by auto
  then show ?thesis
    by (simp add: sample_runtimes_def sample_runtime_def labelled_def stored_def List.map_filter_simps)
qed

text \<open>
  The two together, as the finalizer runs them: a labelled runtime that is still there is being
  deleted and is held by a finalizer of somebody else.
\<close>

lemma runtime_teardown:
  assumes "dynamic_laws content D" and "dynamic_available content D"
    and "distinct_objects (content w)" and "removeRuntimeFinalizers D w = (None, w1)"
    and "g \<in> set runtime_gvrs" and "content (cleanupTrainerResources D w1) g = Some os"
    and "x \<in> set os" and "labelled x"
  shows "u_deleting x \<and> legacyTrainerFinalizer \<notin> set (u_finalizers x)"
proof -
  note one = remove_outcome [OF assms(1,3,4)]
  obtain os1 where os1: "content w1 g = Some os1" "os = sweep_objects live_objects deleted os1"
    using spec [OF conjunct2 [OF cleanup_outcome [OF assms(1) conjunct1 [OF one]]], of g] assms(2,5,6)
    by (cases "content w1 g") (auto simp: sweep_outcome_def)
  have clean: "\<not> has_legacy y" if "y \<in> set os1" "labelled y" for y
    using conjunct2 [OF one] assms(5) os1(1) that stripped_clean
    by (fastforce simp: sweep_outcome_def sweep_objects_def set_map_filter legacy_objects_def
        split: if_splits)
  from assms(7) os1(2) obtain y where y: "y \<in> set os1"
      "(if y \<in> live_objects then deleted y else Some y) = Some x"
    by (auto simp: sweep_objects_def set_map_filter)
  with assms(8) have "u_deleting x" "has_legacy x = has_legacy y" "labelled y"
    by (auto simp: live_objects_def deleted_def has_legacy_def labelled_def dest!: key_stored
        split: if_splits)
  with clean y show ?thesis by (simp add: has_legacy_def)
qed

end
