(* ===== verification/Reconciler.thy ===== *)
theory Reconciler
  imports Rendering Dependencies Release_Status Runtimes
begin

text \<open>
  The reconciler (internal/controller/trainer_controller.go): the actions that are not in a theory
  of their own (\<^verbatim>\<open>ensureNamespace\<close>, \<^verbatim>\<open>withImmutableFieldRecovery\<close>, \<^verbatim>\<open>stripRuntimeFinalizers\<close>), the
  finalizer \<^verbatim>\<open>cleanup\<close>, and \<^verbatim>\<open>NewReconciler\<close>, which puts them together. An action is a function on
  the state of the operator: the cluster, the files, the request and the reconciler's release.
\<close>

section \<open>State and environment\<close>

record ('w, 'v) op_state =
  st_cluster :: 'w
  st_files :: fnode
  st_req :: request
  st_release :: "'v release"

type_synonym ('w, 'v) action = "('w, 'v) op_state \<Rightarrow> goerr option \<times> ('w, 'v) op_state"

datatype deploy_opt = WithCache | WithFieldOwner string | WithApplyOrder

text \<open>
  The functions of other packages: the clients, the framework's own actions (deploy, deployment
  status, garbage collection), the collector the finalizer runs, and the framework's version type.
\<close>

record ('w, 'v) operator_env =
  oe_render :: render_env
  oe_platform :: "'w platform_api"
  oe_client :: "'w typed_client"
  oe_dynamic :: "'w dynamic_client"
  oe_metadata :: "string \<Rightarrow> componentMetadata result"
  oe_semver :: "string \<Rightarrow> 'v result"
  oe_deploy :: "deploy_opt list \<Rightarrow> ('w, 'v) action"
  oe_deployments :: "(request \<Rightarrow> string) \<Rightarrow> ('w, 'v) action"
  oe_gc :: "(request \<Rightarrow> string) \<Rightarrow> bool \<Rightarrow> gvk list \<Rightarrow> ('w, 'v) action"
  oe_collect :: "bool \<Rightarrow> string \<Rightarrow> gvk list \<Rightarrow> Trainer \<Rightarrow> 'w \<Rightarrow> goerr option \<times> 'w"

section \<open>The namespace\<close>

definition ensureNamespace :: "'w typed_client \<Rightarrow> request \<Rightarrow> 'w \<Rightarrow> goerr option \<times> 'w" where
  "ensureNamespace C rr w =
     (let namespace = resolveNamespace (Instance rr) in
      case get_namespace C namespace w of
        Inr ns \<Rightarrow> (None, w)
      | Inl e \<Rightarrow>
         (if \<not> is_not_found e then (Some (Wrap ''failed to check namespace'' e), w)
          else case create_namespace C
                 \<lparr>ns_name = namespace, ns_labels = [(PlatformPartOf, trainerPartOf)]\<rparr> w of
                 (Some e, w') \<Rightarrow>
                   (if \<not> is_already_exists e then (Some (Wrap ''failed to create namespace'' e), w')
                    else (None, w'))
               | (None, w') \<Rightarrow> (None, w')))"

section \<open>Recovery from immutable fields\<close>

definition isImmutableFieldError :: "goerr option \<Rightarrow> bool" where
  "isImmutableFieldError r =
     (case r of None \<Rightarrow> False | Some e \<Rightarrow> contains (err_text e) ''field is immutable'')"

fun delete_deployments :: "'w typed_client \<Rightarrow> unstructured list \<Rightarrow> 'w \<Rightarrow> 'w" where
  "delete_deployments C [] w = w"
| "delete_deployments C (res # ress) w =
     (if GetKind res \<noteq> ''Deployment'' then delete_deployments C ress w
      else delete_deployments C ress
             (snd (delete_object C (u_gvk res) (u_namespace res) (u_name res) w)))"

definition withImmutableFieldRecovery ::
  "'w typed_client \<Rightarrow> ('w, 'v) action \<Rightarrow> ('w, 'v) action" where
  "withImmutableFieldRecovery C deployAction s =
     (case deployAction s of
        (r, s') \<Rightarrow>
          (if r = None \<or> \<not> isImmutableFieldError r then (r, s')
           else (r, s'\<lparr>st_cluster :=
             delete_deployments C (Resources (st_req s')) (st_cluster s')\<rparr>)))"

section \<open>The actions on the operator's state\<close>

definition checkDependencies_action :: "('w, 'v) operator_env \<Rightarrow> ('w, 'v) action" where
  "checkDependencies_action E s =
     (case checkDependencies (re_unstructured (oe_render E)) (oe_platform E) (st_cluster s) (st_req s) of
        (r, rr) \<Rightarrow> (r, s\<lparr>st_req := rr\<rparr>))"

definition ensureNamespace_action :: "('w, 'v) operator_env \<Rightarrow> ('w, 'v) action" where
  "ensureNamespace_action E s =
     (case ensureNamespace (oe_client E) (st_req s) (st_cluster s) of
        (r, w) \<Rightarrow> (r, s\<lparr>st_cluster := w\<rparr>))"

definition updateReleases_action ::
  "('w, 'v) operator_env \<Rightarrow> ReconcilerConfig \<Rightarrow> ('w, 'v) action" where
  "updateReleases_action E m s =
     (case updateReleases (re_io (oe_render E)) (oe_metadata E) (oe_semver E) (oe_client E)
             (ManifestsPath m) (st_files s) (st_cluster s) (st_req s) (st_release s) of
        (r, rr, rel) \<Rightarrow> (r, s\<lparr>st_req := rr, st_release := rel\<rparr>))"

definition renderManifests_action ::
  "('w, 'v) operator_env \<Rightarrow> ReconcilerConfig \<Rightarrow> ('w, 'v) action" where
  "renderManifests_action E m s =
     (case renderManifests (oe_platform E) (oe_render E) m (st_cluster s) (st_files s) (st_req s) of
        (r, fs, rr) \<Rightarrow> (r, s\<lparr>st_files := fs, st_req := rr\<rparr>))"

definition stripRuntimeFinalizers :: "('w, 'v) operator_env \<Rightarrow> ('w, 'v) action" where
  "stripRuntimeFinalizers E s =
     (case removeRuntimeFinalizers (oe_dynamic E) (st_cluster s) of
        (r, w) \<Rightarrow> (r, s\<lparr>st_cluster := w\<rparr>))"

text \<open>The finalizer: the legacy finalizers go first, then the runtimes, then everything else.\<close>

definition cleanup :: "('w, 'v) operator_env \<Rightarrow> ('w, 'v) action" where
  "cleanup E s =
     (let trainer = Instance (st_req s); namespace = resolveNamespace trainer in
      case removeRuntimeFinalizers (oe_dynamic E) (st_cluster s) of
        (Some e, w) \<Rightarrow> (Some e, s\<lparr>st_cluster := w\<rparr>)
      | (None, w) \<Rightarrow>
          (let w = cleanupTrainerResources (oe_dynamic E) w in
           case oe_collect E False namespace [clusterTrainingRuntimeGVK, trainingRuntimeGVK] trainer w of
             (r, w) \<Rightarrow> (r, s\<lparr>st_cluster := w\<rparr>)))"

section \<open>Putting the reconciler together\<close>

definition finalizerName :: string where
  "finalizerName = ''components.platform.opendatahub.io/trainer-cleanup''"

definition nsFn :: "request \<Rightarrow> string" where
  "nsFn rr = resolveNamespace (Instance rr)"

text \<open>
  What is watched, with the options of the watch: an event of an owned kind is mapped to the owner,
  one of the JobSetOperator, which when its CRD exists is watched for its status, to a request for
  the named Trainer.
\<close>

datatype watch_opt =
    DefaultDeploymentPredicate
  | ToNamed string
  | DependentStatus bool
  | DynamicCrdExists gvk

datatype watch =
    Watches string "watch_opt list"
  | WatchesGVK gvk "watch_opt list"

record ('w, 'v) reconciler_plan =
  watches :: "watch list"
  actions :: "('w, 'v) action list"
  finalizer :: "('w, 'v) action"
  dependent_condition :: string
  healthy_when :: bool
  finalizer_name :: string

definition reconciler_plan_for ::
  "('w, 'v) operator_env \<Rightarrow> ReconcilerConfig \<Rightarrow> ('w, 'v) reconciler_plan" where
  "reconciler_plan_for E m =
     \<lparr>watches =
        [Watches ''Deployment'' [DefaultDeploymentPredicate], Watches ''Service'' [],
         Watches ''ConfigMap'' [], Watches ''ValidatingWebhookConfiguration'' [],
         WatchesGVK jobSetOperatorGVK
           [ToNamed TrainerInstanceName, DependentStatus True, DynamicCrdExists jobSetOperatorGVK]],
      actions =
        [checkDependencies_action E,
         ensureNamespace_action E,
         updateReleases_action E m,
         renderManifests_action E m,
         withImmutableFieldRecovery (oe_client E)
           (oe_deploy E [WithCache, WithFieldOwner ''trainer-module-controller'', WithApplyOrder]),
         oe_deployments E nsFn,
         stripRuntimeFinalizers E,
         oe_gc E nsFn False [clusterTrainingRuntimeGVK, trainingRuntimeGVK]],
      finalizer = cleanup E,
      dependent_condition = ''DeploymentsAvailable'',
      healthy_when = True,
      finalizer_name = finalizerName\<rparr>"

text \<open>The predicate of the extra watch on ConfigMaps: it lets the platform's ConfigMap through.\<close>

definition platform_config_event :: "string \<Rightarrow> bool" where
  "platform_config_event name \<longleftrightarrow> name = platformConfigMapName"

text \<open>
  \<^verbatim>\<open>NewReconciler\<close>: \<open>build\<close> and \<open>watch_config\<close> are the framework's \<^verbatim>\<open>Build\<close> and the controller's
  \<^verbatim>\<open>Watch\<close> (given the kind, the handler and the predicate); the release of a fresh reconciler is \<open>zero\<close>.
\<close>

definition NewReconciler ::
  "(('w, 'v) reconciler_plan \<Rightarrow> goerr option) \<Rightarrow>
     (string \<Rightarrow> watch_opt \<Rightarrow> (string \<Rightarrow> bool) \<Rightarrow> goerr option) \<Rightarrow> 'v release \<Rightarrow>
     ('w, 'v) operator_env \<Rightarrow> ReconcilerConfig \<Rightarrow> fnode \<Rightarrow>
     (('w, 'v) reconciler_plan \<times> 'v release) result" where
  "NewReconciler build watch_config zero E m fs =
     (let plan = reconciler_plan_for E m in
      case build plan of
        Some e \<Rightarrow> Inl e
      | None \<Rightarrow>
         (case watch_config ''ConfigMap'' (ToNamed TrainerInstanceName) platform_config_event of
            Some e \<Rightarrow> Inl (Wrap ''watching platform config'' e)
          | None \<Rightarrow>
             (case readBootstrapRelease (re_io (oe_render E)) (oe_metadata E) (oe_semver E)
                     (ManifestsPath m) fs of
                Inl e \<Rightarrow> Inr (plan, zero)
              | Inr rel \<Rightarrow> Inr (plan, rel))))"

section \<open>Running a plan\<close>

text \<open>Actions in order, up to the first error: what the framework promises of a reconcile.\<close>

fun run_actions :: "('w, 'v) action list \<Rightarrow> ('w, 'v) action" where
  "run_actions [] s = (None, s)"
| "run_actions (a # as) s =
     (case a s of (Some e, s') \<Rightarrow> (Some e, s') | (None, s') \<Rightarrow> run_actions as s')"

definition runs_in_order :: "(('w, 'v) action list \<Rightarrow> ('w, 'v) action) \<Rightarrow> bool" where
  "runs_in_order run \<longleftrightarrow> (\<forall>as s. run as s = run_actions as s)"

lemma run_actions_append:
  "run_actions (as @ bs) s =
     (case run_actions as s of (Some e, s') \<Rightarrow> (Some e, s') | (None, s') \<Rightarrow> run_actions bs s')"
  by (induction as arbitrary: s) (auto split: prod.splits option.splits)

section \<open>The contract of an action\<close>

text \<open>
  The framework's helpers and every action resolve the application namespace from the request
  again; this is sound because no action changes the specification of the Trainer object.
\<close>

definition trainer_spec :: "('w, 'v) op_state \<Rightarrow> TrainerSpec" where
  "trainer_spec s = Spec (Instance (st_req s))"

locale request_action =
  fixes act :: "('w, 'v) op_state \<Rightarrow> goerr option \<times> ('w, 'v) op_state"
  assumes spec_kept: "trainer_spec (snd (act s)) = trainer_spec s"
begin

lemma same_namespace: "nsFn (st_req (snd (act s))) = nsFn (st_req s)"
  using spec_kept [of s] by (simp add: trainer_spec_def nsFn_def resolveNamespace_def)

lemma before_another:
  assumes "\<And>t. trainer_spec (snd (bct t)) = trainer_spec t"
  shows "trainer_spec (snd (case act s of (Some e, s') \<Rightarrow> (Some e, s') | (None, s') \<Rightarrow> bct s')) = trainer_spec s"
  using spec_kept [of s] assms by (auto split: prod.splits option.splits)

end

lemma checkDependencies_keeps: "Instance (snd (checkDependencies U P w rr)) = Instance rr"
  using checkDependencies_table [of U P w rr] by (auto split: option.splits)

lemma updateReleases_keeps:
  "Spec (Instance (fst (snd (updateReleases io un parse C mp fs w rr rel)))) = Spec (Instance rr)"
  by (simp add: updateReleases_unfold Let_def)

lemma renderManifests_keeps:
  "Instance (snd (snd (renderManifests P E m w fs rr))) = Instance rr"
  by (auto simp: renderManifests_def Let_def dest: render_sets_frame split: sum.splits prod.splits option.splits)

interpretation deps: request_action "checkDependencies_action E" for E
  by unfold_locales
    (simp add: checkDependencies_action_def trainer_spec_def split_beta checkDependencies_keeps)

interpretation namespace: request_action "ensureNamespace_action E" for E
  by unfold_locales (simp add: ensureNamespace_action_def trainer_spec_def split_beta)

interpretation version: request_action "updateReleases_action E m" for E m
  by unfold_locales
    (simp add: updateReleases_action_def trainer_spec_def split_beta updateReleases_keeps)

interpretation manifests: request_action "renderManifests_action E m" for E m
  by unfold_locales
    (simp add: renderManifests_action_def trainer_spec_def split_beta renderManifests_keeps)

interpretation strip_legacy: request_action "stripRuntimeFinalizers E" for E
  by unfold_locales (simp add: stripRuntimeFinalizers_def trainer_spec_def split_beta)

interpretation finalization: request_action "cleanup E" for E
  by unfold_locales (simp add: cleanup_def trainer_spec_def Let_def split: prod.splits option.splits)

lemma recovery_action:
  assumes "request_action a"
  shows "request_action (withImmutableFieldRecovery C a)"
  using request_action.spec_kept [OF assms]
  by unfold_locales (simp add: withImmutableFieldRecovery_def trainer_spec_def split_beta)

lemma run_action:
  assumes "\<And>a. a \<in> set as \<Longrightarrow> request_action a"
  shows "request_action (run_actions as)"
proof
  fix s
  show "trainer_spec (snd (run_actions as s)) = trainer_spec s"
    using assms
  proof (induction as arbitrary: s)
    case (Cons a as)
    then have "request_action a" by simp
    from request_action.before_another [OF this, of "run_actions as" s] Cons show ?case by simp
  qed simp
qed

text \<open>
  One namespace per reconcile: provided the framework's deploy, status and garbage-collection
  actions leave the Trainer's specification alone, after any number of the reconciler's actions
  the application namespace resolved from the request is the one it started with, so every
  action and the collector work on the same namespace.
\<close>

lemma actions_share_namespace:
  assumes "\<And>opts. request_action (oe_deploy E opts)" and "\<And>f. request_action (oe_deployments E f)"
    and "\<And>f b g. request_action (oe_gc E f b g)"
  shows "nsFn (st_req (snd (run_actions (take n (actions (reconciler_plan_for E m))) s))) = nsFn (st_req s)"
proof -
  have "request_action a" if "a \<in> set (actions (reconciler_plan_for E m))" for a
    using that assms recovery_action [OF assms(1)] deps.request_action_axioms namespace.request_action_axioms
      version.request_action_axioms manifests.request_action_axioms strip_legacy.request_action_axioms
    by (auto simp: reconciler_plan_for_def)
  then have "request_action (run_actions (take n (actions (reconciler_plan_for E m))))"
    by (intro run_action) (meson in_set_takeD)
  then show ?thesis by (rule request_action.same_namespace)
qed

definition idle_with :: "'w dynamic_client \<Rightarrow> ('w, string) operator_env" where
  "idle_with D = \<lparr>oe_render = sample_render_env,
     oe_platform = \<lparr>DetectClusterType = (\<lambda>w. Inr ClusterTypeKubernetes),
        OperatorExists = (\<lambda>n w. Inl (Plain n)), GetSingleton = (\<lambda>g w. Inl (Plain [])),
        CustomResourceDefinitionExists = (\<lambda>g k w. Some (goerr.Status NotFound k))\<rparr>,
     oe_client = \<lparr>get_namespace = (\<lambda>n w. Inr \<lparr>ns_name = n, ns_labels = []\<rparr>),
        create_namespace = (\<lambda>n w. (None, w)), get_configmap = (\<lambda>name ns w. Inr []),
        delete_object = (\<lambda>k ns n w. (None, w))\<rparr>,
     oe_dynamic = D, oe_metadata = (\<lambda>d. Inr sample_metadata), oe_semver = Inr,
     oe_deploy = (\<lambda>opts s. (None, s)), oe_deployments = (\<lambda>f s. (None, s)),
     oe_gc = (\<lambda>f b g s. (None, s)), oe_collect = (\<lambda>b ns gvks t w. (None, w))\<rparr>"

abbreviation idle_env :: "(contents, string) operator_env" where
  "idle_env \<equiv> idle_with mem_client"

definition idle_state :: "(contents, string) op_state" where
  "idle_state = \<lparr>st_cluster = sample_runtimes, st_files = sample_work_fs, st_req = empty_request,
     st_release = \<lparr>rel_name = [], rel_version = []\<rparr>\<rparr>"

lemma idle_framework:
  "request_action (oe_deploy idle_env opts)" "request_action (oe_deployments idle_env f)"
  "request_action (oe_gc idle_env f b g)"
  by (unfold_locales, simp add: idle_with_def)+

lemma actions_share_namespace_witness:
  "nsFn (st_req (snd (run_actions (take 8 (actions (reconciler_plan_for idle_env sample_config_paths))) idle_state))) =
     nsFn (st_req idle_state)"
  by (rule actions_share_namespace [of idle_env, OF idle_framework])

section \<open>The namespace and the recovery\<close>

text \<open>
  What the API server promises of namespaces: a lookup reports what is stored, a creation stores
  the object, and a creation refused because the object exists means that it exists; no call
  changes another namespace.
\<close>

definition namespace_laws :: "('w \<Rightarrow> string \<Rightarrow> namespace_obj option) \<Rightarrow> 'w typed_client \<Rightarrow> bool" where
  "namespace_laws stored_ns C \<longleftrightarrow>
     (\<forall>n w ob. get_namespace C n w = Inr ob \<longrightarrow> stored_ns w n = Some ob) \<and>
     (\<forall>n w e. get_namespace C n w = Inl e \<and> is_not_found e \<longrightarrow> stored_ns w n = None) \<and>
     (\<forall>ob w w'. create_namespace C ob w = (None, w') \<longrightarrow>
        stored_ns w' = (stored_ns w)(ns_name ob \<mapsto> ob)) \<and>
     (\<forall>ob w e w'. create_namespace C ob w = (Some e, w') \<and> is_already_exists e \<longrightarrow>
        stored_ns w' (ns_name ob) \<noteq> None) \<and>
     (\<forall>ob w e w' n. create_namespace C ob w = (Some e, w') \<and> n \<noteq> ns_name ob \<longrightarrow>
        stored_ns w' n = stored_ns w n)"

text \<open>
  \<^verbatim>\<open>ensureNamespace\<close> on success: the application namespace exists, an existing one is left as it
  was (the cluster is not written at all), one that the action created carries the trainer label,
  losing the race to another creator is a success too, and no other namespace has changed.
\<close>

lemma ensureNamespace_ensures:
  assumes "namespace_laws stored_ns C" and "ensureNamespace C rr w = (None, w')"
  shows "let n = resolveNamespace (Instance rr) in stored_ns w' n \<noteq> None \<and>
    (stored_ns w n \<noteq> None \<longrightarrow> w' = w) \<and>
    (stored_ns w n = None \<and>
     fst (create_namespace C \<lparr>ns_name = n, ns_labels = [(PlatformPartOf, trainerPartOf)]\<rparr> w) = None \<longrightarrow>
       stored_ns w' n = Some \<lparr>ns_name = n, ns_labels = [(PlatformPartOf, trainerPartOf)]\<rparr>) \<and>
    (\<forall>k. k \<noteq> n \<longrightarrow> stored_ns w' k = stored_ns w k)"
proof -
  let ?n = "resolveNamespace (Instance rr)"
  let ?ob = "\<lparr>ns_name = ?n, ns_labels = [(PlatformPartOf, trainerPartOf)]\<rparr>"
  show ?thesis
  proof (cases "get_namespace C ?n w")
    case (Inr ob)
    with assms have "stored_ns w ?n = Some ob" unfolding namespace_laws_def by blast
    moreover from Inr assms(2) have "w' = w" by (simp add: ensureNamespace_def)
    ultimately show ?thesis by (simp add: Let_def)
  next
    case (Inl e)
    with assms(2) have nf: "is_not_found e" by (auto simp: ensureNamespace_def Let_def split: if_splits)
    with Inl assms(1) have none: "stored_ns w ?n = None" unfolding namespace_laws_def by blast
    obtain r where c: "create_namespace C ?ob w = (r, w')" and r: "r = None \<or> (\<exists>e. r = Some e \<and> is_already_exists e)"
      using Inl nf assms(2) by (auto simp: ensureNamespace_def Let_def split: prod.splits option.splits if_splits)
    show ?thesis
    proof (cases r)
      case None
      with c assms(1) have "stored_ns w' = (stored_ns w)(ns_name ?ob \<mapsto> ?ob)"
        unfolding namespace_laws_def by blast
      with none c show ?thesis by (simp add: Let_def)
    next
      case (Some e)
      with r have "is_already_exists e" by simp
      with Some c assms(1) have "stored_ns w' (ns_name ?ob) \<noteq> None"
        "\<forall>k. k \<noteq> ns_name ?ob \<longrightarrow> stored_ns w' k = stored_ns w k"
        unfolding namespace_laws_def by blast+
      with none c Some show ?thesis by (simp add: Let_def)
    qed
  qed
qed

definition map_client :: "(string \<Rightarrow> namespace_obj option) typed_client" where
  "map_client = \<lparr>get_namespace = (\<lambda>n w. case w n of None \<Rightarrow> Inl (goerr.Status NotFound n) | Some ob \<Rightarrow> Inr ob),
     create_namespace = (\<lambda>ob w. case w (ns_name ob) of
        None \<Rightarrow> (None, w(ns_name ob \<mapsto> ob)) | Some x \<Rightarrow> (Some (goerr.Status AlreadyExists (ns_name ob)), w)),
     get_configmap = (\<lambda>name ns w. Inl (goerr.Status NotFound name)),
     delete_object = (\<lambda>k ns n w. (None, w))\<rparr>"

lemma map_client_laws: "namespace_laws id map_client"
  by (auto simp: namespace_laws_def map_client_def split: option.splits)

lemma ensureNamespace_ensures_witness:
  "\<exists>w'. ensureNamespace map_client empty_request (\<lambda>_. None) = (None, w') \<and>
     w' defaultNamespace = Some \<lparr>ns_name = defaultNamespace, ns_labels = [(PlatformPartOf, trainerPartOf)]\<rparr>"
proof -
  have n: "resolveNamespace (Instance empty_request) = defaultNamespace"
    by (simp add: empty_request_def resolveNamespace_def)
  obtain w' where w': "ensureNamespace map_client empty_request (\<lambda>_. None) = (None, w')"
    by (simp add: ensureNamespace_def map_client_def Let_def)
  from ensureNamespace_ensures [OF map_client_laws w'] w' show ?thesis
    by (simp add: Let_def n) (simp add: map_client_def)
qed

lemma delete_deployments_fold:
  "delete_deployments C ress w =
     fold (\<lambda>r w. snd (delete_object C (u_gvk r) (u_namespace r) (u_name r) w))
       [r \<leftarrow> ress. GetKind r = ''Deployment''] w"
  by (induction ress arbitrary: w) simp_all

text \<open>
  \<^verbatim>\<open>withImmutableFieldRecovery\<close>: the outcome is always the deploy action's own, so a failed
  deployment stays failed and is retried. When it succeeded, or failed with an error that does
  not say that a field is immutable, nothing else happens; otherwise each Deployment among the
  resources the deploy action left in the request is deleted, in order, failures of a deletion
  not stopping the next, and nothing but the cluster changes.
\<close>

lemma withImmutableFieldRecovery_spec:
  "let (r, s') = deploy s; (r', s'') = withImmutableFieldRecovery C deploy s
   in r' = r \<and> s'' = s'\<lparr>st_cluster :=
     (case r of
        None \<Rightarrow> st_cluster s'
      | Some e \<Rightarrow> if (\<exists>us vs. err_text e = us @ ''field is immutable'' @ vs)
          then fold (\<lambda>x w. snd (delete_object C (u_gvk x) (u_namespace x) (u_name x) w))
            [x \<leftarrow> Resources (st_req s'). GetKind x = ''Deployment''] (st_cluster s')
          else st_cluster s')\<rparr>"
  by (auto simp: withImmutableFieldRecovery_def isImmutableFieldError_def contains_iff
      delete_deployments_fold split: prod.splits option.splits)

section \<open>The gate in front of a deployment\<close>

lemma take_plan:
  "take 4 (actions (reconciler_plan_for E m)) =
     [checkDependencies_action E, ensureNamespace_action E, updateReleases_action E m, renderManifests_action E m]"
  "actions (reconciler_plan_for E m) =
     take 4 (actions (reconciler_plan_for E m)) @ drop 4 (actions (reconciler_plan_for E m))"
  by (simp_all add: reconciler_plan_for_def)

lemma ensureNamespace_cong:
  "Instance rr = Instance rr' \<Longrightarrow> ensureNamespace C rr = ensureNamespace C rr'"
  by (simp add: ensureNamespace_def fun_eq_iff)

lemma ok_dependencies: "fst (checkDependencies U P w rr) = None \<longleftrightarrow> dependencies_met U P w"
  using checkDependencies_table [of U P w rr] dependency_checks_met [of U P w] by auto

lemma bad_dependencies:
  assumes "\<not> dependencies_met U P w"
  shows "\<exists>e reason msg. checkDependencies U P w rr = (Some e, MarkTrue degradedCondition reason msg rr)"
proof -
  obtain r rr' where run: "checkDependencies U P w rr = (r, rr')" by fastforce
  from assms run ok_dependencies [of U P w rr] obtain e where "r = Some e" by auto
  moreover obtain reason msg where "rr' = MarkTrue degradedCondition reason msg rr"
    using checkDependencies_table [of U P w rr] dependency_checks_met [of U P w] assms run
    by (auto split: option.splits)
  ultimately show ?thesis using run by blast
qed

text \<open>
  C4: Missing dependencies stop everything: when the dependencies are not met, a reconcile fails
  after its first action and its whole effect is one Degraded mark on the request; no namespace,
  file, cluster object or release is touched.
\<close>

theorem unmet_dependencies_stop_reconcile:
  assumes "runs_in_order run"
    and "\<not> dependencies_met (re_unstructured (oe_render E)) (oe_platform E) (st_cluster s)"
  shows "\<exists>e reason msg. run (actions (reconciler_plan_for E m)) s =
    (Some e, s\<lparr>st_req := MarkTrue degradedCondition reason msg (st_req s)\<rparr>)"
proof -
  from bad_dependencies [OF assms(2)] obtain e reason msg where
    "checkDependencies (re_unstructured (oe_render E)) (oe_platform E) (st_cluster s) (st_req s) =
       (Some e, MarkTrue degradedCondition reason msg (st_req s))" by blast
  with assms(1) show ?thesis
    by (auto simp: runs_in_order_def reconciler_plan_for_def checkDependencies_action_def)
qed

theorem unmet_dependencies_stop_reconcile_witness:
  "\<exists>e reason msg. run_actions (actions (reconciler_plan_for idle_env sample_config_paths)) idle_state =
    (Some e, idle_state\<lparr>st_req := MarkTrue degradedCondition reason msg (st_req idle_state)\<rparr>)"
  by (rule unmet_dependencies_stop_reconcile)
    (simp_all add: runs_in_order_def dependencies_met_def idle_with_def)

lemma first_four:
  assumes "run_actions (take 4 (actions (reconciler_plan_for E m))) s = (r, s')"
  defines "ns \<equiv> ensureNamespace (oe_client E) (st_req s) (st_cluster s)"
  shows "if r = None
    then dependencies_met (re_unstructured (oe_render E)) (oe_platform E) (st_cluster s) \<and>
         ns = (None, st_cluster s') \<and> Generated (st_req s')
    else st_cluster s' \<in> {st_cluster s, snd ns}"
proof -
  let ?U = "re_unstructured (oe_render E)"
  obtain r1 rr1 where c: "checkDependencies ?U (oe_platform E) (st_cluster s) (st_req s) = (r1, rr1)" by fastforce
  then have met: "r1 = None \<longleftrightarrow> dependencies_met ?U (oe_platform E) (st_cluster s)"
    using ok_dependencies by (metis fst_conv)
  have "Instance rr1 = Instance (st_req s)" using c checkDependencies_keeps by (metis snd_conv)
  then have cong: "ensureNamespace (oe_client E) rr1 = ensureNamespace (oe_client E) (st_req s)"
    by (rule ensureNamespace_cong)
  obtain r2 w2 where n: "ns = (r2, w2)" by fastforce
  have gen: "Generated rr4" if "renderManifests P R m w fs rr = (None, fs4, rr4)" for P R w fs rr fs4 rr4
    using that by (auto simp: renderManifests_def Let_def split: sum.splits prod.splits option.splits)
  show ?thesis
    using assms(1) c met n gen cong
    by (auto simp: take_plan(1) checkDependencies_action_def ensureNamespace_action_def ns_def
        updateReleases_action_def renderManifests_action_def split: prod.splits option.splits)
qed

text \<open>
  C3: Nothing is deployed from an incomplete reconcile. Either the deploy action and the actions
  after it run from a state in which the dependencies were met, the namespace was ensured, and
  the manifests were rendered completely; or the reconcile fails and the cluster is as it was
  before or as ensuring the namespace left it.
\<close>

theorem deploy_only_when_ready:
  assumes "runs_in_order run"
  shows "let plan = actions (reconciler_plan_for E m);
             ns = ensureNamespace (oe_client E) (st_req s) (st_cluster s);
             (r, s') = run plan s
    in (\<exists>s4. dependencies_met (re_unstructured (oe_render E)) (oe_platform E) (st_cluster s) \<and>
          ns = (None, st_cluster s4) \<and> Generated (st_req s4) \<and>
          run_actions (take 4 plan) s = (None, s4) \<and> run_actions (drop 4 plan) s4 = (r, s')) \<or>
       (r \<noteq> None \<and> st_cluster s' \<in> {st_cluster s, snd ns})"
proof -
  let ?plan = "actions (reconciler_plan_for E m)"
  obtain r1 s1 where one: "run_actions (take 4 ?plan) s = (r1, s1)" by fastforce
  have all: "run ?plan s = (case (r1, s1) of (Some e, s') \<Rightarrow> (Some e, s') | (None, s') \<Rightarrow> run_actions (drop 4 ?plan) s')"
    using assms run_actions_append [of "take 4 ?plan" "drop 4 ?plan" s] one
    by (simp add: runs_in_order_def take_plan(2) [symmetric])
  show ?thesis
  proof (cases r1)
    case None
    with first_four [OF one] one all show ?thesis by (auto simp: Let_def split: prod.splits)
  next
    case (Some e)
    with first_four [OF one] all show ?thesis by (auto simp: Let_def)
  qed
qed

definition ready_env :: "(contents, string) operator_env" where
  "ready_env = idle_env\<lparr>oe_platform := (oe_platform idle_env)\<lparr>
     CustomResourceDefinitionExists := (\<lambda>g k w. None)\<rparr>\<rparr>"

lemma ready_run:
  "\<exists>s'. run_actions (actions (reconciler_plan_for ready_env sample_config_paths)) idle_state = (None, s')"
proof -
  let ?rr = "MarkFalse degradedCondition ''DependenciesAvailable'' ''All required dependencies are available'' empty_request"
  have 1: "checkDependencies_action ready_env idle_state = (None, idle_state\<lparr>st_req := ?rr\<rparr>)"
    by (simp add: checkDependencies_action_def ready_env_def idle_with_def idle_state_def checkDependencies_def
        checkJobSetAvailable_def)
  have 2: "ensureNamespace_action ready_env s = (None, s)" for s
    by (simp add: ensureNamespace_action_def ensureNamespace_def ready_env_def idle_with_def Let_def)
  have "component_releases no_faults un [''template''] sample_work_fs = []" for un
    by (simp add: component_releases_def getComponentReleases_def read_metadata_def metadata_path_def
        os_read_file_def os_open_def sample_work_fs_def)
  then have 3: "updateReleases_action ready_env sample_config_paths (idle_state\<lparr>st_req := ?rr\<rparr>) =
      (None, idle_state\<lparr>st_req := ?rr\<rparr>)"
    by (simp add: updateReleases_action_def updateReleases_unfold ready_env_def idle_with_def idle_state_def
        sample_render_env_def sample_config_paths_def published_version_def getPlatformVersion_def
        map_index_def new_releases_def set_releases_same Let_def)
  obtain rr4 where 4: "renderManifests_action ready_env sample_config_paths (idle_state\<lparr>st_req := ?rr\<rparr>) =
      (None, idle_state\<lparr>st_req := rr4\<rparr>)"
    using sample_render [of "oe_platform ready_env" sample_runtimes ?rr]
    by (simp add: renderManifests_action_def ready_env_def idle_with_def idle_state_def resolveNamespace_def empty_request_def)
  obtain c where 7: "removeRuntimeFinalizers mem_client sample_runtimes = (None, c)"
    using sample_remove_ok by blast
  have strip: "stripRuntimeFinalizers ready_env (idle_state\<lparr>st_req := rr4\<rparr>) =
      (None, idle_state\<lparr>st_req := rr4, st_cluster := c\<rparr>)"
    using 7 by (simp add: stripRuntimeFinalizers_def ready_env_def idle_with_def idle_state_def)
  show ?thesis
    using 1 2 3 4 strip
    by (simp add: reconciler_plan_for_def withImmutableFieldRecovery_def)
      (simp add: ready_env_def idle_with_def strip [unfolded ready_env_def idle_with_def])
qed

theorem deploy_only_when_ready_witness:
  "\<exists>s4. Generated (st_req s4) \<and>
     run_actions (take 4 (actions (reconciler_plan_for ready_env sample_config_paths))) idle_state = (None, s4)"
proof -
  have "runs_in_order run_actions" by (simp add: runs_in_order_def)
  from deploy_only_when_ready [OF this, of ready_env sample_config_paths idle_state] ready_run
  show ?thesis by (auto simp: Let_def)
qed

section \<open>The finalizer\<close>

text \<open>
  C10: The finalizer \<^verbatim>\<open>cleanup\<close>. When the legacy finalizers cannot be removed it reports that error
  and neither deletes a runtime nor collects anything, so the Trainer object stays. Otherwise,
  with an API server that answers, the collector runs over the application namespace with both
  runtime kinds exempt, on a cluster in which every labelled runtime that is left is being
  deleted and no longer carries the legacy finalizer, and its outcome is the finalizer's.
\<close>

theorem cleanup_tears_down:
  assumes "dynamic_laws content (oe_dynamic E)" and "distinct_objects (content (st_cluster s))"
  shows "case removeRuntimeFinalizers (oe_dynamic E) (st_cluster s) of
     (Some e, w) \<Rightarrow> cleanup E s = (Some e, s\<lparr>st_cluster := w\<rparr>)
   | (None, w) \<Rightarrow> \<exists>w1.
       (case oe_collect E False (nsFn (st_req s)) [clusterTrainingRuntimeGVK, trainingRuntimeGVK]
               (Instance (st_req s)) w1 of
          (r, w2) \<Rightarrow> cleanup E s = (r, s\<lparr>st_cluster := w2\<rparr>)) \<and>
       (dynamic_available content (oe_dynamic E) \<longrightarrow>
          (\<forall>g\<in>set runtime_gvrs. \<forall>os. content w1 g = Some os \<longrightarrow>
             (\<forall>x\<in>set os. labelled x \<longrightarrow> u_deleting x \<and> legacyTrainerFinalizer \<notin> set (u_finalizers x))))"
proof -
  let ?D = "oe_dynamic E"
  obtain r w where rw: "removeRuntimeFinalizers ?D (st_cluster s) = (r, w)" by fastforce
  show ?thesis
  proof (cases r)
    case (Some e)
    with rw show ?thesis by (simp add: cleanup_def)
  next
    case None
    have "u_deleting x \<and> legacyTrainerFinalizer \<notin> set (u_finalizers x)"
      if "dynamic_available content ?D" "g \<in> set runtime_gvrs"
        "content (cleanupTrainerResources ?D w) g = Some os" "x \<in> set os" "labelled x" for g os x
      using runtime_teardown [OF assms(1) that(1) assms(2) _ that(2-5)] rw None by simp
    with rw None show ?thesis
      by (auto simp: cleanup_def nsFn_def Let_def intro!: exI [of _ "cleanupTrainerResources ?D w"]
          split: prod.splits)
  qed
qed

theorem cleanup_tears_down_witness:
  "\<exists>w w1. removeRuntimeFinalizers mem_client sample_runtimes = (None, w) \<and>
     cleanup idle_env idle_state = (None, idle_state\<lparr>st_cluster := w1\<rparr>) \<and>
     (\<forall>g\<in>set runtime_gvrs. \<forall>os. w1 g = Some os \<longrightarrow>
        (\<forall>x\<in>set os. labelled x \<longrightarrow> u_deleting x \<and> legacyTrainerFinalizer \<notin> set (u_finalizers x)))"
proof -
  obtain w where w: "removeRuntimeFinalizers mem_client sample_runtimes = (None, w)"
    using sample_remove_ok by blast
  have laws: "dynamic_laws id (oe_dynamic idle_env)" "distinct_objects (id (st_cluster idle_state))"
    "dynamic_available id (oe_dynamic idle_env)"
    using mem_client_laws mem_client_available sample_runtimes_distinct
    by (simp_all add: idle_with_def idle_state_def)
  have "oe_dynamic idle_env = mem_client" "st_cluster idle_state = sample_runtimes"
    "oe_collect idle_env = (\<lambda>b ns gvks t w. (None, w))"
    by (simp_all add: idle_with_def idle_state_def)
  with cleanup_tears_down [where content = id and E = idle_env and s = idle_state, OF laws(1,2)] w laws(3)
  show ?thesis by auto
qed

section \<open>Building the reconciler\<close>

text \<open>
  \<^verbatim>\<open>NewReconciler\<close> fails exactly when the framework cannot build the controller or the watch on
  the platform ConfigMap cannot be set up, and lets only that ConfigMap through the watch. Missing
  or unreadable component metadata is no failure: the reconciler starts with the empty release,
  and with the first metadata release when there is one; the plan is the same in both cases.
\<close>

lemma NewReconciler_outcome:
  "case NewReconciler build watch_config zero E m fs of
     Inl e \<Rightarrow> build (reconciler_plan_for E m) = Some e \<or>
       (\<exists>e'. watch_config ''ConfigMap'' (ToNamed TrainerInstanceName) (\<lambda>name. name = ''odh-trainer-config'') = Some e' \<and>
          e = Wrap ''watching platform config'' e')
   | Inr (plan, rel) \<Rightarrow> build (reconciler_plan_for E m) = None \<and>
       watch_config ''ConfigMap'' (ToNamed TrainerInstanceName) (\<lambda>name. name = ''odh-trainer-config'') = None \<and> plan = reconciler_plan_for E m \<and>
       rel = (case getComponentReleases (re_io (oe_render E)) (oe_metadata E) (ManifestsPath m) fs of
                Inr (r # rs) \<Rightarrow> (case oe_semver E (cr_version r) of
                   Inr v \<Rightarrow> \<lparr>rel_name = cr_name r, rel_version = v\<rparr> | Inl e \<Rightarrow> zero)
              | _ \<Rightarrow> zero)"
proof -
  have "platform_config_event = (\<lambda>name. name = ''odh-trainer-config'')"
    by (simp add: fun_eq_iff platform_config_event_def platformConfigMapName_def)
  then show ?thesis
    by (auto simp: NewReconciler_def Let_def readBootstrapRelease_def getComponentReleases_def
        split: option.splits sum.splits list.splits)
qed

text \<open>
  A watch that maps its events to a name asks for the one Trainer the API server admits, so no
  event of the JobSetOperator is lost on an object that cannot exist.
\<close>

lemma named_watch_hits_instance:
  "WatchesGVK g opts \<in> set (watches (reconciler_plan_for E m)) \<Longrightarrow> ToNamed n \<in> set opts \<Longrightarrow>
     admitted t \<longleftrightarrow> tr_name t = n"
  by (auto simp: reconciler_plan_for_def admitted_def TrainerInstanceName_def)

end
