(* ===== verification/TLS_Profile.thy ===== *)
theory TLS_Profile
  imports Go_FS Operand_TLS
begin

text \<open>
  The cluster TLS profile of the operator's own servers: its resolution at start-up and the
  watcher that restarts the process when it changes (internal/tls/profile.go), and the options
  of the metrics server (internal/tls/metrics.go).

  A \<^verbatim>\<open>tls.Config\<close> has the certificate callback this repository sets and, as an abstract component of
  type \<open>'c\<close>, the rest that other packages set. A certificate callback reads the files when it
  is called, so it is a function of the file system of that moment.
\<close>

section \<open>TLS configurations\<close>

record ('c, 'cert) tls_config =
  tls_rest :: 'c
  GetCertificate :: "(fnode \<Rightarrow> 'cert result) option"

type_synonym ('c, 'cert) tls_opt = "('c, 'cert) tls_config \<Rightarrow> ('c, 'cert) tls_config"

definition apply_opts :: "('c, 'cert) tls_opt list \<Rightarrow> ('c, 'cert) tls_opt" where
  "apply_opts opts c = fold (\<lambda>opt c. opt c) opts c"

section \<open>Resolving the profile\<close>

text \<open>The framework's answer to a load, and the functions of other packages that are called.\<close>

record loaded_profile =
  loaded_Spec :: TLSProfileSpec
  loaded_AdherencePolicy :: string
  loaded_UsedFallback :: bool
  loaded_Watchable :: bool

record ('w, 'c, 'cert) tls_api =
  LoadWithAdherence :: "'w \<Rightarrow> loaded_profile result"
  ShouldHonorClusterTLSProfile :: "string \<Rightarrow> bool"
  TLSProfileIntermediate :: TLSProfileSpec
  ConfigFromProfileWithError :: "TLSProfileSpec \<Rightarrow> (('c, 'cert) tls_opt \<times> string list) result"
  SetNextProtosHTTP2 :: "('c, 'cert) tls_opt"

record ('c, 'cert) Result =
  res_Profile :: TLSProfileSpec
  res_ProfileHonored :: bool
  res_Adherence :: string
  res_UsedFallback :: bool
  res_Watchable :: bool
  res_TLSOpts :: "('c, 'cert) tls_opt list"
  res_EffectiveProfile :: TLSProfileSpec

definition Resolve :: "('w, 'c, 'cert) tls_api \<Rightarrow> 'w \<Rightarrow> ('c, 'cert) Result result" where
  "Resolve A w =
     (case LoadWithAdherence A w of
        Inl e \<Rightarrow> Inl (Wrap ''loading APIServer TLS profile and adherence'' e)
      | Inr loaded \<Rightarrow>
         (let profileHonored = ShouldHonorClusterTLSProfile A (loaded_AdherencePolicy loaded);
              effectiveProfile = (if \<not> profileHonored then TLSProfileIntermediate A else loaded_Spec loaded)
          in case ConfigFromProfileWithError A effectiveProfile of
               Inl e \<Rightarrow> Inl (Wrap ''building TLS config from profile'' e)
             | Inr (tlsConfigFn, unsupported) \<Rightarrow>
                 Inr \<lparr>res_Profile = loaded_Spec loaded,
                      res_ProfileHonored = profileHonored,
                      res_Adherence = loaded_AdherencePolicy loaded,
                      res_UsedFallback = loaded_UsedFallback loaded,
                      res_Watchable = loaded_Watchable loaded,
                      res_TLSOpts = [tlsConfigFn, SetNextProtosHTTP2 A],
                      res_EffectiveProfile = effectiveProfile\<rparr>))"

section \<open>The watcher\<close>

text \<open>
  The framework's watcher object, with the callbacks this repository installs. A callback acts on
  the state of the process; \<open>cancel\<close> is the cancel function of the root context.
\<close>

record 's watcher =
  InitialTLSProfileSpec :: TLSProfileSpec
  InitialTLSAdherencePolicy :: string
  OnAdherencePolicyChange :: "('s \<Rightarrow> 's) option"
  OnProfileChange :: "('s \<Rightarrow> 's) option"

definition newSecurityProfileWatcher :: "('c, 'cert) Result \<Rightarrow> ('s \<Rightarrow> 's) \<Rightarrow> 's watcher" where
  "newSecurityProfileWatcher result cancel =
     \<lparr>InitialTLSProfileSpec = res_Profile result,
      InitialTLSAdherencePolicy = res_Adherence result,
      OnAdherencePolicyChange = Some cancel,
      OnProfileChange = (if res_ProfileHonored result \<or> res_UsedFallback result
        then Some cancel else None)\<rparr>"

text \<open>The result may be nil; \<open>setup\<close> is \<^verbatim>\<open>SetupWithManager\<close> on the manager's state.\<close>

definition SetupWatcher ::
  "('s watcher \<Rightarrow> 'm \<Rightarrow> goerr option \<times> 'm) \<Rightarrow> ('c, 'cert) Result option \<Rightarrow> ('s \<Rightarrow> 's) \<Rightarrow> 'm \<Rightarrow>
     goerr option \<times> 'm" where
  "SetupWatcher setup result cancel m =
     (case result of
        None \<Rightarrow> (None, m)
      | Some res \<Rightarrow>
          (if \<not> res_Watchable res then (None, m)
           else case setup (newSecurityProfileWatcher res cancel) m of
                  (Some e, m') \<Rightarrow> (Some (Wrap ''setting up TLS profile watcher'' e), m')
                | (None, m') \<Rightarrow> (None, m')))"

section \<open>The metrics server\<close>

text \<open>
  \<^verbatim>\<open>tls.LoadX509KeyPair\<close>: both files are read, certificate first, and decoded together by
  \<open>keypair\<close> (\<^verbatim>\<open>tls.X509KeyPair\<close>).
\<close>

definition LoadX509KeyPair ::
  "io_env \<Rightarrow> (string \<Rightarrow> string \<Rightarrow> 'cert result) \<Rightarrow> path \<Rightarrow> path \<Rightarrow> fnode \<Rightarrow> 'cert result" where
  "LoadX509KeyPair io keypair certPath keyPath fs =
     (case os_read_file io certPath fs of
        Inl e \<Rightarrow> Inl e
      | Inr certPEM \<Rightarrow>
         (case os_read_file io keyPath fs of Inl e \<Rightarrow> Inl e | Inr keyPEM \<Rightarrow> keypair certPEM keyPEM))"

definition loadMetricsCertificate ::
  "io_env \<Rightarrow> (string \<Rightarrow> string \<Rightarrow> 'cert result) \<Rightarrow> path \<Rightarrow> ('c, 'cert) tls_opt" where
  "loadMetricsCertificate io keypair certDir c =
     c\<lparr>GetCertificate := Some (\<lambda>fs.
        case LoadX509KeyPair io keypair (certDir @ [''tls.crt'']) (certDir @ [''tls.key'']) fs of
          Inl e \<Rightarrow> Inl (Wrap ''loading metrics serving certificate'' e)
        | Inr cert \<Rightarrow> Inr cert)\<rparr>"

text \<open>The filter provider is an opaque value of another package; \<^const>\<open>None\<close> is an empty certificate path.\<close>

record ('c, 'cert, 'f) metrics_options =
  BindAddress :: string
  SecureServing :: bool
  FilterProvider :: "'f option"
  CertDir :: "path option"
  TLSOpts :: "('c, 'cert) tls_opt list"

definition MetricsServerOptions ::
  "io_env \<Rightarrow> (string \<Rightarrow> string \<Rightarrow> 'cert result) \<Rightarrow> 'f \<Rightarrow> string \<Rightarrow> bool \<Rightarrow> path option \<Rightarrow>
     ('c, 'cert) tls_opt list \<Rightarrow> ('c, 'cert, 'f) metrics_options" where
  "MetricsServerOptions io keypair authFilter bindAddress secure certDir tlsOpts =
     (let opts = \<lparr>BindAddress = bindAddress, SecureServing = secure, FilterProvider = None,
                  CertDir = None, TLSOpts = [] @ tlsOpts\<rparr>;
          opts = (if secure then opts\<lparr>FilterProvider := Some authFilter\<rparr> else opts)
      in case certDir of
           None \<Rightarrow> opts
         | Some d \<Rightarrow> opts\<lparr>CertDir := Some d,
             TLSOpts := TLSOpts opts @ [loadMetricsCertificate io keypair d]\<rparr>)"

section \<open>Properties\<close>

lemma Resolve_cases:
  assumes "Resolve A w = Inr res"
  obtains loaded fn unsupported where "LoadWithAdherence A w = Inr loaded"
    "ConfigFromProfileWithError A (res_EffectiveProfile res) = Inr (fn, unsupported)"
    "res = \<lparr>res_Profile = loaded_Spec loaded,
        res_ProfileHonored = ShouldHonorClusterTLSProfile A (loaded_AdherencePolicy loaded),
        res_Adherence = loaded_AdherencePolicy loaded, res_UsedFallback = loaded_UsedFallback loaded,
        res_Watchable = loaded_Watchable loaded, res_TLSOpts = [fn, SetNextProtosHTTP2 A],
        res_EffectiveProfile = (if ShouldHonorClusterTLSProfile A (loaded_AdherencePolicy loaded)
          then loaded_Spec loaded else TLSProfileIntermediate A)\<rparr>"
  using assms by (auto simp: Resolve_def Let_def split: sum.splits if_splits)

text \<open>
  \<^verbatim>\<open>Resolve\<close> never serves a profile other than the one policy asks for: it fails when the profile
  cannot be loaded or no TLS configuration can be built from the effective profile, and
  otherwise the effective profile is the cluster's when its adherence policy says to honour it
  and the Intermediate profile when not, and the first TLS option is the one built from
  exactly that profile.
\<close>

lemma Resolve_effective:
  "case LoadWithAdherence A w of
     Inl e \<Rightarrow> Resolve A w = Inl (Wrap ''loading APIServer TLS profile and adherence'' e)
   | Inr loaded \<Rightarrow>
       (let effective = (if ShouldHonorClusterTLSProfile A (loaded_AdherencePolicy loaded)
          then loaded_Spec loaded else TLSProfileIntermediate A)
        in case ConfigFromProfileWithError A effective of
             Inl e \<Rightarrow> isl (Resolve A w)
           | Inr (fn, unsupported) \<Rightarrow> \<exists>res. Resolve A w = Inr res \<and>
               res_EffectiveProfile res = effective \<and> hd (res_TLSOpts res) = fn \<and>
               res_Profile res = loaded_Spec loaded \<and>
               res_Adherence res = loaded_AdherencePolicy loaded)"
  by (auto simp: Resolve_def Let_def split: sum.splits)

text \<open>
  What the framework's watcher promises: \<open>calls\<close> gives the callbacks it invokes on seeing a
  profile and an adherence policy. A change of either against the initial value invokes the
  callback for it when there is one, and no other callback is invoked.
\<close>

definition watcher_contract :: "('s watcher \<Rightarrow> TLSProfileSpec \<Rightarrow> string \<Rightarrow> ('s \<Rightarrow> 's) list) \<Rightarrow> bool" where
  "watcher_contract calls \<longleftrightarrow> (\<forall>W p a.
     set (calls W p a) =
       (if a \<noteq> InitialTLSAdherencePolicy W then set_option (OnAdherencePolicyChange W) else {}) \<union>
       (if p \<noteq> InitialTLSProfileSpec W then set_option (OnProfileChange W) else {}))"

definition react :: "('s \<Rightarrow> 's) list \<Rightarrow> 's \<Rightarrow> 's" where
  "react fs s = fold (\<lambda>f s. f s) fs s"

lemma react_cancel:
  "set fs \<subseteq> {\<lambda>_. True} \<Longrightarrow> react fs b \<longleftrightarrow> b \<or> fs \<noteq> []"
  by (induction fs arbitrary: b) (auto simp: react_def)

text \<open>When the callbacks of this repository stop the process, and that a change of the effective profile is such a case.\<close>

lemma watcher_reacts:
  assumes "watcher_contract calls"
  shows "react (calls (newSecurityProfileWatcher res (\<lambda>_. True)) p a) False \<longleftrightarrow>
    a \<noteq> res_Adherence res \<or> p \<noteq> res_Profile res \<and> (res_ProfileHonored res \<or> res_UsedFallback res)"
proof -
  let ?calls = "calls (newSecurityProfileWatcher res (\<lambda>_. True)) p a"
  have set: "set ?calls = (if a \<noteq> res_Adherence res then {\<lambda>_. True} else {}) \<union>
      (if p \<noteq> res_Profile res \<and> (res_ProfileHonored res \<or> res_UsedFallback res) then {\<lambda>_. True} else {})"
    using assms by (auto simp: watcher_contract_def newSecurityProfileWatcher_def)
  then have "react ?calls False \<longleftrightarrow> ?calls \<noteq> []" by (subst react_cancel) auto
  also have "\<dots> \<longleftrightarrow> a \<noteq> res_Adherence res \<or>
      p \<noteq> res_Profile res \<and> (res_ProfileHonored res \<or> res_UsedFallback res)"
    using set by (auto simp flip: set_empty split: if_splits)
  finally show ?thesis .
qed

lemma effective_change:
  assumes "Resolve A w = Inr res" and "Resolve A w' = Inr res'"
    and "res_EffectiveProfile res' \<noteq> res_EffectiveProfile res"
  shows "res_Adherence res' \<noteq> res_Adherence res \<or>
    res_Profile res' \<noteq> res_Profile res \<and> (res_ProfileHonored res \<or> res_UsedFallback res)"
  using assms by (elim Resolve_cases) (auto split: if_splits)

text \<open>
  No stale TLS settings: with the watcher \<^verbatim>\<open>SetupWatcher\<close> installs, the process is told to shut
  down whenever resolving the profile again would give another effective profile. It is also
  told so on any other change of the adherence policy, and on a change of the profile exactly
  when the profile is honoured or was a fallback; when nothing changed it keeps running.
\<close>

lemma watcher_restarts_on_change:
  assumes "watcher_contract calls" and "Resolve A w = Inr res" and "Resolve A w' = Inr res'"
  shows "let stopped = react (calls (newSecurityProfileWatcher res (\<lambda>_. True))
           (res_Profile res') (res_Adherence res')) False
    in (res_EffectiveProfile res' \<noteq> res_EffectiveProfile res \<longrightarrow> stopped) \<and>
       stopped = (res_Adherence res' \<noteq> res_Adherence res \<or>
         res_Profile res' \<noteq> res_Profile res \<and> (res_ProfileHonored res \<or> res_UsedFallback res))"
  using watcher_reacts [OF assms(1), of res "res_Profile res'" "res_Adherence res'"]
    effective_change [OF assms(2,3)]
  unfolding Let_def by blast

definition sample_calls :: "bool watcher \<Rightarrow> TLSProfileSpec \<Rightarrow> string \<Rightarrow> (bool \<Rightarrow> bool) list" where
  "sample_calls W p a =
     (if a \<noteq> InitialTLSAdherencePolicy W
      then (case OnAdherencePolicyChange W of None \<Rightarrow> [] | Some f \<Rightarrow> [f]) else []) @
     (if p \<noteq> InitialTLSProfileSpec W
      then (case OnProfileChange W of None \<Rightarrow> [] | Some f \<Rightarrow> [f]) else [])"

lemma set_case_option: "set (case x of None \<Rightarrow> [] | Some f \<Rightarrow> [f]) = set_option x"
  by (cases x) simp_all

lemma sample_calls_set:
  "set (sample_calls W p a) =
     (if a \<noteq> InitialTLSAdherencePolicy W then set_option (OnAdherencePolicyChange W) else {}) \<union>
     (if p \<noteq> InitialTLSProfileSpec W then set_option (OnProfileChange W) else {})"
  by (simp add: sample_calls_def set_case_option if_distrib [of set])

definition sample_tls_api :: "(loaded_profile, unit, string) tls_api" where
  "sample_tls_api = \<lparr>LoadWithAdherence = Inr, ShouldHonorClusterTLSProfile = (\<lambda>a. a = ''StrictAllComponents''),
     TLSProfileIntermediate = sample_profile, ConfigFromProfileWithError = (\<lambda>p. Inr (id, [])),
     SetNextProtosHTTP2 = id\<rparr>"

definition sample_loaded :: "TLSProfileSpec \<Rightarrow> loaded_profile" where
  "sample_loaded p = \<lparr>loaded_Spec = p, loaded_AdherencePolicy = ''StrictAllComponents'',
     loaded_UsedFallback = False, loaded_Watchable = True\<rparr>"

definition weak_profile :: TLSProfileSpec where
  "weak_profile = \<lparr>Ciphers = [], Groups = [], MinTLSVersion = ''VersionTLS10''\<rparr>"

definition sample_result :: "TLSProfileSpec \<Rightarrow> (unit, string) Result" where
  "sample_result p = \<lparr>res_Profile = p, res_ProfileHonored = True, res_Adherence = ''StrictAllComponents'',
     res_UsedFallback = False, res_Watchable = True, res_TLSOpts = [id, id], res_EffectiveProfile = p\<rparr>"

lemma sample_resolve: "Resolve sample_tls_api (sample_loaded p) = Inr (sample_result p)"
  by (simp add: Resolve_def sample_tls_api_def sample_loaded_def sample_result_def)

lemma watcher_restarts_on_change_witness:
  "react (sample_calls (newSecurityProfileWatcher (sample_result sample_profile) (\<lambda>_. True))
     weak_profile ''StrictAllComponents'') False"
proof -
  have "watcher_contract sample_calls" unfolding watcher_contract_def by (intro allI sample_calls_set)
  from watcher_restarts_on_change [OF this sample_resolve sample_resolve,
      of sample_profile weak_profile]
  have "weak_profile \<noteq> sample_profile \<longrightarrow>
      react (sample_calls (newSecurityProfileWatcher (sample_result sample_profile) (\<lambda>_. True))
        weak_profile ''StrictAllComponents'') False"
    by (simp add: Let_def sample_result_def)
  then show ?thesis by (simp add: sample_profile_def weak_profile_def)
qed

text \<open>
  The metrics server: it authenticates and authorises requests exactly when it serves securely,
  and when a certificate directory is given the configuration its options produce loads the key
  pair from that directory at each handshake, whatever the other options did, so a renewed
  certificate is picked up and a missing one is an error and not a self-signed replacement.
  Without a directory the options are the given ones.
\<close>

lemma MetricsServerOptions_spec:
  fixes tlsOpts :: "('c, 'cert) tls_opt list"
  shows "let m = MetricsServerOptions io keypair authFilter addr secure certDir tlsOpts
    in FilterProvider m = (if secure then Some authFilter else None) \<and>
       BindAddress m = addr \<and> SecureServing m = secure \<and> CertDir m = certDir \<and>
       (case certDir of
          None \<Rightarrow> TLSOpts m = tlsOpts
        | Some d \<Rightarrow> \<exists>load. \<forall>c.
            GetCertificate (apply_opts (TLSOpts m) c) = Some load \<and>
            tls_rest (apply_opts (TLSOpts m) c) = tls_rest (apply_opts tlsOpts c) \<and>
            (\<forall>fs. load fs =
               (case (os_read_file io (d @ [''tls.crt'']) fs, os_read_file io (d @ [''tls.key'']) fs) of
                  (Inr crt, Inr key) \<Rightarrow> (case keypair crt key of
                     Inr cert \<Rightarrow> Inr cert
                   | Inl e \<Rightarrow> Inl (Wrap ''loading metrics serving certificate'' e))
                | (Inr crt, Inl e) \<Rightarrow> Inl (Wrap ''loading metrics serving certificate'' e)
                | (Inl e, x) \<Rightarrow> Inl (Wrap ''loading metrics serving certificate'' e))))"
  by (auto simp: MetricsServerOptions_def Let_def apply_opts_def loadMetricsCertificate_def
      LoadX509KeyPair_def split: option.splits sum.splits)

end
