(* ===== verification/Command_Line.thy ===== *)
theory Command_Line
  imports Go_FS
begin

text \<open>
  The command line of the process: the flags \<^verbatim>\<open>main\<close> declares (cmd/main.go) and \<^verbatim>\<open>flag.Parse\<close> of the Go
  standard library, which sets them. The flags that other packages register on the same flag set
  are an argument: for a name, whether the flag is boolean and how it stores a value in their own
  state.
\<close>

section \<open>Flags\<close>

record flags =
  metrics_bind_address :: string
  metrics_secure :: bool
  metrics_cert_path :: string
  health_probe_bind_address :: string

definition default_flags :: flags where
  "default_flags = \<lparr>metrics_bind_address = '':8443'', metrics_secure = True, metrics_cert_path = [],
     health_probe_bind_address = '':8081''\<rparr>"

text \<open>\<^verbatim>\<open>strconv.ParseBool\<close>.\<close>

definition parse_bool :: "string \<Rightarrow> bool option" where
  "parse_bool s =
     (if s \<in> set [''1'', ''t'', ''T'', ''TRUE'', ''true'', ''True''] then Some True
      else if s \<in> set [''0'', ''f'', ''F'', ''FALSE'', ''false'', ''False''] then Some False
      else None)"

text \<open>A registered flag: whether it is boolean, and what setting it to a text does, if that is allowed.\<close>

type_synonym 's flag = "bool \<times> (string \<Rightarrow> 's \<Rightarrow> 's option)"

definition own_flag :: "string \<Rightarrow> flags flag option" where
  "own_flag name =
     (if name = ''metrics-bind-address'' then Some (False, \<lambda>v fl. Some (fl\<lparr>metrics_bind_address := v\<rparr>))
      else if name = ''metrics-secure'' then
        Some (True, \<lambda>v fl. map_option (\<lambda>b. fl\<lparr>metrics_secure := b\<rparr>) (parse_bool v))
      else if name = ''metrics-cert-path'' then Some (False, \<lambda>v fl. Some (fl\<lparr>metrics_cert_path := v\<rparr>))
      else if name = ''health-probe-bind-address'' then
        Some (False, \<lambda>v fl. Some (fl\<lparr>health_probe_bind_address := v\<rparr>))
      else None)"

definition formal_flag :: "(string \<Rightarrow> 'z flag option) \<Rightarrow> string \<Rightarrow> (flags \<times> 'z) flag option" where
  "formal_flag other name =
     (case own_flag name of
        Some (b, put) \<Rightarrow> Some (b, \<lambda>v st. map_option (\<lambda>fl. (fl, snd st)) (put v (fst st)))
      | None \<Rightarrow> map_option (\<lambda>(b, put). (b, \<lambda>v st. map_option (\<lambda>z. (fst st, z)) (put v (snd st)))) (other name))"

section \<open>Parsing\<close>

text \<open>
  One step (\<^verbatim>\<open>FlagSet.parseOne\<close>): the end of the flags, a request for help, a usage error, or the state
  and the arguments left.
\<close>

datatype 's parse_step = No_more | Help | Usage | Next 's "string list"

definition dash :: char where "dash = CHR ''-''"
definition equals :: char where "equals = CHR ''=''"

definition set_flag :: "('s flag) option \<Rightarrow> string \<Rightarrow> string option \<Rightarrow> string list \<Rightarrow> 's \<Rightarrow> 's parse_step" where
  "set_flag fl name given args st =
     (case fl of
        None \<Rightarrow> if name = ''help'' \<or> name = ''h'' then Help else Usage
      | Some (is_bool, put) \<Rightarrow>
         if is_bool then
           (case put (case given of Some v \<Rightarrow> v | None \<Rightarrow> ''true'') st of
              None \<Rightarrow> Usage | Some st' \<Rightarrow> Next st' args)
         else
           (case (given, args) of
              (Some v, _) \<Rightarrow> (case put v st of None \<Rightarrow> Usage | Some st' \<Rightarrow> Next st' args)
            | (None, v # args') \<Rightarrow> (case put v st of None \<Rightarrow> Usage | Some st' \<Rightarrow> Next st' args')
            | (None, []) \<Rightarrow> Usage))"

fun parse_one :: "(string \<Rightarrow> 's flag option) \<Rightarrow> string list \<Rightarrow> 's \<Rightarrow> 's parse_step" where
  "parse_one formal [] st = No_more"
| "parse_one formal (s # args) st =
     (if length s < 2 \<or> hd s \<noteq> dash then No_more
      else if s = [dash, dash] then No_more
      else
        let name = (if s ! 1 = dash then drop 2 s else drop 1 s) in
        if hd name = dash \<or> hd name = equals then Usage
        else case cut equals name of
          None \<Rightarrow> set_flag (formal name) name None args st
        | Some (name, value) \<Rightarrow> set_flag (formal name) name (Some value) args st)"

lemma set_flag_shorter: "set_flag fl name given args st = Next st' args' \<Longrightarrow> length args' \<le> length args"
  by (auto simp: set_flag_def split: option.splits if_splits prod.splits list.splits)

lemma parse_one_shorter: "parse_one formal args st = Next st' args' \<Longrightarrow> length args' < length args"
  by (cases args) (auto simp: Let_def less_Suc_eq_le split: if_splits option.splits dest: set_flag_shorter)

text \<open>
  The loop of \<^verbatim>\<open>FlagSet.Parse\<close>. The flag set exits the process on an error: with status 0 for a
  request for help, with status 2 otherwise.
\<close>

function parse_args :: "(string \<Rightarrow> 's flag option) \<Rightarrow> string list \<Rightarrow> 's \<Rightarrow> nat + 's" where
  "parse_args formal args st =
     (case parse_one formal args st of
        No_more \<Rightarrow> Inr st
      | Help \<Rightarrow> Inl 0
      | Usage \<Rightarrow> Inl 2
      | Next st' args' \<Rightarrow> parse_args formal args' st')"
  by pat_completeness auto
termination by (relation "measure (\<lambda>(formal, args, st). length args)") (auto dest: parse_one_shorter)

declare parse_args.simps [simp del]

definition parse_flags :: "(string \<Rightarrow> 'z flag option) \<Rightarrow> 'z \<Rightarrow> string list \<Rightarrow> nat + flags \<times> 'z" where
  "parse_flags other z args = parse_args (formal_flag other) args (default_flags, z)"

lemma parse_args_exit: "parse_args formal args st = Inl status \<Longrightarrow> status = 0 \<or> status = 2"
proof (induction formal args st rule: parse_args.induct)
  case (1 formal args st)
  then show ?case by (subst (asm) parse_args.simps) (simp split: parse_step.splits)
qed

section \<open>Setting flags\<close>

text \<open>The ways to give a flag its value: with one dash or two, in one argument or two.\<close>

datatype spelling = Joined bool | Separate bool

datatype setting =
    Bind_address string | Secure bool | Cert_path string | Probe_address string

fun setting_name :: "setting \<Rightarrow> string" where
  "setting_name (Bind_address v) = ''metrics-bind-address''"
| "setting_name (Secure b) = ''metrics-secure''"
| "setting_name (Cert_path v) = ''metrics-cert-path''"
| "setting_name (Probe_address v) = ''health-probe-bind-address''"

fun setting_text :: "setting \<Rightarrow> string" where
  "setting_text (Bind_address v) = v"
| "setting_text (Secure b) = (if b then ''true'' else ''false'')"
| "setting_text (Cert_path v) = v"
| "setting_text (Probe_address v) = v"

fun apply_setting :: "setting \<Rightarrow> flags \<Rightarrow> flags" where
  "apply_setting (Bind_address v) fl = fl\<lparr>metrics_bind_address := v\<rparr>"
| "apply_setting (Secure b) fl = fl\<lparr>metrics_secure := b\<rparr>"
| "apply_setting (Cert_path v) fl = fl\<lparr>metrics_cert_path := v\<rparr>"
| "apply_setting (Probe_address v) fl = fl\<lparr>health_probe_bind_address := v\<rparr>"

text \<open>A boolean flag takes its value in the same argument only; alone it means true.\<close>

fun spell :: "spelling \<times> setting \<Rightarrow> string list" where
  "spell (Joined two, s) = [(if two then [dash, dash] else [dash]) @ setting_name s @ equals # setting_text s]"
| "spell (Separate two, Secure b) =
     [(if two then [dash, dash] else [dash]) @ ''metrics-secure'' @ (if b then [] else equals # ''false'')]"
| "spell (Separate two, s) = [(if two then [dash, dash] else [dash]) @ setting_name s, setting_text s]"

lemma cut_name:
  "cut equals (setting_name s @ equals # v) = Some (setting_name s, v)" "cut equals (setting_name s) = None"
  by (cases s; simp add: cut_append equals_def cut_def)+

lemma setting_name_hd:
  "setting_name s \<noteq> []" "hd (setting_name s) \<noteq> dash" "hd (setting_name s) \<noteq> equals"
  by (cases s; simp add: dash_def equals_def)+

lemma parse_one_dashes:
  assumes "name \<noteq> []" "hd name \<noteq> dash" "hd name \<noteq> equals"
  shows "parse_one formal (((if two then [dash, dash] else [dash]) @ name) # args) st =
    (case cut equals name of
       None \<Rightarrow> set_flag (formal name) name None args st
     | Some (name, value) \<Rightarrow> set_flag (formal name) name (Some value) args st)"
  using assms by (cases name; cases two; simp add: Let_def numeral_2_eq_2 split: option.split)

lemma own_flag_setting:
  "own_flag ''metrics-bind-address'' = Some (False, \<lambda>v fl. Some (fl\<lparr>metrics_bind_address := v\<rparr>))"
  "own_flag ''metrics-secure'' = Some (True, \<lambda>v fl. map_option (\<lambda>b. fl\<lparr>metrics_secure := b\<rparr>) (parse_bool v))"
  "own_flag ''metrics-cert-path'' = Some (False, \<lambda>v fl. Some (fl\<lparr>metrics_cert_path := v\<rparr>))"
  "own_flag ''health-probe-bind-address'' = Some (False, \<lambda>v fl. Some (fl\<lparr>health_probe_bind_address := v\<rparr>))"
  by (simp_all add: own_flag_def)

lemma parse_bool_text: "parse_bool ''true'' = Some True" "parse_bool ''false'' = Some False"
  by (simp_all add: parse_bool_def)

lemma set_setting:
  "set_flag (formal_flag other (setting_name s)) (setting_name s) (Some (setting_text s)) args (fl, z) =
     Next (apply_setting s fl, z) args"
  by (cases s) (simp_all add: set_flag_def formal_flag_def own_flag_setting parse_bool_text)

lemma set_setting_separate:
  assumes "s \<noteq> Secure True" and "s \<noteq> Secure False"
  shows "set_flag (formal_flag other (setting_name s)) (setting_name s) None (setting_text s # args) (fl, z) =
     Next (apply_setting s fl, z) args"
  using assms by (cases s) (simp_all add: set_flag_def formal_flag_def own_flag_setting)

lemma set_secure_alone:
  "set_flag (formal_flag other ''metrics-secure'') ''metrics-secure'' None args (fl, z) =
     Next (fl\<lparr>metrics_secure := True\<rparr>, z) args"
  by (simp add: set_flag_def formal_flag_def own_flag_setting parse_bool_text)

lemma parse_spelled_one:
  "parse_one (formal_flag other) (spell (sp, s) @ args) (fl, z) = Next (apply_setting s fl, z) args"
proof (cases sp)
  case (Joined two)
  have "parse_one (formal_flag other) (((if two then [dash, dash] else [dash]) @ setting_name s @ equals # setting_text s) # args)
      (fl, z) = Next (apply_setting s fl, z) args"
    by (subst parse_one_dashes) (simp_all add: setting_name_hd hd_append cut_name set_setting)
  with Joined show ?thesis by simp
next
  case (Separate two)
  have "parse_one (formal_flag other) (((if two then [dash, dash] else [dash]) @ setting_name s) # setting_text s # args)
      (fl, z) = Next (apply_setting s fl, z) args" if "s \<noteq> Secure True" "s \<noteq> Secure False"
    by (subst parse_one_dashes) (simp_all add: setting_name_hd cut_name set_setting_separate [OF that])
  moreover have "parse_one (formal_flag other) (((if two then [dash, dash] else [dash]) @ ''metrics-secure'') # args) (fl, z) =
      Next (apply_setting (Secure True) fl, z) args"
    using setting_name_hd [of "Secure True"] cut_name [of "Secure True"]
    by (subst parse_one_dashes) (simp_all add: set_secure_alone)
  moreover have "parse_one (formal_flag other)
      (((if two then [dash, dash] else [dash]) @ ''metrics-secure'' @ equals # ''false'') # args) (fl, z) =
      Next (apply_setting (Secure False) fl, z) args"
    using setting_name_hd [of "Secure False"] cut_name [of "Secure False"] set_setting [of other "Secure False"]
    by (subst parse_one_dashes) simp_all
  ultimately show ?thesis using Separate by (cases s) (auto simp del: parse_one.simps)
qed

lemma parse_spelled:
  "parse_args (formal_flag other) (concat (map spell ss) @ args) (fl, z) =
     parse_args (formal_flag other) args (fold (\<lambda>(sp, s). apply_setting s) ss fl, z)"
proof (induction ss arbitrary: fl)
  case (Cons x ss)
  obtain sp s where x: "x = (sp, s)" by (cases x)
  have "parse_args (formal_flag other) (spell (sp, s) @ concat (map spell ss) @ args) (fl, z) =
      parse_args (formal_flag other) (concat (map spell ss) @ args) (apply_setting s fl, z)"
    by (subst parse_args.simps) (simp add: parse_spelled_one)
  then show ?case by (simp add: x Cons.IH)
qed simp

text \<open>
  C39: The command line sets the flags. Starting from the defaults the code declares, every setting in
  any accepted spelling (one dash or two, the value joined by an equals sign or as the next argument,
  a boolean flag alone) takes effect and the last setting of a flag wins, whatever flags other packages
  register; and a flag that nobody registered ends the process, with status 0 when help is asked
  for and with status 2 otherwise, whatever was set before it.
\<close>

theorem command_line_settings:
  "parse_flags other z (concat (map spell ss)) = Inr (fold (\<lambda>(sp, s). apply_setting s) ss default_flags, z) \<and>
   (formal_flag other name = None \<and> name \<noteq> [] \<and> dash \<noteq> hd name \<and> equals \<notin> set name \<longrightarrow>
      parse_flags other z (concat (map spell ss) @ (dash # dash # name) # rest) =
        Inl (if name = ''help'' \<or> name = ''h'' then 0 else 2))"
proof -
  have "parse_args (formal_flag other) [] st = Inr st" for st :: "flags \<times> 'a"
    by (subst parse_args.simps) simp
  then have "parse_flags other z (concat (map spell ss)) = Inr (fold (\<lambda>(sp, s). apply_setting s) ss default_flags, z)"
    using parse_spelled [of other ss "[]"] by (simp add: parse_flags_def)
  moreover have "parse_flags other z (concat (map spell ss) @ (dash # dash # name) # rest) =
      Inl (if name = ''help'' \<or> name = ''h'' then 0 else 2)"
    if name: "formal_flag other name = None" "name \<noteq> []" "dash \<noteq> hd name" "equals \<notin> set name"
  proof -
    have "hd name \<noteq> equals" using name(2,4) by (metis hd_in_set)
    with name(3) have "parse_one (formal_flag other) ((dash # dash # name) # rest) st =
        (if name = ''help'' \<or> name = ''h'' then Help else Usage)" for st
      using parse_one_dashes [OF name(2), where two = True and formal = "formal_flag other" and args = rest and st = st]
        name(1,4)
      by (simp add: cut_def set_flag_def del: parse_one.simps)
    then show ?thesis
      unfolding parse_flags_def parse_spelled by (subst parse_args.simps) (simp del: parse_one.simps)
  qed
  ultimately show ?thesis by blast
qed

theorem command_line_settings_witness:
  "parse_flags (\<lambda>name. None) () [''--metrics-secure=false'', ''-metrics-bind-address'', '':8080''] =
     Inr (default_flags\<lparr>metrics_secure := False, metrics_bind_address := '':8080''\<rparr>, ()) \<and>
   parse_flags (\<lambda>name. None) () [''--metrics-secure=false'', ''--zap-level''] = Inl 2"
proof -
  let ?s = "[(Joined True, Secure False), (Separate False, Bind_address '':8080'')]"
    and ?t = "[(Joined True, Secure False)]"
  have "concat (map spell ?s) = [''--metrics-secure=false'', ''-metrics-bind-address'', '':8080'']"
    "concat (map spell ?t) @ [dash # dash # ''zap-level''] = [''--metrics-secure=false'', ''--zap-level'']"
    by (simp_all add: dash_def equals_def)
  moreover have "formal_flag (\<lambda>name. None :: unit flag option) ''zap-level'' = None"
    by (simp add: formal_flag_def own_flag_def)
  ultimately show ?thesis
    using command_line_settings [of "\<lambda>name. None" "()" ?s] command_line_settings [of "\<lambda>name. None" "()" ?t "''zap-level''" "[]"]
    by (simp add: dash_def equals_def)
qed

end
