(* ===== verification/Api_Scheme.thy ===== *)
theory Api_Scheme
  imports Kube_Api
begin

text \<open>
  The registration of the API types: \<^verbatim>\<open>GroupVersion\<close>, \<^verbatim>\<open>addKnownTypes\<close> and \<^verbatim>\<open>AddToScheme\<close>
  (api/v1alpha1/groupversion_info.go) and the \<^verbatim>\<open>init\<close> function of the process (cmd/main.go), which fills the
  scheme the clients use. A scheme is a value of another package, of type \<open>'s\<close>; a Go type is known
  by the name the scheme registers it under.
\<close>

record group_version =
  gv_group :: string
  gv_version :: string

definition GroupVersion :: group_version where
  "GroupVersion = \<lparr>gv_group = ''components.platform.opendatahub.io'', gv_version = ''v1alpha1''\<rparr>"

text \<open>
  The scheme package: registering types and the common list options under a group version, and running
  the functions of a scheme builder. The other four registrations of the process belong to their
  packages.
\<close>

record 's scheme_api =
  NewScheme :: 's
  AddKnownTypes :: "group_version \<Rightarrow> string list \<Rightarrow> 's \<Rightarrow> 's"
  AddToGroupVersion :: "group_version \<Rightarrow> 's \<Rightarrow> 's"
  RunBuilder :: "('s \<Rightarrow> goerr option \<times> 's) list \<Rightarrow> 's \<Rightarrow> goerr option \<times> 's"
  clientgo_AddToScheme :: "'s \<Rightarrow> goerr option \<times> 's"
  apiextensions_AddToScheme :: "'s \<Rightarrow> goerr option \<times> 's"
  trainer_AddToScheme :: "'s \<Rightarrow> goerr option \<times> 's"
  config_Install :: "'s \<Rightarrow> goerr option \<times> 's"

definition addKnownTypes :: "'s scheme_api \<Rightarrow> 's \<Rightarrow> goerr option \<times> 's" where
  "addKnownTypes A scheme =
     (let scheme = AddKnownTypes A GroupVersion [''Trainer'', ''TrainerList''] scheme;
          scheme = AddToGroupVersion A GroupVersion scheme
      in (None, scheme))"

definition SchemeBuilder :: "'s scheme_api \<Rightarrow> ('s \<Rightarrow> goerr option \<times> 's) list" where
  "SchemeBuilder A = [addKnownTypes A]"

definition AddToScheme :: "'s scheme_api \<Rightarrow> 's \<Rightarrow> goerr option \<times> 's" where
  "AddToScheme A = RunBuilder A (SchemeBuilder A)"

text \<open>\<^verbatim>\<open>utilruntime.Must\<close> panics on an error.\<close>

definition must :: "('s \<Rightarrow> goerr option \<times> 's) \<Rightarrow> 's \<Rightarrow> 's result" where
  "must f scheme = (case f scheme of (Some e, _) \<Rightarrow> Inl e | (None, scheme) \<Rightarrow> Inr scheme)"

fun must_all :: "('s \<Rightarrow> goerr option \<times> 's) list \<Rightarrow> 's \<Rightarrow> 's result" where
  "must_all [] scheme = Inr scheme"
| "must_all (f # fs) scheme = (case must f scheme of Inl e \<Rightarrow> Inl e | Inr scheme \<Rightarrow> must_all fs scheme)"

definition init_scheme :: "'s scheme_api \<Rightarrow> 's result" where
  "init_scheme A = must_all
     [clientgo_AddToScheme A, apiextensions_AddToScheme A, AddToScheme A, trainer_AddToScheme A, config_Install A]
     (NewScheme A)"

section \<open>Properties\<close>

text \<open>
  What the code relies on: \<open>knows gv kind s\<close> says that the scheme maps the kind; registering types makes
  exactly those kinds known, no registration makes one unknown, and a builder runs its functions in
  order up to the first error.
\<close>

fun run_all :: "('s \<Rightarrow> goerr option \<times> 's) list \<Rightarrow> 's \<Rightarrow> goerr option \<times> 's" where
  "run_all [] s = (None, s)"
| "run_all (f # fs) s = (case f s of (Some e, s) \<Rightarrow> (Some e, s) | (None, s) \<Rightarrow> run_all fs s)"

definition scheme_laws :: "'s scheme_api \<Rightarrow> (group_version \<Rightarrow> string \<Rightarrow> 's \<Rightarrow> bool) \<Rightarrow> bool" where
  "scheme_laws A knows \<longleftrightarrow>
     (\<forall>gv kinds s gv' kind. knows gv' kind (AddKnownTypes A gv kinds s) \<longleftrightarrow> knows gv' kind s \<or> (gv' = gv \<and> kind \<in> set kinds)) \<and>
     (\<forall>gv s gv' kind. knows gv' kind s \<longrightarrow> knows gv' kind (AddToGroupVersion A gv s)) \<and>
     (\<forall>fs s. RunBuilder A fs s = run_all fs s) \<and>
     (\<forall>f\<in>{clientgo_AddToScheme A, apiextensions_AddToScheme A, trainer_AddToScheme A, config_Install A}.
        \<forall>s gv kind. knows gv kind s \<longrightarrow> knows gv kind (snd (f s)))"

lemma must_Inr: "must f s = Inr s' \<longleftrightarrow> f s = (None, s')"
  by (auto simp: must_def split: prod.splits option.splits)

lemma must_all_append:
  "must_all (fs @ gs) s = (case must_all fs s of Inl e \<Rightarrow> Inl e | Inr s \<Rightarrow> must_all gs s)"
  by (induction fs arbitrary: s) (simp_all split: sum.splits)

lemma must_all_keeps:
  assumes "\<And>f s. f \<in> set fs \<Longrightarrow> P s \<Longrightarrow> P (snd (f s))" and "P s" and "must_all fs s = Inr s'"
  shows "P s'"
  using assms
proof (induction fs arbitrary: s)
  case (Cons f fs)
  then obtain s1 where "f s = (None, s1)" "must_all fs s1 = Inr s'" by (auto simp: must_Inr split: sum.splits)
  with Cons.prems(1,2) Cons.IH [of s1] show ?case by (metis list.set_intros snd_conv)
qed simp

lemma AddToScheme_knows:
  assumes "scheme_laws A knows" and "kind \<in> {''Trainer'', ''TrainerList''}"
  shows "\<exists>s'. AddToScheme A s = (None, s') \<and> knows GroupVersion kind s'"
  using assms by (auto simp: scheme_laws_def AddToScheme_def SchemeBuilder_def addKnownTypes_def Let_def)

text \<open>
  The scheme knows the API. The registration of this package cannot fail; when the other
  registrations succeed the process has a scheme in which the kinds Trainer and TrainerList are
  known under the group and version of the API, whatever the other packages add; and when the
  process panics before \<^verbatim>\<open>main\<close>, it does so with an error one of the other registrations reported.
\<close>

lemma init_scheme_registers:
  assumes "scheme_laws A knows"
  shows "case init_scheme A of
     Inr s \<Rightarrow> knows GroupVersion ''Trainer'' s \<and> knows GroupVersion ''TrainerList'' s
   | Inl e \<Rightarrow> \<exists>f\<in>{clientgo_AddToScheme A, apiextensions_AddToScheme A, trainer_AddToScheme A, config_Install A}.
       \<exists>s. fst (f s) = Some e"
proof (cases "init_scheme A")
  case (Inr s)
  from Inr obtain s1 where "must_all [clientgo_AddToScheme A, apiextensions_AddToScheme A] (NewScheme A) = Inr s1"
    and rest: "must_all ([AddToScheme A] @ [trainer_AddToScheme A, config_Install A]) s1 = Inr s"
    unfolding init_scheme_def
    using must_all_append [of "[clientgo_AddToScheme A, apiextensions_AddToScheme A]"
        "[AddToScheme A, trainer_AddToScheme A, config_Install A]" "NewScheme A"]
    by (auto split: sum.splits)
  have "knows GroupVersion kind s" if kind: "kind \<in> {''Trainer'', ''TrainerList''}" for kind
  proof -
    from AddToScheme_knows [OF assms kind, of s1] obtain s2 where s2: "AddToScheme A s1 = (None, s2)"
      "knows GroupVersion kind s2" by blast
    then have "must_all [trainer_AddToScheme A, config_Install A] s2 = Inr s"
      using rest by (simp add: must_def)
    moreover have "knows GroupVersion kind (snd (f s))"
      if "f \<in> set [trainer_AddToScheme A, config_Install A]" "knows GroupVersion kind s" for f s
      using assms that by (auto simp: scheme_laws_def)
    ultimately show ?thesis by (rule must_all_keeps [where P = "knows GroupVersion kind", OF _ s2(2), rotated])
  qed
  with Inr show ?thesis by simp
next
  case (Inl e)
  have "fst (AddToScheme A s) = None" for s
    using AddToScheme_knows [OF assms, of "''Trainer''" s] by auto
  with Inl show ?thesis
    by (auto simp: init_scheme_def must_def split: sum.splits prod.splits option.splits) (metis fst_conv)+
qed

text \<open>A scheme that is the list of its known kinds, with packages that add kinds of their own.\<close>

definition list_scheme :: "(group_version \<times> string) list scheme_api" where
  "list_scheme = \<lparr>NewScheme = [], AddKnownTypes = (\<lambda>gv kinds s. s @ map (Pair gv) kinds),
     AddToGroupVersion = (\<lambda>gv s. s), RunBuilder = run_all,
     clientgo_AddToScheme = (\<lambda>s. (None, (\<lparr>gv_group = [], gv_version = ''v1''\<rparr>, ''Namespace'') # s)),
     apiextensions_AddToScheme = Pair None, trainer_AddToScheme = Pair None, config_Install = Pair None\<rparr>"

lemma init_scheme_registers_witness:
  "\<exists>s. init_scheme list_scheme = Inr s \<and> (GroupVersion, ''Trainer'') \<in> set s \<and> (GroupVersion, ''TrainerList'') \<in> set s"
proof -
  have "scheme_laws list_scheme (\<lambda>gv kind s. (gv, kind) \<in> set s)"
    by (auto simp: scheme_laws_def list_scheme_def)
  moreover obtain s where "init_scheme list_scheme = Inr s"
    by (simp add: init_scheme_def list_scheme_def must_def AddToScheme_def SchemeBuilder_def addKnownTypes_def)
  ultimately show ?thesis using init_scheme_registers [of list_scheme "\<lambda>gv kind s. (gv, kind) \<in> set s"] by auto
qed

end
