(* ===== verification/Startup.thy ===== *)
theory Startup
  imports Reconciler TLS_Profile Command_Line Api_Scheme
begin

text \<open>
  Start-up of the process (cmd/main.go): the options of the manager with its cache, \<^verbatim>\<open>main\<close>, a sequence of
  steps each of which ends the process with exit status 1 and a message when it fails, and the
  whole process, which first fills the scheme and parses the command line.
\<close>

section \<open>Manager options\<close>

text \<open>
  A directory given as text: \<^const>\<open>None\<close> for the empty text, else the components of the cleaned path
  (the process runs in the root directory).
\<close>

definition clean_step :: "string \<Rightarrow> path \<Rightarrow> path" where
  "clean_step c p = (if c = [] \<or> c = ''.'' then p else if c = ''..'' then butlast p else p @ [c])"

definition cert_dir :: "string \<Rightarrow> path option" where
  "cert_dir s = (if s = [] then None else Some (fold clean_step (split_on (CHR ''/'') s) []))"

text \<open>
  The cache: the transformation every object goes through before it is cached, the namespaces it is
  scoped to (\<^const>\<open>None\<close> for all), the label each kind is filtered by, and the kinds the client reads past
  it. The transformation is one of the platform utilities, named by the function that makes it.
\<close>

datatype cache_transform = StripUnusedFields

record cache_options =
  DefaultTransform :: cache_transform
  DefaultNamespaces :: "string list option"
  ByObject :: "(string \<times> (string \<times> string)) list"
  DisableFor :: "string list"

record ('c, 'cert, 'f) manager_options =
  Metrics :: "('c, 'cert, 'f) metrics_options"
  HealthProbeBindAddress :: string
  Cache :: cache_options

definition cache_options_for :: "(string \<Rightarrow> string) \<Rightarrow> cache_options" where
  "cache_options_for getenv =
     (let appNS = getenv ''APPLICATIONS_NAMESPACE'' in
      \<lparr>DefaultTransform = StripUnusedFields,
       DefaultNamespaces = (if appNS \<noteq> [] then Some [appNS] else None),
       ByObject = [(''Deployment'', (PlatformPartOf, trainerPartOf)),
                   (''Service'', (PlatformPartOf, trainerPartOf)),
                   (''ValidatingWebhookConfiguration'', (PlatformPartOf, trainerPartOf))],
       DisableFor = [''Namespace'']\<rparr>)"

definition manifestsPath :: path where "manifestsPath = [''opt'', ''manifests-template'']"
definition runtimesPath :: path where "runtimesPath = [''opt'', ''runtimes-template'']"
definition imageStreamsPath :: path where "imageStreamsPath = [''opt'', ''imagestreams-template'']"
definition workDir :: path where "workDir = [''opt'', ''manifests-work'']"

text \<open>\<^verbatim>\<open>os.Stat\<close> and \<^verbatim>\<open>IsDir\<close> on a template path: the message the process ends with, if any.\<close>

definition check_template :: "io_env \<Rightarrow> string \<Rightarrow> path \<Rightarrow> fnode \<Rightarrow> string option" where
  "check_template io what p fs =
     (case os_stat io p fs of
        Some e \<Rightarrow> Some (what @ '' path is not accessible'')
      | None \<Rightarrow>
         (case fs_get fs p of
            Inr (Dir es) \<Rightarrow> None
          | _ \<Rightarrow> Some (what @ '' path is not a directory'')))"

section \<open>The process\<close>

text \<open>
  The functions of other packages: the cluster configuration (\<^verbatim>\<open>GetConfigOrDie\<close>), client and manager construction, the health checks, the watcher
  set-up and the manager's run, on a manager of type \<open>'m\<close>, and the cancel function of the context.
\<close>

record ('w, 'v, 'c, 'cert, 'f, 'm, 's) startup_env =
  su_operator :: "('w, 'v) operator_env"
  su_tls :: "('w, 'c, 'cert) tls_api"
  su_keypair :: "string \<Rightarrow> string \<Rightarrow> 'cert result"
  su_authFilter :: 'f
  su_config :: "goerr option"
  su_client :: "goerr option"
  su_manager :: "('c, 'cert, 'f) manager_options \<Rightarrow> 'm result"
  su_build :: "('w, 'v) reconciler_plan \<Rightarrow> goerr option"
  su_watch :: "string \<Rightarrow> watch_opt \<Rightarrow> (string \<Rightarrow> bool) \<Rightarrow> goerr option"
  su_zero :: "'v release"
  su_healthz :: "goerr option"
  su_readyz :: "goerr option"
  su_setup :: "'s watcher \<Rightarrow> 'm \<Rightarrow> goerr option \<times> 'm"
  su_cancel :: "'s \<Rightarrow> 's"
  su_start :: "'m \<Rightarrow> goerr option"

text \<open>
  How a run ends: the message of the failing step (\<^const>\<open>None\<close> for a normal end), the files, and, when the
  manager was started, the manager with the configuration of the reconciler it runs.
\<close>

record ('w, 'v, 'm) run_outcome =
  exit_message :: "string option"
  exit_files :: fnode
  started :: "('m \<times> ReconcilerConfig \<times> ('w, 'v) reconciler_plan) option"

definition failed :: "string \<Rightarrow> fnode \<Rightarrow> ('w, 'v, 'm) run_outcome" where
  "failed msg fs = \<lparr>exit_message = Some msg, exit_files = fs, started = None\<rparr>"

definition reconciler_config :: "TLSProfileSpec \<Rightarrow> ReconcilerConfig" where
  "reconciler_config profile =
     \<lparr>ManifestsPath = manifestsPath, RuntimesPath = runtimesPath, ImageStreamsPath = imageStreamsPath,
      WorkDir = workDir, TLSProfile = profile\<rparr>"

definition main ::
  "('w, 'v, 'c, 'cert, 'f, 'm, 's) startup_env \<Rightarrow> flags \<Rightarrow> 'w \<Rightarrow> fnode \<Rightarrow> ('w, 'v, 'm) run_outcome" where
  "main S fl w fs =
     (let io = re_io (oe_render (su_operator S)); getenv = re_getenv (oe_render (su_operator S)) in
      if su_config S \<noteq> None then failed ''unable to get kubeconfig'' fs
      else if su_client S \<noteq> None then failed ''unable to create bootstrap client'' fs
      else case Resolve (su_tls S) w of
        Inl e \<Rightarrow> failed ''unable to resolve cluster TLS profile'' fs
      | Inr tlsResult \<Rightarrow>
      (let metricsOpts = MetricsServerOptions io (su_keypair S) (su_authFilter S)
             (metrics_bind_address fl) (metrics_secure fl) (cert_dir (metrics_cert_path fl)) (res_TLSOpts tlsResult) in
      case su_manager S \<lparr>Metrics = metricsOpts, HealthProbeBindAddress = health_probe_bind_address fl,
             Cache = cache_options_for getenv\<rparr> of
        Inl e \<Rightarrow> failed ''unable to start manager'' fs
      | Inr mgr \<Rightarrow>
      (case check_template io ''manifests'' manifestsPath fs of
        Some msg \<Rightarrow> failed msg fs
      | None \<Rightarrow>
      (case check_template io ''runtimes'' runtimesPath fs of
        Some msg \<Rightarrow> failed msg fs
      | None \<Rightarrow>
      (case check_template io ''imagestreams'' imageStreamsPath fs of
        Some msg \<Rightarrow> failed msg fs
      | None \<Rightarrow>
      (case os_mkdir_all io workDir fs of
        Inl e \<Rightarrow> failed ''unable to create work directory'' fs
      | Inr fs \<Rightarrow>
      (let cfg = reconciler_config (res_EffectiveProfile tlsResult) in
      case NewReconciler (su_build S) (su_watch S) (su_zero S) (su_operator S) cfg fs of
        Inl e \<Rightarrow> failed ''unable to create controller'' fs
      | Inr (plan, rel) \<Rightarrow>
      (if su_healthz S \<noteq> None then failed ''unable to set up health check'' fs
       else if su_readyz S \<noteq> None then failed ''unable to set up ready check'' fs
       else case SetupWatcher (su_setup S) (Some tlsResult) (su_cancel S) mgr of
        (Some e, mgr) \<Rightarrow> failed ''unable to set up TLS profile watcher'' fs
      | (None, mgr) \<Rightarrow>
          \<lparr>exit_message = (case su_start S mgr of
             Some e \<Rightarrow> Some ''problem running manager'' | None \<Rightarrow> None),
           exit_files = fs, started = Some (mgr, cfg, plan)\<rparr>))))))))"

text \<open>
  The process: \<^verbatim>\<open>init\<close> fills the scheme or panics, \<^verbatim>\<open>flag.Parse\<close> sets the flags or exits, and the rest of
  \<^verbatim>\<open>main\<close> runs with clients that use the scheme.
\<close>

datatype ('w, 'v, 'm) process_end = Panic goerr | Flag_exit nat | Ran "('w, 'v, 'm) run_outcome"

definition process ::
  "'sch scheme_api \<Rightarrow> (string \<Rightarrow> 'z flag option) \<Rightarrow> 'z \<Rightarrow> ('sch \<Rightarrow> ('w, 'v, 'c, 'cert, 'f, 'm, 's) startup_env) \<Rightarrow>
     string list \<Rightarrow> 'w \<Rightarrow> fnode \<Rightarrow> ('w, 'v, 'm) process_end" where
  "process A other z S args w fs =
     (case init_scheme A of
        Inl e \<Rightarrow> Panic e
      | Inr scheme \<Rightarrow>
         (case parse_flags other z args of
            Inl status \<Rightarrow> Flag_exit status
          | Inr (fl, _) \<Rightarrow> Ran (main (S scheme) fl w fs)))"

fun exit_status :: "('w, 'v, 'm) process_end \<Rightarrow> nat" where
  "exit_status (Panic e) = 2"
| "exit_status (Flag_exit status) = status"
| "exit_status (Ran r) = (case exit_message r of None \<Rightarrow> 0 | Some msg \<Rightarrow> 1)"

section \<open>Properties\<close>

lemma check_template_None: "check_template io what p fs = None \<Longrightarrow> fs_view fs p = Inr VDir"
  by (auto simp: check_template_def fs_view_def split: option.splits sum.splits fnode.splits)

lemma main_started:
  assumes "started (main S fl w fs) = Some (mgr, cfg, plan)"
  shows "\<exists>tls rel. Resolve (su_tls S) w = Inr tls \<and>
    cfg = reconciler_config (res_EffectiveProfile tls) \<and>
    check_template (re_io (oe_render (su_operator S))) ''manifests'' manifestsPath fs = None \<and>
    check_template (re_io (oe_render (su_operator S))) ''runtimes'' runtimesPath fs = None \<and>
    check_template (re_io (oe_render (su_operator S))) ''imagestreams'' imageStreamsPath fs = None \<and>
    os_mkdir_all (re_io (oe_render (su_operator S))) workDir fs = Inr (exit_files (main S fl w fs)) \<and>
    NewReconciler (su_build S) (su_watch S) (su_zero S) (su_operator S) cfg (exit_files (main S fl w fs)) =
      Inr (plan, rel) \<and> su_client S = None \<and> su_healthz S = None \<and> su_readyz S = None"
  using assms
  by (auto simp: main_def failed_def Let_def split: if_splits sum.splits option.splits prod.splits)

lemma exit_clean_iff:
  "exit_message (main S fl w fs) = None \<longleftrightarrow>
     (\<exists>mgr cfg plan. started (main S fl w fs) = Some (mgr, cfg, plan) \<and> su_start S mgr = None)"
  by (auto simp: main_def failed_def Let_def split: if_splits sum.splits option.splits prod.splits)

lemma templates_apart:
  "workDir \<parallel> manifestsPath" "workDir \<parallel> runtimesPath" "workDir \<parallel> imageStreamsPath"
  by (simp_all add: workDir_def manifestsPath_def runtimesPath_def imageStreamsPath_def parallel_def)

text \<open>
  C37: The manager is started only when everything it needs is in place: the cluster TLS profile
  was resolved and the reconciler is configured with the effective profile, the three template
  paths and the work directory are directories, the controller is the one \<^verbatim>\<open>NewReconciler\<close> built,
  and both health checks are registered. In every other case the process ends with a message,
  never silently, and unless the failing step comes after the creation of the work directory no
  file was changed.
\<close>

theorem main_starts_when_ready:
  "case started (main S fl w fs) of
     Some (mgr, cfg, plan) \<Rightarrow>
       (\<exists>tls. Resolve (su_tls S) w = Inr tls \<and> cfg = reconciler_config (res_EffectiveProfile tls)) \<and>
       plan = reconciler_plan_for (su_operator S) cfg \<and>
       (\<forall>p\<in>{ManifestsPath cfg, RuntimesPath cfg, ImageStreamsPath cfg, WorkDir cfg}.
          fs_view (exit_files (main S fl w fs)) p = Inr VDir) \<and>
       su_healthz S = None \<and> su_readyz S = None \<and>
       (exit_message (main S fl w fs) = None \<longleftrightarrow> su_start S mgr = None)
   | None \<Rightarrow> exit_message (main S fl w fs) \<noteq> None \<and>
       (exit_files (main S fl w fs) = fs \<or>
        os_mkdir_all (re_io (oe_render (su_operator S))) workDir fs = Inr (exit_files (main S fl w fs)))"
proof (cases "started (main S fl w fs)")
  case None
  then show ?thesis
    by (auto simp: main_def failed_def Let_def split: if_splits sum.splits option.splits prod.splits)
next
  case (Some t)
  obtain mgr cfg plan where t: "t = (mgr, cfg, plan)" by (cases t)
  let ?fs = "exit_files (main S fl w fs)"
  from main_started [OF Some [unfolded t]] obtain tls rel where
    tls: "Resolve (su_tls S) w = Inr tls" "cfg = reconciler_config (res_EffectiveProfile tls)"
    and checks: "check_template (re_io (oe_render (su_operator S))) ''manifests'' manifestsPath fs = None"
      "check_template (re_io (oe_render (su_operator S))) ''runtimes'' runtimesPath fs = None"
      "check_template (re_io (oe_render (su_operator S))) ''imagestreams'' imageStreamsPath fs = None"
    and dir: "os_mkdir_all (re_io (oe_render (su_operator S))) workDir fs = Inr ?fs"
    and rec: "NewReconciler (su_build S) (su_watch S) (su_zero S) (su_operator S) cfg ?fs = Inr (plan, rel)"
    and health: "su_healthz S = None" "su_readyz S = None" by blast
  note mk = os_mkdir_all_Inr [OF dir]
  have "fs_view ?fs manifestsPath = Inr VDir" "fs_view ?fs runtimesPath = Inr VDir"
    "fs_view ?fs imageStreamsPath = Inr VDir" "fs_view ?fs workDir = Inr VDir"
    using checks [THEN check_template_None] fs_view_mkdir_all_parallel [OF mk] fs_view_mkdir_all_same [OF mk]
      templates_apart by simp_all
  moreover have "plan = reconciler_plan_for (su_operator S) cfg"
    using rec by (auto simp: NewReconciler_def Let_def split: option.splits sum.splits)
  moreover have "exit_message (main S fl w fs) = None \<longleftrightarrow> su_start S mgr = None"
    using Some t by (simp add: exit_clean_iff)
  ultimately show ?thesis using Some t tls health by (auto simp: reconciler_config_def)
qed

definition sample_startup :: "(contents, string, unit, string, unit, nat, bool) startup_env" where
  "sample_startup = \<lparr>su_operator = ready_env,
     su_tls = \<lparr>LoadWithAdherence = (\<lambda>w. Inr (sample_loaded sample_profile)),
       ShouldHonorClusterTLSProfile = (\<lambda>a. True), TLSProfileIntermediate = weak_profile,
       ConfigFromProfileWithError = (\<lambda>p. Inr (id, [])), SetNextProtosHTTP2 = id\<rparr>,
     su_keypair = (\<lambda>c k. Inr c), su_authFilter = (), su_config = None, su_client = None, su_manager = (\<lambda>opts. Inr 0),
     su_build = (\<lambda>plan. None), su_watch = (\<lambda>kind handler p. None), su_zero = \<lparr>rel_name = [], rel_version = []\<rparr>,
     su_healthz = None, su_readyz = None, su_setup = (\<lambda>W m. (None, Suc m)), su_cancel = (\<lambda>b. True),
     su_start = (\<lambda>m. None)\<rparr>"

definition image_files :: fnode where
  "image_files = Dir [(''opt'', Dir [(''imagestreams-template'', Dir []), (''manifests-template'', Dir []),
     (''runtimes-template'', Dir [])])]"

lemma sample_start:
  "\<exists>plan. started (main sample_startup default_flags sample_runtimes image_files) =
     Some (1, reconciler_config sample_profile, plan)"
  by (simp add: main_def sample_startup_def ready_env_def idle_with_def sample_render_env_def Resolve_def
      sample_loaded_def image_files_def check_template_def os_stat_def manifestsPath_def runtimesPath_def
      imageStreamsPath_def workDir_def os_mkdir_all_def NewReconciler_def SetupWatcher_def Let_def
      split: sum.splits)

theorem main_starts_when_ready_witness:
  "let out = main sample_startup default_flags sample_runtimes image_files in
     exit_message out = None \<and> fs_view (exit_files out) workDir = Inr VDir \<and>
     fs_view (exit_files out) manifestsPath = Inr VDir"
proof -
  from sample_start obtain plan where
    "started (main sample_startup default_flags sample_runtimes image_files) =
       Some (1, reconciler_config sample_profile, plan)" by blast
  with main_starts_when_ready [of sample_startup default_flags sample_runtimes image_files]
  show ?thesis by (simp add: Let_def reconciler_config_def) (simp add: sample_startup_def)
qed

text \<open>
  C38: The exit status tells how the process ended. It is 0, 1 or 2; it is 0 exactly when the command line
  asked for help, or when the manager was started, after everything it needs was set up, and
  ran to its end without an error. In particular a start-up that fails at any step, a panic of the
  registration and an unknown flag are never reported as success.
\<close>

theorem process_exit_status:
  "exit_status (process A other z S args w fs) \<in> {0, 1, 2} \<and>
   (exit_status (process A other z S args w fs) = 0 \<longleftrightarrow>
      (\<exists>s. init_scheme A = Inr s \<and>
         (parse_flags other z args = Inl 0 \<or>
          (\<exists>fl z' mgr cfg plan. parse_flags other z args = Inr (fl, z') \<and>
             started (main (S s) fl w fs) = Some (mgr, cfg, plan) \<and> su_start (S s) mgr = None))))"
proof -
  have ends: "exit_status (Ran (main T fl w fs)) = (if \<exists>mgr cfg plan. started (main T fl w fs) = Some (mgr, cfg, plan) \<and>
      su_start T mgr = None then 0 else 1)" for T fl
    unfolding exit_clean_iff [symmetric] by (simp split: option.split)
  have "status = 0 \<or> status = 2" if "parse_flags other z args = Inl status" for status
    using that unfolding parse_flags_def by (rule parse_args_exit)
  then show ?thesis
    by (auto simp: process_def ends simp del: exit_status.simps(3) split: sum.split prod.split)
qed

text \<open>A rendering from the work directory of a process that has been running.\<close>

definition started_fs :: fnode where
  "started_fs = Dir [(''opt'', Dir [(''manifests-work'', Dir [(''manifests'', Dir [(''rhoai'', Dir [(''x.yaml'', File [])])]),
     (''runtimes'', Dir [(''y.yaml'', File [])])])])]"

lemma empty_request_resources: "Resources empty_request = []"
  by (simp add: empty_request_def)

lemma sample_render_started:
  "renderManifests sample_platform sample_render_env (reconciler_config sample_profile) () started_fs empty_request =
     (None, started_fs, empty_request\<lparr>Resources := Resources empty_request @ sample_rendered @
        filterConfigMaps sample_items, Generated := True\<rparr>)"
proof -
  let ?cfg = "reconciler_config sample_profile"
  have m: "renderResourceSet sample_render_env ?cfg (manifests_set ?cfg defaultNamespace) started_fs =
      (Inr sample_rendered, started_fs)"
    by (simp add: renderResourceSet_def manifests_set_def sample_render_env_def reconciler_config_def workDir_def
        started_fs_def ensureWorkDir_def os_read_dir_def applyParamOverrides_def applyStaticParams_def
        os_stat_def defaultOverlay_def defaultNamespace_def renderOverlay_def sample_apply sys_def)
  have r: "renderResourceSet sample_render_env ?cfg (runtimes_set ?cfg) started_fs =
      (Inr (filterConfigMaps sample_items), started_fs)"
    by (simp add: renderResourceSet_def runtimes_set_def sample_render_env_def reconciler_config_def workDir_def
        started_fs_def ensureWorkDir_def os_read_dir_def applyParamOverrides_def
        os_stat_def renderOverlay_def sys_def)
  have "resolveNamespace (Instance empty_request) = defaultNamespace"
    by (simp add: resolveNamespace_def empty_request_def)
  then show ?thesis by (simp add: renderManifests_def resource_sets_def sample_platform_def m r)
qed

end
