(* ===== verification/Render_Stability.thy ===== *)
theory Render_Stability
  imports Rendering
begin

text \<open>
  Rendering again (internal/controller/trainer_controller.go, params.go, manifests.go): every
  reconcile renders the manifests anew, from a work directory the earlier ones have changed and
  with maps iterated in another order. What comes out stays the same, so that a reconcile by
  itself never rolls the operand.
\<close>

section \<open>Parameter files as they are written\<close>

text \<open>
  The parameter file of a rendered overlay lists the entries of a map, and the temporary file is
  gone.
\<close>

definition printed :: "path \<Rightarrow> fnode \<Rightarrow> (string, string) gomap \<Rightarrow> bool" where
  "printed dir fs m \<longleftrightarrow> fs_get fs (dir @ [''params.env'']) = Inr (File (print_params m)) \<and>
     wf_map m \<and> (\<forall>kv\<in>set m. ok_entry kv) \<and> fs_view fs (dir @ [''params.env.tmp'']) = Inl ENOENT"

lemma rewrite_printed:
  assumes iter: "iterates iter" and "writeParams iter no_faults (dir @ [''params.env'']) (set_static vals params) fs = (None, fs')"
    and "wf_map params" "\<forall>kv\<in>set params. ok_entry kv" and "wf_map vals" "\<forall>kv\<in>set vals. ok_entry kv"
  shows "\<exists>m. printed dir fs' m \<and> map_of m = map_of params ++ map_of vals \<and>
    (\<forall>q. (dir @ [''params.env'']) \<parallel> q \<longrightarrow> (dir @ [''params.env.tmp'']) \<parallel> q \<longrightarrow> fs_view fs' q = fs_view fs q)"
proof -
  let ?m = "iter (set_static vals params)"
  have wf: "wf_map (set_static vals params)" using assms(3) by (rule wf_map_set_static)
  have "\<forall>kv\<in>set ?m. ok_entry kv"
    using assms(4,6) set_set_static [of vals params] set_iter [OF iter] by blast
  moreover have "map_of ?m = map_of params ++ map_of vals"
    using map_of_iter [OF iter wf] assms(5) by (simp add: map_of_set_static)
  moreover have "fs_view fs' (dir @ [''params.env.tmp'']) = Inl ENOENT"
    using writeParams_tmp_gone [OF assms(2)] by (simp add: tmp_path_params)
  ultimately show ?thesis
    using writeParams_outcome [OF assms(2)] wf_map_iter [OF iter wf]
    by (intro exI [of _ ?m]) (simp add: printed_def tmp_path_params)
qed

text \<open>Both overriding routines are such a rewrite, or find no file and leave everything as it is.\<close>

definition rewritten :: "path \<Rightarrow> (string \<rightharpoonup> string) \<Rightarrow> fnode \<Rightarrow> fnode \<Rightarrow> bool" where
  "rewritten dir V fs fs' \<longleftrightarrow>
     fs_get fs (dir @ [''params.env'']) = Inl ENOENT \<and> fs' = fs \<or>
     (\<exists>c params m. fs_get fs (dir @ [''params.env'']) = Inr (File c) \<and> parse_params c = Inr params \<and>
        printed dir fs' m \<and> map_of m = map_of params ++ V \<and>
        (\<forall>q. (dir @ [''params.env'']) \<parallel> q \<longrightarrow> (dir @ [''params.env.tmp'']) \<parallel> q \<longrightarrow> fs_view fs' q = fs_view fs q))"

lemma readParams_no_faults:
  "readParams no_faults p fs = Inr params \<longleftrightarrow> (\<exists>c. fs_get fs p = Inr (File c) \<and> parse_params c = Inr params)"
  by (auto simp: readParams_def os_open_def os_read_def split: sum.splits fnode.splits)

lemma rewrite_success:
  assumes iter: "iterates iter" and "wf_map vals" "\<forall>kv\<in>set vals. ok_entry kv"
    and run: "(case os_stat no_faults (dir @ [''params.env'']) fs of
        Some e \<Rightarrow> (if is_not_exist e then (None, fs) else (Some e, fs))
      | None \<Rightarrow> (case readParams no_faults (dir @ [''params.env'']) fs of
          Inl e \<Rightarrow> (Some (Wrap ''reading params.env'' e), fs)
        | Inr params \<Rightarrow> writeParams iter no_faults (dir @ [''params.env'']) (set_static vals params) fs)) = (None, fs')"
  shows "rewritten dir (map_of vals) fs fs'"
proof (cases "fs_get fs (dir @ [''params.env''])")
  case (Inl e)
  with run show ?thesis by (auto simp: os_stat_def sys_def rewritten_def split: if_splits)
next
  case (Inr n)
  with run obtain params where r: "readParams no_faults (dir @ [''params.env'']) fs = Inr params"
    and w: "writeParams iter no_faults (dir @ [''params.env'']) (set_static vals params) fs = (None, fs')"
    by (cases n) (auto simp: os_stat_def sys_def split: sum.splits)
  then obtain c where c: "fs_get fs (dir @ [''params.env'']) = Inr (File c)" "parse_params c = Inr params"
    by (auto simp: readParams_no_faults)
  note ok = parse_params_ok [OF c(2)]
  from rewrite_printed [OF iter w conjunct1 [OF ok] conjunct2 [OF ok] assms(2,3)] c show ?thesis
    unfolding rewritten_def by blast
qed

lemma parse_printed: "printed dir fs m \<Longrightarrow> \<exists>params. parse_params (print_params m) = Inr params \<and> map_of params = map_of m"
  using envfile.parse_print [of m] by (auto simp: printed_def)

lemma rewritten_trans:
  assumes "rewritten dir V fs fs1" and "rewritten dir V' fs1 fs2"
  shows "rewritten dir (V ++ V') fs fs2"
  using assms(1) unfolding rewritten_def [of _ V]
proof (elim disjE exE conjE)
  fix c params m
  assume one: "fs_get fs (dir @ [''params.env'']) = Inr (File c)" "parse_params c = Inr params"
    "printed dir fs1 m" "map_of m = map_of params ++ V"
    "\<forall>q. (dir @ [''params.env'']) \<parallel> q \<longrightarrow> (dir @ [''params.env.tmp'']) \<parallel> q \<longrightarrow> fs_view fs1 q = fs_view fs q"
  from one(3) have "fs_get fs1 (dir @ [''params.env'']) = Inr (File (print_params m))" by (simp add: printed_def)
  with assms(2) parse_printed [OF one(3)] obtain m' where "printed dir fs2 m'" "map_of m' = map_of m ++ V'"
    "\<forall>q. (dir @ [''params.env'']) \<parallel> q \<longrightarrow> (dir @ [''params.env.tmp'']) \<parallel> q \<longrightarrow> fs_view fs2 q = fs_view fs1 q"
    by (auto simp: rewritten_def)
  with one show ?thesis by (auto simp: rewritten_def)
qed (use assms(2) in \<open>auto simp: rewritten_def\<close>)

lemma static_rewrites:
  assumes iter: "iterates iter" and "applyStaticParams iter no_faults dir vals fs = (None, fs')"
    and vals: "wf_map vals" "\<forall>kv\<in>set vals. ok_entry kv"
  shows "rewritten dir (map_of vals) fs fs'"
proof -
  have "rewritten dir (map_of (iter vals)) fs fs'"
    by (rule rewrite_success [OF iter wf_map_iter [OF iter vals(1)] _ assms(2) [unfolded applyStaticParams_def Let_def]])
      (use vals(2) set_iter [OF iter] in simp)
  then show ?thesis by (simp add: map_of_iter [OF iter vals(1)])
qed

definition env_ok :: "(string \<Rightarrow> string) \<Rightarrow> (string, string) gomap \<Rightarrow> bool" where
  "env_ok env pm \<longleftrightarrow> wf_map pm \<and> (\<forall>(k, ev)\<in>set pm. env ev \<noteq> [] \<longrightarrow> ok_entry (k, env ev))"

lemma env_ok_effective: "env_ok env pm \<Longrightarrow> wf_map (effective env pm) \<and> (\<forall>kv\<in>set (effective env pm). ok_entry kv)"
  by (auto simp: env_ok_def wf_map_effective) (auto simp: effective_def)

lemma overrides_rewrite:
  assumes iter: "iterates iter" and "applyParamOverrides iter env no_faults dir pm fs = (None, fs')"
    and ok: "env_ok env pm"
  shows "rewritten dir (map_of (effective env pm)) fs fs'"
proof -
  have ok': "env_ok env (iter pm)"
    using ok wf_map_iter [OF iter] set_iter [OF iter] by (simp add: env_ok_def)
  have "map_of (effective env (iter pm)) = map_of (effective env pm)"
    using ok ok' map_of_iter [OF iter] by (intro ext) (simp add: map_of_effective env_ok_def)
  moreover have "rewritten dir (map_of (effective env (iter pm))) fs fs'"
    using env_ok_effective [OF ok']
    by (intro rewrite_success [OF iter _ _ assms(2) [unfolded applyParamOverrides_def Let_def set_overrides_static]]) auto
  ultimately show ?thesis by simp
qed

text \<open>From a file as it is written both succeed.\<close>

lemma printed_holds:
  assumes "printed dir fs m"
  shows "\<exists>params. holds_params dir fs params \<and> map_of params = map_of m"
proof -
  from assms have c: "fs_get fs (dir @ [''params.env'']) = Inr (File (print_params m))"
    and gone: "fs_view fs (dir @ [''params.env.tmp'']) = Inl ENOENT"
    and ok: "wf_map m" "\<forall>kv\<in>set m. ok_entry kv" by (auto simp: printed_def)
  have "writable_at (dir @ [''params.env.tmp'']) fs"
    using gone fs_get_parent [OF c] by (simp add: writable_at_def)
  with c envfile.parse_print [OF ok] show ?thesis unfolding holds_params_def by blast
qed

lemma printed_static:
  assumes "iterates iter" and "printed dir fs m" and "wf_map vals" "\<forall>kv\<in>set vals. ok_entry kv"
  shows "\<exists>fs'. applyStaticParams iter no_faults dir vals fs = (None, fs')"
proof -
  obtain params where "holds_params dir fs params" using printed_holds [OF assms(2)] by blast
  from static_effect [OF assms(1) this assms(3,4)] show ?thesis by blast
qed

lemma missing_unchanged:
  assumes "fs_get fs (dir @ [''params.env'']) = Inl ENOENT"
  shows "applyParamOverrides iter env no_faults dir pm fs = (None, fs)"
    and "applyStaticParams iter no_faults dir vals fs = (None, fs)"
  using assms by (simp_all add: applyParamOverrides_def applyStaticParams_def os_stat_def sys_def)

section \<open>One resource set\<close>

definition set_dir :: "ReconcilerConfig \<Rightarrow> resourceSet \<Rightarrow> path" where
  "set_dir m rs = WorkDir m @ [rs_subDir rs]"

definition overlay_dir :: "ReconcilerConfig \<Rightarrow> resourceSet \<Rightarrow> path" where
  "overlay_dir m rs = (if rs_overlay rs \<noteq> [] then set_dir m rs @ [rs_overlay rs] else set_dir m rs)"

text \<open>What follows the changes to the files, and the whole routine in these terms.\<close>

definition finish_set :: "render_env \<Rightarrow> ReconcilerConfig \<Rightarrow> resourceSet \<Rightarrow> fnode \<Rightarrow> unstructured list result" where
  "finish_set E m rs fs =
     (case renderOverlay (re_kustomize E) (overlay_dir m rs) (rs_namespace rs) fs of
        Inl e \<Rightarrow> Inl (Wrap (''rendering '' @ rs_name rs) e)
      | Inr rendered \<Rightarrow>
      (let rendered = (if rs_filterConfigMaps rs then filterConfigMaps rendered else rendered) in
      if rs_operandTLS rs
      then (case applyOperandTLSOptions (re_tables E) (re_unstructured E) (re_yaml E) rendered (TLSProfile m) of
              (Some e, rendered) \<Rightarrow> Inl (Wrap (''applying operand TLS options to '' @ rs_name rs) e)
            | (None, rendered) \<Rightarrow> Inr rendered)
      else Inr rendered))"

lemma finish_set_files:
  "(case renderOverlay (re_kustomize E) (overlay_dir m rs) (rs_namespace rs) fs of
      Inl e \<Rightarrow> (Inl (Wrap (''rendering '' @ rs_name rs) e), fs)
    | Inr rendered \<Rightarrow>
    (let rendered = (if rs_filterConfigMaps rs then filterConfigMaps rendered else rendered) in
    if rs_operandTLS rs
    then (case applyOperandTLSOptions (re_tables E) (re_unstructured E) (re_yaml E) rendered (TLSProfile m) of
            (Some e, rendered) \<Rightarrow> (Inl (Wrap (''applying operand TLS options to '' @ rs_name rs) e), fs)
          | (None, rendered) \<Rightarrow> (Inr rendered, fs))
    else (Inr rendered, fs))) = (finish_set E m rs fs, fs)"
  unfolding finish_set_def Let_def by (simp split: sum.split prod.split option.split)

lemma render_set_ok:
  "renderResourceSet E m rs fs = (Inr out, fs') \<longleftrightarrow>
     (\<exists>fs1 fs2. ensureWorkDir (re_io E) (rs_templatePath rs) (set_dir m rs) fs = (None, fs1) \<and>
        applyParamOverrides (re_iter E) (re_getenv E) (re_io E) (overlay_dir m rs) (rs_paramMap rs) fs1 = (None, fs2) \<and>
        (if length (rs_staticParams rs) > 0
         then applyStaticParams (re_iter E) (re_io E) (overlay_dir m rs) (rs_staticParams rs) fs2 else (None, fs2)) = (None, fs') \<and>
        finish_set E m rs fs' = Inr out)"
proof -
  obtain e1 fs1 where w: "ensureWorkDir (re_io E) (rs_templatePath rs) (set_dir m rs) fs = (e1, fs1)" by fastforce
  obtain e2 fs2 where o: "applyParamOverrides (re_iter E) (re_getenv E) (re_io E) (overlay_dir m rs) (rs_paramMap rs) fs1 = (e2, fs2)"
    by fastforce
  obtain e3 fs3 where st: "(if length (rs_staticParams rs) > 0
      then applyStaticParams (re_iter E) (re_io E) (overlay_dir m rs) (rs_staticParams rs) fs2 else (None, fs2)) = (e3, fs3)"
    by fastforce
  have "renderResourceSet E m rs fs =
      (case e1 of Some e \<Rightarrow> (Inl (Wrap (''preparing '' @ rs_name rs @ '' work directory'') e), fs1) | None \<Rightarrow>
      (case e2 of Some e \<Rightarrow> (Inl (Wrap (''resolving '' @ rs_name rs @ '' params'') e), fs2) | None \<Rightarrow>
      (case e3 of Some e \<Rightarrow> (Inl (Wrap (''applying '' @ rs_name rs @ '' static params'') e), fs3) | None \<Rightarrow>
        (finish_set E m rs fs3, fs3))))"
    unfolding renderResourceSet_def Let_def set_dir_def [symmetric] overlay_dir_def [symmetric] w prod.case o st
      finish_set_files [unfolded Let_def] ..
  then show ?thesis unfolding w using o st by (auto split: option.splits)
qed

text \<open>
  What kustomize may depend on: the files below the work directory of the set, of which it takes
  the parameter file as the map it lists.
\<close>

definition same_tree :: "ReconcilerConfig \<Rightarrow> resourceSet \<Rightarrow> fnode \<Rightarrow> fnode \<Rightarrow> bool" where
  "same_tree m rs fs fs' \<longleftrightarrow>
     (\<forall>q. prefix (set_dir m rs) q \<longrightarrow> fs_view fs' q = fs_view fs q \<or>
        (q = overlay_dir m rs @ [''params.env''] \<and>
         (\<exists>c c'. printed (overlay_dir m rs) fs c \<and> printed (overlay_dir m rs) fs' c' \<and> map_of c' = map_of c)))"

definition reads_work_tree :: "render_env \<Rightarrow> ReconcilerConfig \<Rightarrow> resourceSet \<Rightarrow> bool" where
  "reads_work_tree E m rs \<longleftrightarrow> (\<forall>opts fs fs'. same_tree m rs fs fs' \<longrightarrow>
     re_kustomize E (overlay_dir m rs) opts fs' = re_kustomize E (overlay_dir m rs) opts fs)"

definition set_ok :: "render_env \<Rightarrow> resourceSet \<Rightarrow> bool" where
  "set_ok E rs \<longleftrightarrow> env_ok (re_getenv E) (rs_paramMap rs) \<and>
     wf_map (rs_staticParams rs) \<and> (\<forall>kv\<in>set (rs_staticParams rs). ok_entry kv)"

text \<open>The values a rendering sets, and the state in which they are set already.\<close>

definition set_values :: "render_env \<Rightarrow> resourceSet \<Rightarrow> string \<rightharpoonup> string" where
  "set_values E rs = map_of (effective (re_getenv E) (rs_paramMap rs)) ++ map_of (rs_staticParams rs)"

definition filled :: "path \<Rightarrow> fnode \<Rightarrow> bool" where
  "filled d fs \<longleftrightarrow> fs_view fs d = Inr VDir \<and> (\<exists>x. fs_view fs (d @ [x]) \<noteq> Inl ENOENT)"

definition set_rendered :: "render_env \<Rightarrow> ReconcilerConfig \<Rightarrow> resourceSet \<Rightarrow> unstructured list \<Rightarrow> fnode \<Rightarrow> bool" where
  "set_rendered E m rs out fs \<longleftrightarrow> filled (set_dir m rs) fs \<and>
     (fs_view fs (overlay_dir m rs @ [''params.env'']) = Inl ENOENT \<or>
      (\<exists>c. printed (overlay_dir m rs) fs c \<and> map_of c ++ set_values E rs = map_of c)) \<and>
     finish_set E m rs fs = Inr out"

lemma filled_kept:
  assumes "filled d fs"
  shows "ensureWorkDir no_faults src d fs = (None, fs)"
proof -
  from assms obtain es x where es: "fs_get fs d = Inr (Dir es)" and x: "fs_view fs (d @ [x]) \<noteq> Inl ENOENT"
    by (auto simp: filled_def fs_view_dir_iff)
  from es x have "es \<noteq> []" by (auto simp: fs_view_def fs_get_append)
  with es show ?thesis by (cases es) (auto intro: ensureWorkDir_nonempty)
qed

lemma view_above:
  assumes "fs_get fs (d @ x # xs) = Inr n"
  shows "fs_view fs d = Inr VDir"
  using assms by (cases "fs_get fs d")
    (auto simp: fs_get_append fs_view_def split: fnode.splits elim: fs_get.elims)

lemma path_cases [case_names beside above at below]:
  obtains "(d @ [x]) \<parallel> q" | "prefix q d" | "q = d @ [x]" | y ys where "q = d @ [x] @ y # ys"
proof (cases "(d @ [x]) \<parallel> q")
  case False
  then consider "prefix q (d @ [x])" | ys where "q = (d @ [x]) @ ys" by (auto simp: parallel_def prefix_def)
  then show ?thesis
  proof cases
    case 2
    then show ?thesis using that(3,4) by (cases ys) auto
  qed (use that(2,3) in auto)
qed (rule that(1))

lemma printed_same_view:
  assumes "printed dir fs c" and "printed dir fs' c'"
    and frame: "(dir @ [''params.env'']) \<parallel> q \<Longrightarrow> (dir @ [''params.env.tmp'']) \<parallel> q \<Longrightarrow> fs_view fs' q = fs_view fs q"
    and "q \<noteq> dir @ [''params.env'']"
  shows "fs_view fs' q = fs_view fs q"
proof -
  let ?p = "dir @ [''params.env'']" and ?t = "dir @ [''params.env.tmp'']"
  have get: "fs_get fs ?p = Inr (File (print_params c))" "fs_get fs' ?p = Inr (File (print_params c'))"
    using assms(1,2) by (auto simp: printed_def)
  have gone: "fs_get fs ?t = Inl ENOENT" "fs_get fs' ?t = Inl ENOENT"
    using assms(1,2) by (auto simp: printed_def fs_view_def split: sum.splits)
  have deeper: "fs_get g (?t @ ys) = Inl ENOENT" if "fs_get g ?t = Inl ENOENT" for g ys
    using that unfolding fs_get_append [of g ?t] by simp
  have above: "fs_view fs' q = fs_view fs q" if "prefix q dir"
  proof -
    from that obtain r where "dir = q @ r" by (auto simp: prefix_def)
    then have "fs_view g q = Inr VDir" if "fs_get g ?p = Inr n" for g n
      using that view_above [of g q "hd (r @ [''params.env''])" "tl (r @ [''params.env''])"] by (cases r) auto
    with get show ?thesis by metis
  qed
  show ?thesis
  proof (cases rule: path_cases [of dir "''params.env''" q])
    case beside
    then show ?thesis
    proof (cases rule: path_cases [of dir "''params.env.tmp''" q])
      case (below y ys)
      with deeper [OF gone(1), of "y # ys"] deeper [OF gone(2), of "y # ys"] show ?thesis by (simp add: fs_view_def)
    qed (use frame above gone in \<open>simp_all add: fs_view_def\<close>)
  next
    case (below y ys)
    have "fs_view g (?p @ y # ys) = Inl ENOTDIR" if "fs_get g ?p = Inr (File c)" for g c
      using that unfolding fs_view_def fs_get_append [of g ?p] by simp
    with get below show ?thesis by simp
  qed (use above assms(4) in auto)
qed

lemma map_add_absorb: "(p ++ V) ++ V = p ++ V"
  by (rule ext) (simp add: map_add_def split: option.split)

lemma set_values_rewritten:
  assumes "iterates (re_iter E)" and "re_io E = no_faults" and "set_ok E rs"
    and "applyParamOverrides (re_iter E) (re_getenv E) (re_io E) dir (rs_paramMap rs) fs1 = (None, fs2)"
    and "(if length (rs_staticParams rs) > 0
      then applyStaticParams (re_iter E) (re_io E) dir (rs_staticParams rs) fs2 else (None, fs2)) = (None, fs3)"
  shows "rewritten dir (set_values E rs) fs1 fs3"
proof -
  have o: "rewritten dir (map_of (effective (re_getenv E) (rs_paramMap rs))) fs1 fs2"
    using assms(2-4) overrides_rewrite [OF assms(1)] by (auto simp: set_ok_def)
  show ?thesis
  proof (cases "rs_staticParams rs = []")
    case True
    with o assms(5) show ?thesis by (simp add: set_values_def)
  next
    case False
    with assms(2,3,5) have "rewritten dir (map_of (rs_staticParams rs)) fs2 fs3"
      using static_rewrites [OF assms(1)] by (auto simp: set_ok_def)
    with o show ?thesis unfolding set_values_def by (rule rewritten_trans)
  qed
qed

lemma finish_set_cong:
  assumes "reads_work_tree E m rs" and "same_tree m rs fs fs'"
  shows "finish_set E m rs fs' = finish_set E m rs fs"
  using assms unfolding reads_work_tree_def finish_set_def renderOverlay_def by simp

lemma first_set_rendered:
  assumes "iterates (re_iter E)" and "re_io E = no_faults" and "set_ok E rs"
    and "renderResourceSet E m rs fs = (Inr out, fs')" and "filled (set_dir m rs) fs'"
  shows "set_rendered E m rs out fs'"
proof -
  let ?dir = "overlay_dir m rs"
  from assms(4) obtain fs1 fs2 where run:
    "applyParamOverrides (re_iter E) (re_getenv E) (re_io E) ?dir (rs_paramMap rs) fs1 = (None, fs2)"
    "(if length (rs_staticParams rs) > 0
      then applyStaticParams (re_iter E) (re_io E) ?dir (rs_staticParams rs) fs2 else (None, fs2)) = (None, fs')"
    and fin: "finish_set E m rs fs' = Inr out"
    unfolding render_set_ok by blast
  from set_values_rewritten [OF assms(1-3) run]
  have "fs_view fs' (?dir @ [''params.env'']) = Inl ENOENT \<or>
      (\<exists>c. printed ?dir fs' c \<and> map_of c ++ set_values E rs = map_of c)"
    unfolding rewritten_def by (metis fs_view_def map_add_absorb sum.case(1))
  with assms(5) fin show ?thesis by (simp add: set_rendered_def)
qed

text \<open>Two files with the same map: the tree is the same for kustomize.\<close>

lemma printed_same_tree:
  assumes "printed (overlay_dir m rs) fs c" and "printed (overlay_dir m rs) fs' c'" and "map_of c' = map_of c"
    and "\<And>q. prefix (set_dir m rs) q \<Longrightarrow> (overlay_dir m rs @ [''params.env'']) \<parallel> q \<Longrightarrow>
      (overlay_dir m rs @ [''params.env.tmp'']) \<parallel> q \<Longrightarrow> fs_view fs' q = fs_view fs q"
  shows "same_tree m rs fs fs'"
  using assms printed_same_view [OF assms(1,2)] unfolding same_tree_def by blast

lemma filled_same_tree:
  assumes "same_tree m rs fs fs'" and "filled (set_dir m rs) fs"
  shows "filled (set_dir m rs) fs'"
proof -
  have "set_dir m rs \<noteq> overlay_dir m rs @ [''params.env'']" by (simp add: overlay_dir_def)
  with assms(1) have "fs_view fs' (set_dir m rs) = fs_view fs (set_dir m rs)" unfolding same_tree_def by blast
  moreover have "fs_view fs' (set_dir m rs @ [x]) \<noteq> Inl ENOENT" if "fs_view fs (set_dir m rs @ [x]) \<noteq> Inl ENOENT" for x
  proof -
    have "prefix (set_dir m rs) (set_dir m rs @ [x])" by simp
    with assms(1) consider "fs_view fs' (set_dir m rs @ [x]) = fs_view fs (set_dir m rs @ [x])"
      | c' where "set_dir m rs @ [x] = overlay_dir m rs @ [''params.env'']" "printed (overlay_dir m rs) fs' c'"
      unfolding same_tree_def by blast
    then show ?thesis using that by cases (auto simp: printed_def fs_view_def)
  qed
  ultimately show ?thesis using assms(2) unfolding filled_def by metis
qed

lemma rewrites_succeed:
  assumes iter: "iterates (re_iter E)" and io: "re_io E = no_faults" and ok: "set_ok E rs"
    and hold: "holds_params dir fs params"
  shows "\<exists>fs2 fs3. applyParamOverrides (re_iter E) (re_getenv E) (re_io E) dir (rs_paramMap rs) fs = (None, fs2) \<and>
    (if length (rs_staticParams rs) > 0
      then applyStaticParams (re_iter E) (re_io E) dir (rs_staticParams rs) fs2 else (None, fs2)) = (None, fs3)"
proof -
  obtain fs2 where o: "applyParamOverrides (re_iter E) (re_getenv E) (re_io E) dir (rs_paramMap rs) fs = (None, fs2)"
    using overrides_effect [OF iter hold, of "rs_paramMap rs" "re_getenv E"] ok io
    unfolding set_ok_def env_ok_def by auto
  have "rewritten dir (map_of (effective (re_getenv E) (rs_paramMap rs))) fs fs2"
    using o ok io overrides_rewrite [OF iter] by (auto simp: set_ok_def)
  with hold obtain c2 where "printed dir fs2 c2" by (auto simp: rewritten_def holds_params_def)
  from printed_static [OF iter this] o ok io show ?thesis by (auto simp: set_ok_def)
qed

lemma set_rendered_again:
  assumes iter: "iterates (re_iter E)" and io: "re_io E = no_faults" and ok: "set_ok E rs"
    and reads: "reads_work_tree E m rs" and ready: "set_rendered E m rs out fs"
  shows "\<exists>fs'. renderResourceSet E m rs fs = (Inr out, fs') \<and> set_rendered E m rs out fs'"
proof -
  let ?dir = "overlay_dir m rs"
  have full: "filled (set_dir m rs) fs" and fin: "finish_set E m rs fs = Inr out"
    using ready by (auto simp: set_rendered_def)
  note kept = filled_kept [OF full, of "rs_templatePath rs"]
  from ready consider "fs_get fs (?dir @ [''params.env'']) = Inl ENOENT"
    | c where "printed ?dir fs c" "map_of c ++ set_values E rs = map_of c"
    by (auto simp: set_rendered_def fs_view_def split: sum.splits)
  then show ?thesis
  proof cases
    case 1
    with kept fin ready io show ?thesis unfolding render_set_ok by (auto simp: missing_unchanged)
  next
    case (2 c)
    obtain params where "holds_params ?dir fs params" using printed_holds [OF 2(1)] by blast
    from rewrites_succeed [OF iter io ok this] obtain fs2 fs3 where run:
      "applyParamOverrides (re_iter E) (re_getenv E) (re_io E) ?dir (rs_paramMap rs) fs = (None, fs2)"
      "(if length (rs_staticParams rs) > 0
        then applyStaticParams (re_iter E) (re_io E) ?dir (rs_staticParams rs) fs2 else (None, fs2)) = (None, fs3)"
      by blast
    from set_values_rewritten [OF iter io ok run] 2(1) parse_printed [OF 2(1)] obtain c3 where c3: "printed ?dir fs3 c3"
      "map_of c3 = map_of c ++ set_values E rs"
      "\<And>q. (?dir @ [''params.env'']) \<parallel> q \<Longrightarrow> (?dir @ [''params.env.tmp'']) \<parallel> q \<Longrightarrow> fs_view fs3 q = fs_view fs q"
      by (auto simp: rewritten_def printed_def)
    have tree: "same_tree m rs fs fs3" by (rule printed_same_tree [OF 2(1) c3(1) _ c3(3)]) (use c3(2) 2(2) in simp)
    then have "finish_set E m rs fs3 = Inr out" using finish_set_cong [OF reads] fin by simp
    moreover have "filled (set_dir m rs) fs3" using tree full by (rule filled_same_tree)
    ultimately show ?thesis
      using kept run io c3 2(2) unfolding render_set_ok set_rendered_def by auto
  qed
qed

section \<open>All resource sets\<close>

text \<open>Rendering a set changes nothing below the work directory of another.\<close>

lemma other_set_view:
  assumes "rs_subDir rs' \<noteq> rs_subDir rs" and "prefix (set_dir m rs) q"
  shows "fs_view (snd (renderResourceSet E m rs' fs)) q = fs_view fs q"
proof -
  from assms(2) obtain zs where "q = WorkDir m @ rs_subDir rs # zs" by (auto simp: set_dir_def prefix_def)
  with assms(1) have "q \<parallel> WorkDir m @ [rs_subDir rs']" by (metis parallel_sibling)
  with outside_files.renderResourceSet_keeps [of q "WorkDir m @ [rs_subDir rs']" fs "fs_view fs q" m rs' E]
  show ?thesis by simp
qed

lemma other_sets_view:
  assumes "rs_subDir rs \<notin> rs_subDir ` set rss" and "prefix (set_dir m rs) q"
  shows "fs_view (fst (snd (render_sets E m rss fs rr))) q = fs_view fs q"
  using assms(1)
proof (induction rss arbitrary: fs rr)
  case (Cons rs' rss)
  obtain r fs1 where r: "renderResourceSet E m rs' fs = (r, fs1)" by fastforce
  from Cons.prems other_set_view [OF _ assms(2), of rs' E fs] r have "fs_view fs1 q = fs_view fs q" by auto
  with Cons r show ?case by (auto split: sum.split)
qed simp

lemma same_views_printed:
  assumes "\<And>q. prefix (set_dir m rs) q \<Longrightarrow> fs_view fs' q = fs_view fs q"
  shows "printed (overlay_dir m rs) fs' c = printed (overlay_dir m rs) fs c"
proof -
  have "prefix (set_dir m rs) (overlay_dir m rs @ x)" for x by (simp add: overlay_dir_def)
  with assms have "fs_view fs' (overlay_dir m rs @ x) = fs_view fs (overlay_dir m rs @ x)" for x by blast
  then show ?thesis unfolding printed_def fs_view_file_iff [symmetric] by simp
qed

lemma set_rendered_other:
  assumes "reads_work_tree E m rs" and "set_rendered E m rs out fs"
    and same: "\<And>q. prefix (set_dir m rs) q \<Longrightarrow> fs_view fs' q = fs_view fs q"
  shows "set_rendered E m rs out fs'"
proof -
  have "same_tree m rs fs fs'" using same by (simp add: same_tree_def)
  moreover have "fs_view fs' (overlay_dir m rs @ [''params.env'']) = fs_view fs (overlay_dir m rs @ [''params.env''])"
    using same by (simp add: overlay_dir_def)
  ultimately show ?thesis
    using assms(2) finish_set_cong [OF assms(1), of fs fs'] filled_same_tree [of m rs fs fs']
      same_views_printed [OF same]
    unfolding set_rendered_def by simp
qed

lemma first_sets_rendered:
  assumes iter: "iterates (re_iter E)" and io: "re_io E = no_faults"
    and sets: "\<forall>rs\<in>set rss. set_ok E rs \<and> reads_work_tree E m rs"
  shows "distinct (map rs_subDir rss) \<Longrightarrow> render_sets E m rss fs rr = (None, fs', rr') \<Longrightarrow>
    \<forall>rs\<in>set rss. filled (set_dir m rs) fs' \<Longrightarrow>
    \<exists>out. (\<forall>rs\<in>set rss. set_rendered E m rs (out rs) fs') \<and>
      rr' = rr\<lparr>Resources := Resources rr @ concat (map out rss)\<rparr>"
  using sets
proof (induction rss arbitrary: fs rr)
  case (Cons rs rss)
  from Cons.prems(2) obtain items fs1 where one: "renderResourceSet E m rs fs = (Inr items, fs1)"
    and rest: "render_sets E m rss fs1 (rr\<lparr>Resources := Resources rr @ items\<rparr>) = (None, fs', rr')"
    by (auto simp only: render_sets_ok)
  obtain out where out: "\<forall>rs\<in>set rss. set_rendered E m rs (out rs) fs'"
    "rr' = rr\<lparr>Resources := Resources rr @ items @ concat (map out rss)\<rparr>"
    using Cons.IH [OF _ rest] Cons.prems(1,3,4) by auto
  have same: "fs_view fs' q = fs_view fs1 q" if "prefix (set_dir m rs) q" for q
    using other_sets_view [OF _ that, of rss E fs1 "rr\<lparr>Resources := Resources rr @ items\<rparr>"] Cons.prems(1) rest by simp
  have "filled (set_dir m rs) fs1"
    using Cons.prems(3) same unfolding filled_def by simp
  with first_set_rendered [OF iter io _ one] Cons.prems(4) have "set_rendered E m rs items fs1" by simp
  then have "set_rendered E m rs items fs'" using set_rendered_other [OF _ _ same] Cons.prems(4) by auto
  moreover have notin: "rs \<notin> set rss" using Cons.prems(1) by auto
  ultimately have "\<forall>r\<in>set (rs # rss). set_rendered E m r ((out(rs := items)) r) fs'" using out(1) by auto
  moreover have "items @ concat (map out rss) = concat (map (out(rs := items)) (rs # rss))"
    using notin by (auto simp: fun_upd_def intro!: arg_cong [of _ _ concat])
  ultimately show ?case unfolding out(2) by (intro exI [of _ "out(rs := items)"]) (auto simp only:)
qed simp

lemma sets_rendered_again:
  assumes iter: "iterates (re_iter E)" and io: "re_io E = no_faults"
    and sets: "\<forall>rs\<in>A. set_ok E rs \<and> reads_work_tree E m rs" and inj: "inj_on rs_subDir A"
  shows "set rss \<subseteq> A \<Longrightarrow> \<forall>rs\<in>A. set_rendered E m rs (out rs) fs \<Longrightarrow>
    \<exists>fs'. render_sets E m rss fs rr = (None, fs', rr\<lparr>Resources := Resources rr @ concat (map out rss)\<rparr>) \<and>
      (\<forall>rs\<in>A. set_rendered E m rs (out rs) fs')"
proof (induction rss arbitrary: fs rr)
  case (Cons rs rss)
  then obtain fs1 where one: "renderResourceSet E m rs fs = (Inr (out rs), fs1)" "set_rendered E m rs (out rs) fs1"
    using set_rendered_again [OF iter io, of rs m "out rs" fs] sets by auto
  have "set_rendered E m rs' (out rs') fs1" if "rs' \<in> A" for rs'
  proof (cases "rs' = rs")
    case False
    with inj that Cons.prems(1) have "rs_subDir rs \<noteq> rs_subDir rs'" by (auto dest: inj_onD)
    from other_set_view [OF this, where m = m and E = E and fs = fs] one(1)
    have "fs_view fs1 q = fs_view fs q" if "prefix (set_dir m rs') q" for q using that by simp
    with set_rendered_other [of E m rs' "out rs'" fs fs1] sets Cons.prems(2) that show ?thesis by blast
  qed (use one in simp)
  with Cons.IH [of fs1 "rr\<lparr>Resources := Resources rr @ out rs\<rparr>"] Cons.prems(1) one(1) show ?case by auto
qed simp

section \<open>The action\<close>

text \<open>The files after each of a row of renderings, the \<open>n\<close>-th with its own order of iteration.\<close>

fun later_files ::
  "'w platform_api \<Rightarrow> render_env \<Rightarrow> ReconcilerConfig \<Rightarrow> 'w \<Rightarrow> request \<Rightarrow>
     (nat \<Rightarrow> (string, string) gomap \<Rightarrow> (string, string) gomap) \<Rightarrow> fnode \<Rightarrow> nat \<Rightarrow> fnode" where
  "later_files P E m w rr iters fs 0 = fs"
| "later_files P E m w rr iters fs (Suc n) =
     fst (snd (renderManifests P (E\<lparr>re_iter := iters n\<rparr>) m w (later_files P E m w rr iters fs n) rr))"

lemma other_order [simp]:
  "set_ok (E\<lparr>re_iter := i\<rparr>) rs = set_ok E rs"
  "reads_work_tree (E\<lparr>re_iter := i\<rparr>) m rs = reads_work_tree E m rs"
  "set_rendered (E\<lparr>re_iter := i\<rparr>) m rs out fs = set_rendered E m rs out fs"
  by (simp_all add: set_ok_def reads_work_tree_def set_rendered_def set_values_def finish_set_def Let_def
      cong: sum.case_cong if_cong)

lemma distinct_subdirs: "distinct (map rs_subDir (resource_sets m ct ns))"
  by (simp add: resource_sets_def manifests_set_def runtimes_set_def imagestreams_set_def)

lemma renderManifests_ok:
  "renderManifests P E m w fs rr = (None, fs', rr') \<longleftrightarrow> (\<exists>ct rr1. DetectClusterType P w = Inr ct \<and>
     render_sets E m (resource_sets m ct (resolveNamespace (Instance rr))) fs rr = (None, fs', rr1) \<and>
     rr' = rr1\<lparr>Generated := True\<rparr>)"
  by (auto simp: renderManifests_def Let_def split: sum.splits prod.splits option.splits)

text \<open>
  Rendering is stable: after a rendering that succeeded, every later one of the same request
  under the same TLS profile and environment, from the files the earlier ones left, succeeds and
  returns exactly the same resources, whatever order the parameter maps are iterated in each time. So a reconcile that has
  nothing new to do does not change the operand's configuration, its hash, or anything else that
  is deployed. Asked for are that no system call fails, that the values from the environment and
  the namespace fit the parameter file, that no template is empty, and that kustomize reads
  nothing but the work directory, taking the parameter file as the map it lists.
\<close>

lemma rendering_is_stable:
  assumes "renderManifests P E m w fs rr = (None, fs1, rr1)" and "DetectClusterType P w = Inr ct"
    and "re_io E = no_faults" and "iterates (re_iter E)" and "\<forall>n. iterates (iters n)"
    and "\<forall>rs\<in>set (resource_sets m ct (resolveNamespace (Instance rr))).
      set_ok E rs \<and> reads_work_tree E m rs \<and> filled (set_dir m rs) fs1"
  shows "\<forall>n. renderManifests P (E\<lparr>re_iter := iters n\<rparr>) m w (later_files P E m w rr iters fs1 n) rr =
    (None, later_files P E m w rr iters fs1 (Suc n), rr1)"
proof -
  let ?sets = "resource_sets m ct (resolveNamespace (Instance rr))" and ?files = "later_files P E m w rr iters fs1"
  from assms(1,2) obtain rr0 where first: "render_sets E m ?sets fs rr = (None, fs1, rr0)" "rr1 = rr0\<lparr>Generated := True\<rparr>"
    by (auto simp: renderManifests_ok)
  from first_sets_rendered [OF assms(4,3) _ distinct_subdirs first(1)] assms(6) obtain out where
    out: "\<forall>rs\<in>set ?sets. set_rendered E m rs (out rs) fs1"
    "rr0 = rr\<lparr>Resources := Resources rr @ concat (map out ?sets)\<rparr>" by blast
  have again: "\<exists>fs'. renderManifests P (E\<lparr>re_iter := iters n\<rparr>) m w g rr = (None, fs', rr1) \<and>
      (\<forall>rs\<in>set ?sets. set_rendered E m rs (out rs) fs')"
    if "\<forall>rs\<in>set ?sets. set_rendered E m rs (out rs) g" for g n
    using sets_rendered_again [of "E\<lparr>re_iter := iters n\<rparr>" "set ?sets" m ?sets out g rr] that assms(2-6) first(2) out(2)
      distinct_subdirs [of m ct "resolveNamespace (Instance rr)"]
    by (auto simp: renderManifests_ok distinct_map)
  have "\<forall>rs\<in>set ?sets. set_rendered E m rs (out rs) (?files n)" for n
  proof (induction n)
    case (Suc n)
    from again [OF Suc, of n] show ?case by auto
  qed (simp add: out)
  then show ?thesis using again [of "?files n" n for n] by (metis fst_conv later_files.simps(2) snd_conv)
qed

text \<open>A work directory with a parameter file, and one without.\<close>

definition kept_params :: "(string, string) gomap" where
  "kept_params = [(imageParamControllerImage, ''quay.io/o:1''), (''ns'', ''x''), (paramOperatorNamespace, defaultNamespace)]"

definition kept_fs :: fnode where
  "kept_fs = Dir [(''work'', Dir [(''manifests'', Dir [(''rhoai'', Dir [(''params.env'', File (print_params kept_params))])]),
     (''runtimes'', Dir [(''y.yaml'', File [])])])]"

definition sample_out :: "resourceSet \<Rightarrow> unstructured list" where
  "sample_out rs = (if rs_operandTLS rs then sample_rendered else filterConfigMaps sample_items)"

abbreviation sample_sets :: "resourceSet list" where
  "sample_sets \<equiv> resource_sets sample_config_paths ClusterTypeKubernetes defaultNamespace"

lemma sample_entries_ok:
  "ok_entry (imageParamControllerImage, ''quay.io/o:1'')" "ok_entry (paramOperatorNamespace, defaultNamespace)"
  "ok_entry (''ns'', ''x'')"
  by (simp_all add: imageParamControllerImage_def paramOperatorNamespace_def defaultNamespace_def ok_entry_eval)

lemma sample_sets_ok:
  "rs \<in> set sample_sets \<Longrightarrow> set_ok sample_render_env rs \<and> reads_work_tree sample_render_env sample_config_paths rs"
  using sample_entries_ok
  by (auto simp: reads_work_tree_def resource_sets_def set_ok_def env_ok_def manifests_set_def runtimes_set_def
      sample_render_env_def trainerImageParamMap_def runtimesParamMap_def sample_env_def wf_map_def
      relatedImageThTorchCuda_def relatedImageThTorchRocm_def relatedImageThTorchCpu_def
      relatedImageModelOptCuda_def relatedImageVllm_def)

lemma kept_params_absorb:
  "map_of kept_params ++ set_values sample_render_env (manifests_set sample_config_paths defaultNamespace) = map_of kept_params"
  by (rule ext) (simp add: kept_params_def set_values_def effective_def manifests_set_def sample_render_env_def
      trainerImageParamMap_def sample_env_def map_add_def imageParamControllerImage_def paramOperatorNamespace_def)

lemma kept_printed:
  "printed (overlay_dir sample_config_paths (manifests_set sample_config_paths defaultNamespace)) kept_fs kept_params"
  using sample_entries_ok
  by (simp add: printed_def kept_fs_def overlay_dir_def set_dir_def manifests_set_def defaultOverlay_def
      sample_config_paths_def wf_map_def kept_params_def imageParamControllerImage_def paramOperatorNamespace_def)

lemma sample_finish:
  "rs \<in> set sample_sets \<Longrightarrow> finish_set sample_render_env sample_config_paths rs fs = Inr (sample_out rs)"
  by (auto simp: resource_sets_def finish_set_def renderOverlay_def sample_out_def manifests_set_def runtimes_set_def
      sample_render_env_def sample_config_paths_def sample_apply)

lemma kept_rendered:
  assumes "rs \<in> set sample_sets"
  shows "set_rendered sample_render_env sample_config_paths rs (sample_out rs) kept_fs"
proof -
  have "rs = manifests_set sample_config_paths defaultNamespace \<or> rs = runtimes_set sample_config_paths"
    using assms by (auto simp: resource_sets_def)
  moreover have "filled (set_dir sample_config_paths rs) kept_fs"
    using calculation by (auto simp: filled_def set_dir_def kept_fs_def sample_config_paths_def manifests_set_def runtimes_set_def)
  moreover have "fs_view kept_fs (overlay_dir sample_config_paths (runtimes_set sample_config_paths) @ [''params.env'']) = Inl ENOENT"
    by (simp add: overlay_dir_def set_dir_def kept_fs_def sample_config_paths_def runtimes_set_def)
  ultimately show ?thesis
    using sample_finish [OF assms] kept_printed kept_params_absorb unfolding set_rendered_def by blast
qed

lemma sample_platform_facts:
  "DetectClusterType sample_platform () = Inr ClusterTypeKubernetes"
  "resolveNamespace (Instance empty_request) = defaultNamespace"
  "re_io sample_render_env = no_faults" "iterates (re_iter sample_render_env)"
  by (simp_all add: sample_platform_def resolveNamespace_def empty_request_def sample_render_env_def)

lemma sample_first_rendering:
  obtains fs1 rr0 where
    "render_sets sample_render_env sample_config_paths sample_sets kept_fs empty_request = (None, fs1, rr0)"
    and "renderManifests sample_platform sample_render_env sample_config_paths () kept_fs empty_request =
      (None, fs1, rr0\<lparr>Generated := True\<rparr>)"
    and "\<forall>rs\<in>set (resource_sets sample_config_paths ClusterTypeKubernetes (resolveNamespace (Instance empty_request))).
      set_ok sample_render_env rs \<and> reads_work_tree sample_render_env sample_config_paths rs \<and>
      filled (set_dir sample_config_paths rs) fs1"
proof -
  note ct = sample_platform_facts(1) and ns = sample_platform_facts(2)
  have "inj_on rs_subDir (set sample_sets)" using distinct_subdirs by (simp add: distinct_map)
  from sets_rendered_again [OF sample_platform_facts(4,3) _ this order.refl, of sample_config_paths sample_out kept_fs empty_request]
  obtain fs1 rr0 where first: "render_sets sample_render_env sample_config_paths sample_sets kept_fs empty_request = (None, fs1, rr0)"
    and full: "\<forall>rs\<in>set sample_sets. set_rendered sample_render_env sample_config_paths rs (sample_out rs) fs1"
    using sample_sets_ok kept_rendered by auto
  from first ct ns have run: "renderManifests sample_platform sample_render_env sample_config_paths () kept_fs empty_request =
      (None, fs1, rr0\<lparr>Generated := True\<rparr>)" by (simp add: renderManifests_ok)
  from full sample_sets_ok show ?thesis
    by (intro that [OF first run]) (simp add: ns set_rendered_def)
qed

lemma rendering_is_stable_witness:
  "\<exists>fs1 rr1. renderManifests sample_platform sample_render_env sample_config_paths () kept_fs empty_request = (None, fs1, rr1) \<and>
     renderManifests sample_platform (sample_render_env\<lparr>re_iter := rev\<rparr>) sample_config_paths ()
       (later_files sample_platform sample_render_env sample_config_paths () empty_request (\<lambda>_. rev) fs1 7)
       empty_request =
     (None, later_files sample_platform sample_render_env sample_config_paths () empty_request (\<lambda>_. rev) fs1 8, rr1)"
proof -
  have it: "\<forall>n :: nat. iterates rev" by simp
  obtain fs1 rr0 where run: "renderManifests sample_platform sample_render_env sample_config_paths () kept_fs empty_request =
      (None, fs1, rr0\<lparr>Generated := True\<rparr>)"
    and sets: "\<forall>rs\<in>set (resource_sets sample_config_paths ClusterTypeKubernetes (resolveNamespace (Instance empty_request))).
      set_ok sample_render_env rs \<and> reads_work_tree sample_render_env sample_config_paths rs \<and>
      filled (set_dir sample_config_paths rs) fs1"
    by (rule sample_first_rendering)
  from spec [OF rendering_is_stable [OF run sample_platform_facts(1,3,4) it sets], of 7] run
  show ?thesis by simp
qed

end
