(* ===== verification/Interleaving.thy ===== *)
theory Interleaving
  imports Main
begin

text \<open>
  A routine that makes one call at a time on a shared world, and others that change the world
  between its calls. The position of the routine is private to it; a call may change both, the
  others change only the world.
\<close>

section \<open>Runs\<close>

text \<open>
  The states a routine can be in when the others make only changes that \<open>rely\<close> allows, and the
  state after \<open>n\<close> calls when they make the changes \<open>env\<close> before the calls.
\<close>

inductive interleaved ::
  "('p \<times> 'w \<Rightarrow> 'p \<times> 'w) \<Rightarrow> ('w \<Rightarrow> 'w \<Rightarrow> bool) \<Rightarrow> 'p \<times> 'w \<Rightarrow> 'p \<times> 'w \<Rightarrow> bool"
  for call rely s where
  start: "interleaved call rely s s"
| own: "interleaved call rely s t \<Longrightarrow> interleaved call rely s (call t)"
| others: "interleaved call rely s (p, w) \<Longrightarrow> rely w w' \<Longrightarrow> interleaved call rely s (p, w')"

fun run_calls :: "('p \<times> 'w \<Rightarrow> 'p \<times> 'w) \<Rightarrow> (nat \<Rightarrow> 'w \<Rightarrow> 'w) \<Rightarrow> nat \<Rightarrow> 'p \<times> 'w \<Rightarrow> 'p \<times> 'w" where
  "run_calls call env 0 s = s"
| "run_calls call env (Suc n) s = (let (p, w) = run_calls call env n s in call (p, env n w))"

lemma run_calls_interleaved:
  assumes "\<And>n w. rely w (env n w)"
  shows "interleaved call rely s (run_calls call env n s)"
proof (induction n)
  case (Suc n)
  obtain p w where s: "run_calls call env n s = (p, w)" by fastforce
  with Suc assms have "interleaved call rely s (call (p, env n w))"
    by (auto intro: interleaved.intros)
  with s show ?case by simp
qed (simp add: interleaved.start)

lemma run_calls_first:
  "run_calls call env (Suc n) (p, w) = run_calls call (\<lambda>i. env (Suc i)) n (call (p, env 0 w))"
  by (induction n) auto

lemma run_calls_quiet: "run_calls call (\<lambda>n w. w) n s = (call ^^ n) s"
  by (induction n) auto

lemma funpow_interleaved: "interleaved call rely s ((call ^^ n) s)"
  by (induction n) (auto intro: interleaved.intros)

text \<open>Calls one after the other with no change by others in between.\<close>

definition reaches :: "('s \<Rightarrow> 's) \<Rightarrow> 's \<Rightarrow> 's \<Rightarrow> bool" where
  "reaches call s t \<longleftrightarrow> (\<exists>n. (call ^^ n) s = t)"

lemma reaches_refl [simp]: "reaches call s s"
  by (auto simp: reaches_def intro: exI [of _ 0])

lemma reaches_trans: "reaches call s t \<Longrightarrow> reaches call t u \<Longrightarrow> reaches call s u"
  by (auto simp: reaches_def) (metis comp_apply funpow_add)

lemma reaches_call: "reaches call (call s) t \<Longrightarrow> reaches call s t"
  by (auto simp: reaches_def) (metis comp_apply funpow_Suc_right)

section \<open>Routines that end\<close>

text \<open>
  Each call of a routine that has not finished brings its position down in a well-founded order,
  whatever the world is. Such a routine finishes under any interference, and stays as it is.
\<close>

locale descending_calls =
  fixes call :: "'p \<times> 'w \<Rightarrow> 'p \<times> 'w"
    and finished :: "'p \<Rightarrow> bool"
    and order :: "('p \<times> 'p) set"
  assumes order_wf: "wf order"
    and descends: "\<not> finished p \<Longrightarrow> (fst (call (p, w)), p) \<in> order"
    and stays: "finished p \<Longrightarrow> call (p, w) = (p, w)"
begin

lemma finishes: "\<exists>n. finished (fst (run_calls call env n (p, w)))"
  using order_wf
proof (induction p arbitrary: env w rule: wf_induct_rule)
  case (less p)
  show ?case
  proof (cases "finished p")
    case True
    then have "finished (fst (run_calls call env 0 (p, w)))" by simp
    then show ?thesis by blast
  next
    case False
    obtain p1 w1 where c: "call (p, env 0 w) = (p1, w1)" by fastforce
    with descends [OF False, of "env 0 w"] have "(p1, p) \<in> order" by simp
    from less.IH [OF this, of "\<lambda>i. env (Suc i)" w1] c
    obtain n where "finished (fst (run_calls call env (Suc n) (p, w)))"
      by (auto simp only: run_calls_first)
    then show ?thesis by blast
  qed
qed

lemma stays_finished:
  "finished (fst (run_calls call env n s)) \<Longrightarrow> n \<le> m \<Longrightarrow>
     fst (run_calls call env m s) = fst (run_calls call env n s)"
proof (induction m)
  case (Suc m)
  then show ?case by (cases "n = Suc m") (auto simp: stays split_beta)
qed simp

lemma ends_for_good:
  "\<exists>n p. finished p \<and> (\<forall>m\<ge>n. fst (run_calls call env m s) = p)"
  using finishes [of env "fst s" "snd s"] stays_finished [of env _ s] by (metis prod.collapse)

end

end
