(* ===== verification/Params_Crash.thy ===== *)
theory Params_Crash
  imports Params Interleaving
begin

text \<open>
  \<^verbatim>\<open>writeParams\<close> (internal/controller/params.go) one system call at a time, for the moments between
  the calls: the process can be killed there, and others can read the files. The world of the
  routine is the file system together with the outcome of the next call, which varies freely from
  call to call. What a killed process leaves is the state after the calls it made. A write that is
  interrupted leaves a part of its bytes, and \<^verbatim>\<open>os.Rename\<close> replaces the target in one step. The
  file system here is what later calls see; what survives a loss of power is not modelled (the
  code never calls \<^verbatim>\<open>Sync\<close>).
\<close>

section \<open>The calls\<close>

text \<open>\<^verbatim>\<open>Write\<close> of a \<^verbatim>\<open>bufio.Writer\<close>: the pieces it passes on, and what stays in the buffer.\<close>

definition bufio_size :: nat where
  "bufio_size = 4096"

definition bufio_write :: "string \<Rightarrow> string \<Rightarrow> string list \<times> string" where
  "bufio_write buf p =
     (let avail = bufio_size - length buf in
      if length p \<le> avail then ([], buf @ p)
      else if buf = [] then ([p], [])
      else let rest = drop avail p in
        if length rest \<le> bufio_size then ([buf @ take avail p], rest)
        else ([buf @ take avail p, rest], []))"

lemma bufio_write_content: "bufio_write buf p = (cs, buf') \<Longrightarrow> concat cs @ buf' = buf @ p"
  by (auto simp: bufio_write_def Let_def split: if_splits)

lemma bufio_write_pieces: "bufio_write buf p = (cs, buf') \<Longrightarrow> length cs \<le> 2"
  by (auto simp: bufio_write_def Let_def split: if_splits)

definition fs_append :: "path \<Rightarrow> string \<Rightarrow> fnode \<Rightarrow> fnode" where
  "fs_append p c fs =
     (case fs_get fs p of Inr (File d) \<Rightarrow> fs_write p (d @ c) fs | _ \<Rightarrow> fs)"

text \<open>
  The position in the routine. \<open>Printing cs kvs buf\<close> is in the loop over the entries, with the
  pieces \<open>cs\<close> of the current \<^verbatim>\<open>Fprintf\<close> to be passed on, the entries \<open>kvs\<close> still to come and
  \<open>buf\<close> buffered; \<open>Discarding e\<close> is before the removal of the temporary file on an error.
\<close>

datatype write_pc =
    Creating
  | Printing "string list" "(string, string) gomap" string
  | Flushing string
  | Closing
  | Discarding goerr
  | Renaming
  | Returned "goerr option"

fun write_call ::
  "((string, string) gomap \<Rightarrow> (string, string) gomap) \<Rightarrow> path \<Rightarrow> (string, string) gomap \<Rightarrow>
     write_pc \<times> io_env \<times> fnode \<Rightarrow> write_pc \<times> io_env \<times> fnode" where
  "write_call iter p params (Creating, io, fs) =
     (case os_create io (tmp_path p) fs of
        Inl e \<Rightarrow> (Returned (Some e), io, fs)
      | Inr fs1 \<Rightarrow> (Printing [] (iter params) [], io, fs1))"
| "write_call iter p params (Printing (c # cs) kvs buf, io, fs) =
     (if faults io WriteOp (tmp_path p)
      then (Discarding (sys EIO ''write''), io,
            fs_append (tmp_path p) (take (partial io (tmp_path p)) c) fs)
      else (Printing cs kvs buf, io, fs_append (tmp_path p) c fs))"
| "write_call iter p params (Printing [] (kv # kvs) buf, io, fs) =
     (let (cs, buf') = bufio_write buf (param_line kv) in (Printing cs kvs buf', io, fs))"
| "write_call iter p params (Printing [] [] buf, io, fs) = (Flushing buf, io, fs)"
| "write_call iter p params (Flushing buf, io, fs) =
     (if buf = [] then (Closing, io, fs)
      else if faults io FlushOp (tmp_path p)
      then (Discarding (sys EIO ''write''), io,
            fs_append (tmp_path p) (take (partial io (tmp_path p)) buf) fs)
      else (Closing, io, fs_append (tmp_path p) buf fs))"
| "write_call iter p params (Closing, io, fs) =
     (if faults io CloseOp (tmp_path p) then (Discarding (sys EIO ''close''), io, fs)
      else (Renaming, io, fs))"
| "write_call iter p params (Discarding e, io, fs) =
     (Returned (Some e), io, os_remove io (tmp_path p) fs)"
| "write_call iter p params (Renaming, io, fs) =
     (let (r, fs') = os_rename io (tmp_path p) p fs in (Returned r, io, fs'))"
| "write_call iter p params (Returned r, io, fs) = (Returned r, io, fs)"

text \<open>What varies between the calls: the outcome of the next one, not the files.\<close>

definition outcomes_vary :: "io_env \<times> fnode \<Rightarrow> io_env \<times> fnode \<Rightarrow> bool" where
  "outcomes_vary w w' \<longleftrightarrow> snd w' = snd w"

section \<open>Every run ends\<close>

fun calls_left :: "nat \<Rightarrow> write_pc \<Rightarrow> nat" where
  "calls_left n Creating = 3 * n + 5"
| "calls_left n (Printing cs kvs buf) = length cs + 3 * length kvs + 4"
| "calls_left n (Flushing buf) = 3"
| "calls_left n Closing = 2"
| "calls_left n (Discarding e) = 1"
| "calls_left n Renaming = 1"
| "calls_left n (Returned r) = 0"

fun has_returned :: "write_pc \<Rightarrow> bool" where
  "has_returned (Returned r) = True"
| "has_returned _ = False"

lemma has_returnedE: "has_returned pc \<Longrightarrow> (\<And>r. pc = Returned r \<Longrightarrow> P) \<Longrightarrow> P"
  by (cases pc) auto

lemma calls_left_decreases:
  "\<not> has_returned pc \<Longrightarrow>
     calls_left (length (iter params)) (fst (write_call iter p params (pc, io, fs))) <
     calls_left (length (iter params)) pc"
  by (cases "(iter, p, params, (pc, io, fs))" rule: write_call.cases)
    (auto split: sum.split prod.split dest: bufio_write_pieces)

interpretation writing: descending_calls "write_call iter p params" has_returned
    "measure (calls_left (length (iter params)))"
  for iter p params
proof
  fix pc :: write_pc and w :: "io_env \<times> fnode"
  show "wf (measure (calls_left (length (iter params))))" by simp
  show "(fst (write_call iter p params (pc, w)), pc) \<in> measure (calls_left (length (iter params)))"
    if "\<not> has_returned pc"
    using calls_left_decreases [OF that] by (cases w) simp
  show "write_call iter p params (pc, w) = (pc, w)" if "has_returned pc"
    using that by (cases w) (auto elim: has_returnedE)
qed

section \<open>The files between the calls\<close>

lemma dir_set_again [simp]: "dir_set x m (dir_set x n es) = dir_set x m es"
  by (induction x n es rule: dir_set.induct) auto

lemma fs_put_over: "fs_put p v fs = Inr fs' \<Longrightarrow> fs_put p w fs' = fs_put p w fs"
proof (induction p v fs arbitrary: fs' rule: fs_put.induct)
  case (3 x y ys v es)
  then show ?case by (fastforce split: option.splits sum.splits)
qed auto

lemma fs_write_over:
  assumes "os_create io p fs = Inr fs1"
  shows "fs_write p d (fs_write p c fs1) = fs_write p d fs1"
  using fs_put_over [OF fs_write_opened [OF assms, of c], of "File d"]
    fs_write_opened [OF assms, of d]
  by (simp add: fs_write_def [of p d "fs_write p c fs1"])

lemma fs_write_created:
  assumes "os_create io p fs = Inr fs1"
  shows "fs_write p [] fs1 = fs1"
  using fs_put_over [OF os_create_Inr [OF assms], of "File []"] os_create_Inr [OF assms]
  by (simp add: fs_write_def)

lemma fs_append_written:
  assumes "os_create io p fs = Inr fs1"
  shows "fs_append p d (fs_write p c fs1) = fs_write p (c @ d) fs1"
  using os_create_write_view(1) [OF assms] fs_write_over [OF assms] by (simp add: fs_append_def)

lemma os_create_quiet: "os_create io p fs = Inr fs1 \<Longrightarrow> os_create no_faults p fs = Inr fs1"
  by (auto simp: os_create_def split: if_splits)

text \<open>
  What the position says about the files, as they are left by \<open>writeParams\<close> under some outcome of
  its calls once it has returned: the part of the text that reached the temporary file, and
  together with what is still buffered or to come it is the whole text.
\<close>

definition holds_tmp :: "path \<Rightarrow> fnode \<Rightarrow> string \<Rightarrow> fnode \<Rightarrow> bool" where
  "holds_tmp p fs c fs' \<longleftrightarrow>
     (\<exists>fs1. os_create no_faults (tmp_path p) fs = Inr fs1 \<and> fs' = fs_write (tmp_path p) c fs1)"

lemma holds_tmp_append:
  "holds_tmp p fs c fs' \<Longrightarrow> holds_tmp p fs (c @ d) (fs_append (tmp_path p) d fs')"
  by (auto simp: holds_tmp_def fs_append_written)

lemma holds_tmp_created: "os_create io (tmp_path p) fs = Inr fs1 \<Longrightarrow> holds_tmp p fs [] fs1"
  using os_create_quiet [of io "tmp_path p" fs fs1]
  by (auto simp: holds_tmp_def fs_write_created)

fun files_at ::
  "((string, string) gomap \<Rightarrow> (string, string) gomap) \<Rightarrow> path \<Rightarrow> (string, string) gomap \<Rightarrow>
     fnode \<Rightarrow> write_pc \<Rightarrow> fnode \<Rightarrow> bool" where
  "files_at iter p params fs Creating fs' \<longleftrightarrow> fs' = fs"
| "files_at iter p params fs (Printing cs kvs buf) fs' \<longleftrightarrow>
     (\<exists>c. holds_tmp p fs c fs' \<and>
        c @ concat cs @ buf @ print_params kvs = print_params (iter params))"
| "files_at iter p params fs (Flushing buf) fs' \<longleftrightarrow>
     (\<exists>c. holds_tmp p fs c fs' \<and> c @ buf = print_params (iter params))"
| "files_at iter p params fs Closing fs' \<longleftrightarrow> holds_tmp p fs (print_params (iter params)) fs'"
| "files_at iter p params fs Renaming fs' \<longleftrightarrow> holds_tmp p fs (print_params (iter params)) fs'"
| "files_at iter p params fs (Discarding e) fs' \<longleftrightarrow>
     (e = sys EIO ''close'' \<and> holds_tmp p fs (print_params (iter params)) fs') \<or>
     (e = sys EIO ''write'' \<and> (\<exists>n. holds_tmp p fs (take n (print_params (iter params))) fs'))"
| "files_at iter p params fs (Returned r) fs' \<longleftrightarrow> (\<exists>io. writeParams iter io p params fs = (r, fs'))"

lemma print_params_Cons [simp]: "print_params (kv # kvs) = param_line kv @ print_params kvs"
  by (simp add: print_params_def)

lemma print_params_Nil [simp]: "print_params [] = []"
  by (simp add: print_params_def)

lemma concat_step: "bufio_write buf (param_line kv) = (cs, buf') \<Longrightarrow>
    concat cs @ buf' @ print_params kvs = buf @ print_params (kv # kvs)"
  by (simp flip: append_assoc add: bufio_write_content)

text \<open>A run of the detailed calls that fails leaves what \<open>writeParams\<close> leaves when that call fails.\<close>

definition fails_at :: "fs_op \<Rightarrow> nat \<Rightarrow> io_env \<Rightarrow> io_env" where
  "fails_at op n io =
     \<lparr>faults = (\<lambda>op' p. op' = op \<or> op' = RemoveOp \<and> faults io RemoveOp p), partial = (\<lambda>_. n)\<rparr>"

lemma discarded:
  assumes "files_at iter p params fs (Discarding e) fs'"
  shows "\<exists>io'. writeParams iter io' p params fs = (Some e, os_remove io (tmp_path p) fs')"
proof -
  let ?text = "print_params (iter params)"
  have close: "writeParams iter (fails_at CloseOp 0 io) p params fs =
      (Some (sys EIO ''close''), os_remove io (tmp_path p) fs')" if "holds_tmp p fs ?text fs'"
    using that
    by (auto simp: writeParams_def Let_def fails_at_def holds_tmp_def os_create_def os_remove_def
        split: sum.splits fnode.splits)
  have part: "writeParams iter (fails_at WriteOp n io) p params fs =
      (Some (sys EIO ''write''), os_remove io (tmp_path p) fs')"
    if "holds_tmp p fs (take n ?text) fs'" for n
    using that
    by (auto simp: writeParams_def Let_def fails_at_def holds_tmp_def os_create_def os_remove_def
        split: sum.splits fnode.splits)
  from assms close part show ?thesis by auto
qed

lemma renamed:
  assumes "files_at iter p params fs Renaming fs'" and "os_rename io (tmp_path p) p fs' = (r, fs'')"
  shows "\<exists>io'. writeParams iter io' p params fs = (r, fs'')"
proof -
  let ?io = "\<lparr>faults = (\<lambda>op q. op = RenameOp \<and> faults io RenameOp q), partial = (\<lambda>_. 0)\<rparr>"
  have "writeParams iter ?io p params fs = (r, fs'')"
    using assms
    by (auto simp: writeParams_def Let_def holds_tmp_def os_create_def os_rename_def
        split: sum.splits fnode.splits if_splits)
  then show ?thesis by blast
qed

lemma written_part:
  assumes "holds_tmp p fs c fs'" and "c @ d @ e = t"
  shows "\<exists>n. holds_tmp p fs (take n t) (fs_append (tmp_path p) (take k d) fs')"
proof -
  have "take (length c + min k (length d)) t = c @ take k d"
    using assms(2) by (auto simp: min_def)
  with holds_tmp_append [OF assms(1), of "take k d"] show ?thesis by metis
qed

lemma files_at_creating:
  assumes "write_call iter p params (Creating, io, fs) = (pc', io', fs2)"
  shows "files_at iter p params fs pc' fs2"
proof (cases "os_create io (tmp_path p) fs")
  case (Inl e)
  then have "writeParams iter io p params fs = (Some e, fs)"
    by (simp add: writeParams_def)
  with Inl assms show ?thesis by auto
next
  case (Inr fs')
  with assms holds_tmp_created show ?thesis by auto
qed

lemma files_at_printing:
  assumes "files_at iter p params fs (Printing cs kvs buf) fs1"
    and "write_call iter p params (Printing cs kvs buf, io, fs1) = (pc', io', fs2)"
  shows "files_at iter p params fs pc' fs2"
proof -
  from assms(1) obtain c where c: "holds_tmp p fs c fs1"
      "c @ concat cs @ buf @ print_params kvs = print_params (iter params)"
    by auto
  show ?thesis
  proof (cases cs)
    case Nil
    show ?thesis
    proof (cases kvs)
      case (Cons kv kvs')
      obtain ds buf' where b: "bufio_write buf (param_line kv) = (ds, buf')" by fastforce
      from c Nil Cons have "c @ buf @ print_params (kv # kvs') = print_params (iter params)"
        by simp
      with concat_step [OF b, of kvs']
      have "c @ concat ds @ buf' @ print_params kvs' = print_params (iter params)" by metis
      with assms(2) Nil Cons b c(1) show ?thesis by auto
    qed (use Nil assms c in auto)
  next
    case (Cons d ds)
    with c have t: "c @ d @ (concat ds @ buf @ print_params kvs) = print_params (iter params)"
      by simp
    show ?thesis
    proof (cases "faults io WriteOp (tmp_path p)")
      case True
      with written_part [OF c(1) t] Cons assms(2) show ?thesis by auto
    next
      case False
      with Cons assms(2) holds_tmp_append [OF c(1), of d] t show ?thesis
        by (auto intro!: exI [of _ "c @ d"])
    qed
  qed
qed

lemma files_at_flushing:
  assumes "files_at iter p params fs (Flushing buf) fs1"
    and "write_call iter p params (Flushing buf, io, fs1) = (pc', io', fs2)"
  shows "files_at iter p params fs pc' fs2"
proof -
  from assms(1) obtain c where c: "holds_tmp p fs c fs1" "c @ buf = print_params (iter params)"
    by auto
  then have "c @ buf @ [] = print_params (iter params)" by simp
  from written_part [OF c(1) this] holds_tmp_append [OF c(1), of buf] assms(2) c
  show ?thesis by (auto split: if_splits)
qed

lemma files_at_call:
  assumes "files_at iter p params fs pc fs1"
    and "write_call iter p params (pc, io, fs1) = (pc', io', fs2)"
  shows "files_at iter p params fs pc' fs2"
proof (cases pc)
  case Creating
  with assms files_at_creating [of iter p params io fs pc' io' fs2] show ?thesis by simp
next
  case (Printing cs kvs buf)
  with assms files_at_printing show ?thesis by blast
next
  case (Flushing buf)
  with assms files_at_flushing show ?thesis by blast
next
  case Closing
  with assms show ?thesis by (auto split: if_splits)
next
  case (Discarding e)
  with assms discarded [of iter p params fs e fs1 io] show ?thesis by auto
next
  case Renaming
  obtain r fs' where "os_rename io (tmp_path p) p fs1 = (r, fs')" by fastforce
  with Renaming assms renamed [of iter p params fs fs1 io] show ?thesis by auto
next
  case (Returned r)
  with assms show ?thesis by auto
qed

lemma files_between_calls:
  assumes "interleaved (write_call iter p params) outcomes_vary (Creating, io, fs) s"
  shows "files_at iter p params fs (fst s) (snd (snd s))"
  using assms
proof (induction rule: interleaved.induct)
  case (own t)
  then show ?case
    using files_at_call [of iter p params fs "fst t" "snd (snd t)" "fst (snd t)"]
    by (metis prod.collapse)
qed (simp_all add: outcomes_vary_def)

text \<open>
  To be killed is to fail: what a killed write leaves is what some failing write leaves whose
  clean-up fails as well. So an invariant of the files under failing calls holds under kills too.
\<close>

lemma failed_leaving:
  assumes "holds_tmp p fs (take n (print_params (iter params))) fs'"
  shows "\<exists>io r. writeParams iter io p params fs = (r, fs')"
proof -
  let ?io = "\<lparr>faults = (\<lambda>op q. op = WriteOp \<or> op = RemoveOp), partial = (\<lambda>_. n)\<rparr>"
  have "writeParams iter ?io p params fs = (Some (sys EIO ''write''), fs')"
    using assms
    by (auto simp: writeParams_def Let_def holds_tmp_def os_create_def os_remove_def
        split: sum.splits fnode.splits)
  then show ?thesis by blast
qed

lemma failed_leaving_prefix:
  assumes "holds_tmp p fs c fs'" and "c @ d = print_params (iter params)"
  shows "\<exists>io r. writeParams iter io p params fs = (r, fs')"
proof -
  have "take (length c) (print_params (iter params)) = c" by (simp flip: assms(2))
  with assms(1) failed_leaving [of p fs "length c" iter params fs'] show ?thesis by simp
qed

lemma killed_is_failed:
  assumes "files_at iter p params fs pc fs'"
  shows "\<exists>io r. writeParams iter io p params fs = (r, fs')"
proof (cases pc)
  case Creating
  have "writeParams iter \<lparr>faults = (\<lambda>op q. True), partial = (\<lambda>_. 0)\<rparr> p params fs =
      (Some (sys EIO ''open''), fs)"
    by (simp add: writeParams_def os_create_def)
  with Creating assms show ?thesis by auto
next
  case (Discarding e)
  with assms failed_leaving failed_leaving_prefix [of p fs "print_params (iter params)" fs' "[]"]
  show ?thesis by fastforce
qed (use assms failed_leaving_prefix [of p fs _ fs'] in \<open>auto simp: failed_leaving_prefix\<close>)

text \<open>
  Every run of the detailed calls ends, and it ends with the result and the files that
  \<open>writeParams\<close> has for some outcome of its calls: the model in one step leaves no behaviour out.
\<close>

lemma write_calls_implement:
  assumes "\<And>n w. outcomes_vary w (env n w)"
  shows "\<exists>n r io' fs' io1. run_calls (write_call iter p params) env n (Creating, io, fs) =
      (Returned r, io', fs') \<and> writeParams iter io1 p params fs = (r, fs')"
proof -
  obtain n where n: "has_returned
      (fst (run_calls (write_call iter p params) env n (Creating, (io, fs))))"
    using writing.finishes by blast
  let ?s = "run_calls (write_call iter p params) env n (Creating, (io, fs))"
  obtain r io' fs' where s: "?s = (Returned r, io', fs')"
    using n by (metis has_returnedE prod.collapse)
  have "interleaved (write_call iter p params) outcomes_vary (Creating, io, fs) ?s"
    by (rule run_calls_interleaved) (rule assms)
  from files_between_calls [OF this] s show ?thesis by fastforce
qed

section \<open>What a reader sees, and what a killed process leaves\<close>

lemma holds_tmp_view: "holds_tmp p fs c fs' \<Longrightarrow> tmp_path p \<parallel> q \<Longrightarrow> fs_view fs' q = fs_view fs q"
  by (auto simp: holds_tmp_def os_create_write_view(2))

lemma files_at_view:
  assumes "files_at iter p params fs pc fs'" and "p \<noteq> []"
  shows "(if pc = Returned None then fs_get fs' p = Inr (File (print_params (iter params)))
          else fs_view fs' p = fs_view fs p) \<and>
    (\<forall>q. p \<parallel> q \<longrightarrow> tmp_path p \<parallel> q \<longrightarrow> fs_view fs' q = fs_view fs q)"
proof (cases "has_returned pc")
  case True
  then obtain r io where "pc = Returned r" "writeParams iter io p params fs = (r, fs')"
    using assms(1) by (fastforce elim: has_returnedE)
  with writeParams_outcome [OF this(2) assms(2)] show ?thesis by (cases r) auto
next
  case False
  then have "fs_view fs' q = fs_view fs q" if "tmp_path p \<parallel> q" for q
    using assms(1) holds_tmp_view [OF _ that] by (cases pc) auto
  with False tmp_parallel [OF assms(2)] show ?thesis by auto
qed

text \<open>
  C18: \<^verbatim>\<open>writeParams\<close> can be killed at any moment: between any two of its system calls, whatever
  failed so far and however its buffered text was cut into writes, the parameter file shows
  exactly what it showed before, or, once the rename was done, the complete new text; no other
  path than the temporary file has changed. A concurrent reader sees no other contents either.
\<close>

theorem writeParams_crash_safe:
  assumes "interleaved (write_call iter p params) outcomes_vary (Creating, io, fs) (pc, io', fs')"
    and "p \<noteq> []"
  shows "(if pc = Returned None then fs_get fs' p = Inr (File (print_params (iter params)))
          else fs_view fs' p = fs_view fs p) \<and>
    (\<forall>q. p \<parallel> q \<longrightarrow> tmp_path p \<parallel> q \<longrightarrow> fs_view fs' q = fs_view fs q)"
  using files_between_calls [OF assms(1)] by (intro files_at_view [OF _ assms(2)]) simp

text \<open>Killed between the write of the text and the close: the old file stays in place.\<close>

theorem writeParams_crash_safe_witness:
  "let s = (write_call rev [''rhoai'', ''params.env''] [(''a'', ''2''), (''b'', ''3'')] ^^ 5)
             (Creating, no_faults, params_fs)
   in fst s = Closing \<and> fs_get (snd (snd s)) [''rhoai'', ''params.env.tmp''] \<noteq> Inl ENOENT \<and>
      fs_view (snd (snd s)) [''rhoai'', ''params.env''] =
        fs_view params_fs [''rhoai'', ''params.env'']"
proof -
  let ?s = "(write_call rev [''rhoai'', ''params.env''] [(''a'', ''2''), (''b'', ''3'')] ^^ 5)
             (Creating, no_faults, params_fs)"
  obtain pc io fs' where s: "?s = (pc, io, fs')" by (metis prod.collapse)
  have at: "pc = Closing" "fs_get fs' [''rhoai'', ''params.env.tmp''] \<noteq> Inl ENOENT"
    using s by (auto simp: numeral_eq_Suc os_create_def params_fs_def tmp_path_def bufio_write_def
        bufio_size_def param_line_def fs_append_def fs_write_def newline_def)
  from funpow_interleaved have "interleaved
      (write_call rev [''rhoai'', ''params.env''] [(''a'', ''2''), (''b'', ''3'')])
      outcomes_vary (Creating, no_faults, params_fs) (pc, io, fs')"
    unfolding s [symmetric] .
  from writeParams_crash_safe [OF this] at s show ?thesis by (simp add: Let_def)
qed

section \<open>Starting again after an interruption\<close>

text \<open>The temporary file that is left behind does not stop the next write.\<close>

lemma fs_put_leaf_parent: "fs_put (d @ [x]) v fs = Inr fs' \<Longrightarrow> fs_view fs' d = Inr VDir"
  using fs_view_put_above by blast

lemma tmp_writable_put:
  "fs_put (tmp_path p) (File c) fs = Inr fs' \<Longrightarrow> writable_at (tmp_path p) fs'"
  using fs_put_leaf_parent [of "butlast p" "last p @ ''.tmp''" "File c" fs fs']
    fs_get_put_same [of "tmp_path p" "File c" fs fs']
  by (auto simp: writable_at_def tmp_path_def fs_view_def)

lemma tmp_writable_del:
  assumes "writable_at (tmp_path p) fs"
  shows "writable_at (tmp_path p) (fs_del (tmp_path p) fs)"
proof -
  have "fs_view fs (butlast p) = Inr VDir" using assms by (simp add: writable_at_def tmp_path_def)
  with fs_view_del_above [of "butlast p" "last p @ ''.tmp''" "[]" fs]
    fs_view_del_same [of fs "butlast p" "last p @ ''.tmp''"]
  show ?thesis by (simp add: writable_at_def tmp_path_def)
qed

lemma tmp_writable_holds: "holds_tmp p fs c fs' \<Longrightarrow> writable_at (tmp_path p) fs'"
  using tmp_writable_put fs_write_opened unfolding holds_tmp_def by blast

lemma tmp_writable_renamed:
  assumes "os_rename io (tmp_path p) p fs = (r, fs')" and "writable_at (tmp_path p) fs" and "p \<noteq> []"
  shows "writable_at (tmp_path p) fs'"
  using assms(1)
proof (cases rule: os_rename_cases)
  case (ok n)
  have p: "butlast p @ [last p] = p" using assms(3) by simp
  have "fs_view fs' (butlast p) = Inr VDir"
    by (rule fs_put_leaf_parent [where x = "last p"]) (unfold p, rule ok(3))
  moreover have "fs_view fs' (tmp_path p) = fs_view (fs_del (tmp_path p) fs) (tmp_path p)"
    using fs_view_put_parallel [OF ok(3)] tmp_parallel [OF assms(3)] by (metis parallel_commute)
  ultimately show ?thesis
    using tmp_writable_del [OF assms(2)] by (simp add: writable_at_def tmp_path_def)
qed (use assms(2) in simp)

lemma tmp_writable_write:
  assumes "writeParams iter io p params fs = (r, fs')" and "writable_at (tmp_path p) fs" and "p \<noteq> []"
  shows "writable_at (tmp_path p) fs'"
  using assms(1)
proof (cases rule: writeParams_cases)
  case (cleaned e c fs1)
  with tmp_writable_put [OF fs_write_opened [OF cleaned(2)]] tmp_writable_del show ?thesis
    by (auto simp: os_remove_def)
next
  case (renamed fs1)
  from tmp_writable_renamed [OF renamed(2) tmp_writable_put [OF fs_write_opened [OF renamed(1)]]
      assms(3)]
  show ?thesis .
qed (use assms(2) in simp)

lemma tmp_writable_between:
  assumes "files_at iter p params fs pc fs'" and "writable_at (tmp_path p) fs" and "p \<noteq> []"
  shows "writable_at (tmp_path p) fs'"
  using assms tmp_writable_holds tmp_writable_write [OF _ assms(2,3)] by (cases pc) auto

lemma interrupted_write:
  assumes "iterates iter" and "holds_params dir fs params"
    and "wf_map new" and "\<forall>kv\<in>set new. ok_entry kv"
    and "interleaved (write_call iter (dir @ [''params.env'']) new) outcomes_vary
           (Creating, io, fs) (pc, io', fs')"
  shows "\<exists>m. holds_params dir fs' m \<and> (map_of m = map_of params \<or> map_of m = map_of new)"
proof -
  let ?p = "dir @ [''params.env'']"
  from assms(2) obtain c where c: "fs_get fs ?p = Inr (File c)" "parse_params c = Inr params"
      and w: "writable_at (tmp_path ?p) fs"
    by (auto simp: holds_params_def tmp_path_params)
  have at: "files_at iter ?p new fs pc fs'" using files_between_calls [OF assms(5)] by simp
  have tmp: "writable_at (tmp_path ?p) fs'" using tmp_writable_between [OF at w] by simp
  show ?thesis
  proof (cases "pc = Returned None")
    case True
    then have "fs_get fs' ?p = Inr (File (print_params (iter new)))"
      using files_at_view [OF at] by simp
    with envfile.parse_print_iter [OF assms(1,3,4)] tmp show ?thesis
      by (auto simp: holds_params_def tmp_path_params)
  next
    case False
    then have "fs_view fs' ?p = Inr (VFile c)"
      using files_at_view [OF at] c(1) by (simp add: fs_view_def)
    then have "holds_params dir fs' params"
      using c(2) tmp by (auto simp: holds_params_def tmp_path_params fs_view_file_iff)
    then show ?thesis by blast
  qed
qed

text \<open>
  C19: A process that is killed while \<^verbatim>\<open>applyParamOverrides\<close> rewrites a parameter file loses nothing:
  when the call is made again on what it left behind, a half-written temporary file included, it
  succeeds and the file reads as if the first call had not been interrupted: the keys of the
  parameter map as their environment variables, every other key as before.
\<close>

theorem overrides_survive_crash:
  assumes "iterates iter" and "holds_params dir fs params"
    and "wf_map paramMap" and "\<forall>(k, ev)\<in>set paramMap. env ev \<noteq> [] \<longrightarrow> ok_entry (k, env ev)"
    and "interleaved
           (write_call iter (dir @ [''params.env'']) (set_overrides env (iter paramMap) params))
           outcomes_vary (Creating, io, fs) (pc, io', killed)"
  shows "\<exists>fs' m. applyParamOverrides iter env no_faults dir paramMap killed = (None, fs') \<and>
    readParams no_faults (dir @ [''params.env'']) fs' = Inr m \<and>
    (\<forall>k. map_of m k = (case map_of paramMap k of
        Some ev \<Rightarrow> if env ev \<noteq> [] then Some (env ev) else map_of params k
      | None \<Rightarrow> map_of params k))"
proof -
  from interrupted_write [OF assms(1,2) ok_overrides [OF assms(1,2,4)] assms(5)] obtain m0
    where m0: "holds_params dir killed m0"
      "map_of m0 = map_of params \<or> map_of m0 = map_of (set_overrides env (iter paramMap) params)"
    by blast
  obtain fs' m where r: "applyParamOverrides iter env no_faults dir paramMap killed = (None, fs')"
      "holds_params dir fs' m"
      "\<forall>k. map_of m k = (case map_of paramMap k of
          Some ev \<Rightarrow> if env ev \<noteq> [] then Some (env ev) else map_of m0 k
        | None \<Rightarrow> map_of m0 k)"
    using overrides_effect [OF assms(1) m0(1) assms(3,4)] by blast
  have "map_of m k = (case map_of paramMap k of
      Some ev \<Rightarrow> if env ev \<noteq> [] then Some (env ev) else map_of params k
    | None \<Rightarrow> map_of params k)" for k
    using r(3) m0(2) map_of_overrides [OF assms(1,3)] by (auto split: option.splits)
  with r(1) holds_params_read [OF r(2)] show ?thesis by blast
qed

text \<open>Killed after the temporary file was created and before anything was written to it.\<close>

theorem overrides_survive_crash_witness:
  "let params = [(''odh-kubeflow-trainer-controller-image'', ''default''), (''ns'', ''x'')];
       killed = snd (snd ((write_call rev [''rhoai'', ''params.env'']
         (set_overrides sample_env (rev trainerImageParamMap) params) ^^ 1)
           (Creating, no_faults, image_fs)))
   in fs_get killed [''rhoai'', ''params.env.tmp''] = Inr (File []) \<and>
      (\<exists>fs' m. applyParamOverrides rev sample_env no_faults [''rhoai''] trainerImageParamMap killed =
         (None, fs') \<and> readParams no_faults [''rhoai'', ''params.env''] fs' = Inr m \<and>
         map_of m imageParamControllerImage = Some ''quay.io/o:1'' \<and> map_of m ''ns'' = Some ''x'')"
proof -
  let ?params = "[(''odh-kubeflow-trainer-controller-image'', ''default''), (''ns'', ''x'')]"
  let ?new = "set_overrides sample_env (rev trainerImageParamMap) ?params"
  let ?s = "(write_call rev [''rhoai'', ''params.env''] ?new ^^ 1) (Creating, no_faults, image_fs)"
  obtain pc io killed where s: "?s = (pc, io, killed)" by (metis prod.collapse)
  have tmp: "fs_get killed [''rhoai'', ''params.env.tmp''] = Inr (File [])"
    using s by (auto simp: os_create_def image_fs_def tmp_path_def)
  have hold: "holds_params [''rhoai''] image_fs ?params"
    unfolding holds_params_def append.simps
    by (intro conjI exI [of _ "''odh-kubeflow-trainer-controller-image=default'' @ [newline] @ ''ns=x''"]
        image_fs_text) (simp_all add: image_fs_def writable_at_def)
  have run: "interleaved (write_call rev ([''rhoai''] @ [''params.env'']) ?new)
      outcomes_vary (Creating, no_faults, image_fs) (pc, io, killed)"
    using funpow_interleaved [of "write_call rev [''rhoai'', ''params.env''] ?new" outcomes_vary
        "(Creating, no_faults, image_fs)" 1] s
    by simp
  have "\<exists>fs' m. applyParamOverrides rev sample_env no_faults [''rhoai''] trainerImageParamMap killed =
      (None, fs') \<and> readParams no_faults ([''rhoai''] @ [''params.env'']) fs' = Inr m \<and>
    (\<forall>k. map_of m k = (case map_of trainerImageParamMap k of
        Some ev \<Rightarrow> if sample_env ev \<noteq> [] then Some (sample_env ev) else map_of ?params k
      | None \<Rightarrow> map_of ?params k))"
    by (rule overrides_survive_crash [OF _ hold _ _ run])
      (simp_all add: wf_map_def trainerImageParamMap_def sample_env_def
        imageParamControllerImage_def ok_entry_eval)
  with tmp s show ?thesis
    by (auto simp: trainerImageParamMap_def imageParamControllerImage_def sample_env_def Let_def)
qed

end
