(* ===== verification/Render_Crash.thy ===== *)
theory Render_Crash
  imports Render_Stability Params_Crash
begin

text \<open>
  Renderings that are killed (internal/controller/trainer_controller.go, params.go): what a process
  that dies while it rewrites a parameter file leaves in the work directory, and what the
  renderings of its successor make of it.
\<close>

section \<open>Where a rendering can be killed\<close>

text \<open>
  Killed before anything is written; while the template is copied, where a kill leaves what a copy
  leaves that fails there; while the overrides from the environment are written into the parameter
  file, or while the static values are. Anywhere else a kill leaves what it leaves at the start or
  the end of one of these.
\<close>

abbreviation set_file :: "ReconcilerConfig \<Rightarrow> resourceSet \<Rightarrow> path" where
  "set_file m rs \<equiv> overlay_dir m rs @ [''params.env'']"

abbreviation set_tmp :: "ReconcilerConfig \<Rightarrow> resourceSet \<Rightarrow> path" where
  "set_tmp m rs \<equiv> overlay_dir m rs @ [''params.env.tmp'']"

definition killed_write :: "render_env \<Rightarrow> path \<Rightarrow> (string, string) gomap \<Rightarrow> fnode \<Rightarrow> fnode \<Rightarrow> bool" where
  "killed_write E p new fs killed \<longleftrightarrow> (\<exists>io pc io'.
     interleaved (write_call (re_iter E) p new) outcomes_vary (Creating, io, fs) (pc, io', killed))"

definition killed_set :: "render_env \<Rightarrow> ReconcilerConfig \<Rightarrow> resourceSet \<Rightarrow> fnode \<Rightarrow> fnode \<Rightarrow> bool" where
  "killed_set E m rs fs killed \<longleftrightarrow> killed = fs \<or>
     (\<forall>e es. os_read_dir (re_io E) (set_dir m rs) fs \<noteq> Inr (e # es)) \<and>
       (\<exists>io. killed = snd (copyDir io (rs_templatePath rs) (set_dir m rs) fs)) \<or>
     (\<exists>fs1. ensureWorkDir (re_io E) (rs_templatePath rs) (set_dir m rs) fs = (None, fs1) \<and>
       ((\<exists>params. readParams (re_io E) (set_file m rs) fs1 = Inr params \<and>
          killed_write E (set_file m rs)
            (set_overrides (re_getenv E) (re_iter E (rs_paramMap rs)) params) fs1 killed) \<or>
        (\<exists>fs2 params. applyParamOverrides (re_iter E) (re_getenv E) (re_io E) (overlay_dir m rs)
            (rs_paramMap rs) fs1 = (None, fs2) \<and>
          readParams (re_io E) (set_file m rs) fs2 = Inr params \<and>
          killed_write E (set_file m rs)
            (set_static (re_iter E (rs_staticParams rs)) params) fs2 killed)))"

text \<open>The sets before the one in which the process is killed have been rendered.\<close>

definition killed_rendering ::
  "render_env \<Rightarrow> ReconcilerConfig \<Rightarrow> resourceSet list \<Rightarrow> request \<Rightarrow> fnode \<Rightarrow> fnode \<Rightarrow> bool" where
  "killed_rendering E m rss rr fs killed \<longleftrightarrow> (\<exists>before rs after fs1 rr1.
     rss = before @ rs # after \<and> render_sets E m before fs rr = (None, fs1, rr1) \<and>
     killed_set E m rs fs1 killed)"

section \<open>What is left\<close>

text \<open>
  The state from which the set can be rendered again: beside the parameter file it is as a complete
  rendering left it, and the file reads as a map that becomes the one of that rendering when the
  values are set; there may be a temporary file.
\<close>

definition beside_params :: "ReconcilerConfig \<Rightarrow> resourceSet \<Rightarrow> fnode \<Rightarrow> fnode \<Rightarrow> bool" where
  "beside_params m rs fs fs' \<longleftrightarrow> (\<forall>q. prefix (set_dir m rs) q \<longrightarrow> set_file m rs \<parallel> q \<longrightarrow>
     set_tmp m rs \<parallel> q \<longrightarrow> fs_view fs' q = fs_view fs q)"

definition resumable ::
  "render_env \<Rightarrow> ReconcilerConfig \<Rightarrow> resourceSet \<Rightarrow> unstructured list \<Rightarrow> fnode \<Rightarrow> bool" where
  "resumable E m rs out fs \<longleftrightarrow> (\<exists>fs0 c params. set_rendered E m rs out fs0 \<and>
     printed (overlay_dir m rs) fs0 c \<and> beside_params m rs fs0 fs \<and>
     holds_params (overlay_dir m rs) fs params \<and> map_of params ++ set_values E rs = map_of c)"

definition renderable ::
  "render_env \<Rightarrow> ReconcilerConfig \<Rightarrow> resourceSet \<Rightarrow> unstructured list \<Rightarrow> fnode \<Rightarrow> bool" where
  "renderable E m rs out fs \<longleftrightarrow>
     set_rendered E m rs out fs \<and> fs_get fs (set_file m rs) = Inl ENOENT \<or> resumable E m rs out fs"

lemma rendered_renderable:
  assumes "set_rendered E m rs out fs"
  shows "renderable E m rs out fs"
proof -
  from assms consider "fs_get fs (set_file m rs) = Inl ENOENT"
    | c where "printed (overlay_dir m rs) fs c" "map_of c ++ set_values E rs = map_of c"
    by (auto simp: set_rendered_def fs_view_def split: sum.splits)
  then show ?thesis
  proof cases
    case (2 c)
    from printed_holds [OF 2(1)] obtain params where
      "holds_params (overlay_dir m rs) fs params" "map_of params = map_of c" by blast
    with assms 2 show ?thesis
      unfolding renderable_def resumable_def beside_params_def by (metis (no_types))
  qed (use assms in \<open>simp add: renderable_def\<close>)
qed

lemma holds_filled:
  assumes "holds_params (overlay_dir m rs) fs params"
  shows "filled (set_dir m rs) fs"
proof -
  obtain x xs where p: "set_file m rs = set_dir m rs @ x # xs"
    by (cases "rs_overlay rs = []") (simp_all add: overlay_dir_def)
  from assms obtain c where "fs_get fs (set_file m rs) = Inr (File c)" by (auto simp: holds_params_def)
  with p have get: "fs_get fs (set_dir m rs @ x # xs) = Inr (File c)" by simp
  have "fs_view fs (set_dir m rs @ [x]) \<noteq> Inl ENOENT"
  proof
    assume "fs_view fs (set_dir m rs @ [x]) = Inl ENOENT"
    then have "fs_get fs (set_dir m rs @ [x]) = Inl ENOENT" by (simp add: fs_view_def split: sum.splits)
    with get fs_get_append [of fs "set_dir m rs @ [x]" xs] show False by simp
  qed
  with view_above [OF get] show ?thesis unfolding filled_def by blast
qed

lemma same_views_holds:
  assumes "\<And>q. prefix (set_dir m rs) q \<Longrightarrow> fs_view fs' q = fs_view fs q"
  shows "holds_params (overlay_dir m rs) fs' params = holds_params (overlay_dir m rs) fs params"
proof -
  have "prefix (set_dir m rs) (overlay_dir m rs @ x)" for x by (simp add: overlay_dir_def)
  with assms have "fs_view fs' (overlay_dir m rs @ x) = fs_view fs (overlay_dir m rs @ x)" for x by blast
  from this [of "[]"] this [of "[''params.env'']"] this [of "[''params.env.tmp'']"]
  show ?thesis unfolding holds_params_def writable_at_def fs_view_file_iff [symmetric] by simp
qed

lemma renderable_other:
  assumes "reads_work_tree E m rs" and "renderable E m rs out fs"
    and same: "\<And>q. prefix (set_dir m rs) q \<Longrightarrow> fs_view fs' q = fs_view fs q"
  shows "renderable E m rs out fs'"
  using assms(2) unfolding renderable_def
proof
  assume "set_rendered E m rs out fs \<and> fs_get fs (set_file m rs) = Inl ENOENT"
  then show "set_rendered E m rs out fs' \<and> fs_get fs' (set_file m rs) = Inl ENOENT \<or> resumable E m rs out fs'"
    using rendered_renderable [OF set_rendered_other [OF assms(1) _ same]] unfolding renderable_def by blast
next
  assume "resumable E m rs out fs"
  then show "set_rendered E m rs out fs' \<and> fs_get fs' (set_file m rs) = Inl ENOENT \<or> resumable E m rs out fs'"
    using same same_views_holds [OF same] unfolding resumable_def beside_params_def by (metis (no_types))
qed

section \<open>Rendering it again\<close>

lemma resumed:
  assumes iter: "iterates (re_iter E)" and io: "re_io E = no_faults" and ok: "set_ok E rs"
    and reads: "reads_work_tree E m rs" and ready: "resumable E m rs out fs"
  shows "\<exists>fs'. renderResourceSet E m rs fs = (Inr out, fs') \<and> set_rendered E m rs out fs'"
proof -
  let ?dir = "overlay_dir m rs" and ?V = "set_values E rs"
  from ready obtain fs0 c params where done0: "set_rendered E m rs out fs0" "printed ?dir fs0 c"
      and beside: "beside_params m rs fs0 fs"
      and hold: "holds_params ?dir fs params" and vals: "map_of params ++ ?V = map_of c"
    unfolding resumable_def by blast
  note kept = filled_kept [OF holds_filled [OF hold], of "rs_templatePath rs"]
  from rewrites_succeed [OF iter io ok hold] obtain fs2 fs3 where run:
    "applyParamOverrides (re_iter E) (re_getenv E) (re_io E) ?dir (rs_paramMap rs) fs = (None, fs2)"
    "(if length (rs_staticParams rs) > 0
      then applyStaticParams (re_iter E) (re_io E) ?dir (rs_staticParams rs) fs2 else (None, fs2)) = (None, fs3)"
    by blast
  from set_values_rewritten [OF iter io ok run] hold obtain c3 where c3: "printed ?dir fs3 c3"
      "map_of c3 = map_of params ++ ?V"
      "\<And>q. set_file m rs \<parallel> q \<Longrightarrow> set_tmp m rs \<parallel> q \<Longrightarrow> fs_view fs3 q = fs_view fs q"
    by (auto simp: rewritten_def holds_params_def)
  have tree: "same_tree m rs fs0 fs3"
    by (rule printed_same_tree [OF done0(2) c3(1)])
      (use c3(2,3) vals beside in \<open>auto simp: beside_params_def\<close>)
  have "finish_set E m rs fs3 = Inr out"
    using finish_set_cong [OF reads tree] done0(1) by (simp add: set_rendered_def)
  moreover have "filled (set_dir m rs) fs3"
    using tree done0(1) by (auto intro: filled_same_tree simp: set_rendered_def)
  moreover have "map_of c3 ++ ?V = map_of c3" by (simp add: c3(2) map_add_absorb)
  ultimately show ?thesis
    using kept run io c3(1) unfolding render_set_ok set_rendered_def by auto
qed

lemma renderable_again:
  assumes "iterates (re_iter E)" and "re_io E = no_faults" and "set_ok E rs"
    and "reads_work_tree E m rs" and "renderable E m rs out fs"
  shows "\<exists>fs'. renderResourceSet E m rs fs = (Inr out, fs') \<and> set_rendered E m rs out fs'"
  using assms(5) resumed [OF assms(1-4)] set_rendered_again [OF assms(1-4)]
  unfolding renderable_def by blast

lemma sets_renderable_again:
  assumes iter: "iterates (re_iter E)" and io: "re_io E = no_faults"
    and sets: "\<forall>rs\<in>A. set_ok E rs \<and> reads_work_tree E m rs" and inj: "inj_on rs_subDir A"
  shows "set rss \<subseteq> A \<Longrightarrow> \<forall>rs\<in>A. renderable E m rs (out rs) fs \<Longrightarrow>
    \<exists>fs'. render_sets E m rss fs rr = (None, fs', rr\<lparr>Resources := Resources rr @ concat (map out rss)\<rparr>) \<and>
      (\<forall>rs\<in>A. renderable E m rs (out rs) fs')"
proof (induction rss arbitrary: fs rr)
  case (Cons rs rss)
  then obtain fs1 where one: "renderResourceSet E m rs fs = (Inr (out rs), fs1)"
      "set_rendered E m rs (out rs) fs1"
    using renderable_again [OF iter io, of rs m "out rs" fs] sets by auto
  have "renderable E m rs' (out rs') fs1" if "rs' \<in> A" for rs'
  proof (cases "rs' = rs")
    case True
    with one(2) rendered_renderable show ?thesis by simp
  next
    case False
    with inj that Cons.prems(1) have "rs_subDir rs \<noteq> rs_subDir rs'" by (auto dest: inj_onD)
    from other_set_view [OF this, where m = m and E = E and fs = fs] one(1)
    have "fs_view fs1 q = fs_view fs q" if "prefix (set_dir m rs') q" for q using that by simp
    with renderable_other [of E m rs' "out rs'" fs fs1] sets Cons.prems(2) that show ?thesis by blast
  qed
  with Cons.IH [of fs1 "rr\<lparr>Resources := Resources rr @ out rs\<rparr>"] Cons.prems(1) one(1) show ?case by auto
qed simp

section \<open>A killed rendering leaves it renderable\<close>

text \<open>The new text of a rewrite, its values all among those the rendering sets.\<close>

lemma killed_write_holds:
  assumes "iterates (re_iter E)" and "holds_params dir fs params"
    and "wf_map new" and "\<forall>kv\<in>set new. ok_entry kv"
    and "killed_write E (dir @ [''params.env'']) new fs killed"
  shows "\<exists>params'. holds_params dir killed params' \<and>
    (map_of params' = map_of params \<or> map_of params' = map_of new)"
    and "\<And>q. (dir @ [''params.env'']) \<parallel> q \<Longrightarrow> (dir @ [''params.env.tmp'']) \<parallel> q \<Longrightarrow>
      fs_view killed q = fs_view fs q"
proof -
  from assms(5) obtain io pc io' where run: "interleaved
      (write_call (re_iter E) (dir @ [''params.env'']) new) outcomes_vary (Creating, io, fs) (pc, io', killed)"
    unfolding killed_write_def by blast
  show "\<exists>params'. holds_params dir killed params' \<and>
      (map_of params' = map_of params \<or> map_of params' = map_of new)"
    by (rule interrupted_write [OF assms(1-4) run])
  show "fs_view killed q = fs_view fs q"
    if "(dir @ [''params.env'']) \<parallel> q" "(dir @ [''params.env.tmp'']) \<parallel> q" for q
    using files_at_view [of "re_iter E" "dir @ [''params.env'']" new fs pc killed]
      files_between_calls [OF run] that
    by (simp add: tmp_path_params)
qed

lemma map_add_early: "((p ++ a) ++ (a ++ b)) = p ++ (a ++ b)"
  by (rule ext) (simp add: map_add_def split: option.split)

lemma map_add_late: "(((p ++ a) ++ b) ++ (a ++ b)) = p ++ (a ++ b)"
  by (rule ext) (simp add: map_add_def split: option.split)

lemma map_of_overrides_effective:
  assumes "iterates iter" and "env_ok env pm"
  shows "map_of (set_overrides env (iter pm) params) = map_of params ++ map_of (effective env pm)"
proof
  fix k
  from assms(2) have "wf_map pm" by (simp add: env_ok_def)
  then show "map_of (set_overrides env (iter pm) params) k = (map_of params ++ map_of (effective env pm)) k"
    unfolding map_of_overrides [OF assms(1) \<open>wf_map pm\<close>]
    by (simp add: map_of_effective map_add_def split: option.split)
qed

lemma resumable_move:
  assumes "resumable E m rs out fs" and "holds_params (overlay_dir m rs) fs params"
    and "holds_params (overlay_dir m rs) fs' params'"
    and "map_of params' ++ set_values E rs = map_of params ++ set_values E rs"
    and "\<And>q. set_file m rs \<parallel> q \<Longrightarrow> set_tmp m rs \<parallel> q \<Longrightarrow> fs_view fs' q = fs_view fs q"
  shows "resumable E m rs out fs'"
proof -
  from assms(1) obtain fs0 c p where r: "set_rendered E m rs out fs0" "printed (overlay_dir m rs) fs0 c"
      "beside_params m rs fs0 fs" "holds_params (overlay_dir m rs) fs p"
      "map_of p ++ set_values E rs = map_of c"
    unfolding resumable_def by blast
  have "p = params" using holds_params_read [OF r(4)] holds_params_read [OF assms(2)] by simp
  with r assms(4) have "map_of params' ++ set_values E rs = map_of c" by simp
  moreover have "beside_params m rs fs0 fs'" using r(3) assms(5) unfolding beside_params_def by metis
  ultimately show ?thesis using r(1,2) assms(3) unfolding resumable_def by blast
qed

text \<open>Killed while the overrides from the environment are written, or while the static values are.\<close>

lemma killed_overrides:
  assumes iter: "iterates (re_iter E)" and ok: "set_ok E rs" and ready: "resumable E m rs out fs"
    and hold: "holds_params (overlay_dir m rs) fs params"
    and kill: "killed_write E (set_file m rs)
      (set_overrides (re_getenv E) (re_iter E (rs_paramMap rs)) params) fs killed"
  shows "resumable E m rs out killed"
    and "\<And>q. set_file m rs \<parallel> q \<Longrightarrow> set_tmp m rs \<parallel> q \<Longrightarrow> fs_view killed q = fs_view fs q"
proof -
  let ?new = "set_overrides (re_getenv E) (re_iter E (rs_paramMap rs)) params"
  have env: "env_ok (re_getenv E) (rs_paramMap rs)" using ok by (simp add: set_ok_def)
  then have "\<forall>(k, ev)\<in>set (rs_paramMap rs). re_getenv E ev \<noteq> [] \<longrightarrow> ok_entry (k, re_getenv E ev)"
    by (simp add: env_ok_def)
  note left = killed_write_holds [OF iter hold ok_overrides [OF iter hold this] kill]
  from left(1) obtain params' where h: "holds_params (overlay_dir m rs) killed params'"
      and v: "map_of params' = map_of params \<or> map_of params' = map_of ?new" by blast
  have "map_of params' ++ set_values E rs = map_of params ++ set_values E rs"
    using v unfolding map_of_overrides_effective [OF iter env] set_values_def
    by (elim disjE) (simp_all only: map_add_early)
  from resumable_move [OF ready hold h this left(2)] show "resumable E m rs out killed" .
  show "fs_view killed q = fs_view fs q" if "set_file m rs \<parallel> q" "set_tmp m rs \<parallel> q" for q
    by (rule left(2) [OF that])
qed

lemma killed_static:
  assumes iter: "iterates (re_iter E)" and io: "re_io E = no_faults" and ok: "set_ok E rs"
    and ready: "resumable E m rs out fs" and hold: "holds_params (overlay_dir m rs) fs params"
    and run: "applyParamOverrides (re_iter E) (re_getenv E) (re_io E) (overlay_dir m rs)
        (rs_paramMap rs) fs = (None, fs2)"
    and read: "readParams (re_io E) (set_file m rs) fs2 = Inr params2"
    and kill: "killed_write E (set_file m rs)
      (set_static (re_iter E (rs_staticParams rs)) params2) fs2 killed"
  shows "resumable E m rs out killed"
    and "\<And>q. set_file m rs \<parallel> q \<Longrightarrow> set_tmp m rs \<parallel> q \<Longrightarrow> fs_view killed q = fs_view fs q"
proof -
  let ?dir = "overlay_dir m rs" and ?eff = "map_of (effective (re_getenv E) (rs_paramMap rs))"
  let ?vals = "rs_staticParams rs"
  let ?new = "set_static (re_iter E ?vals) params2"
  have vals: "wf_map ?vals" "\<forall>kv\<in>set ?vals. ok_entry kv" using ok by (simp_all add: set_ok_def)
  from run ok io have "rewritten ?dir ?eff fs fs2"
    using overrides_rewrite [OF iter] by (auto simp: set_ok_def)
  with hold obtain c where c: "printed ?dir fs2 c" "map_of c = map_of params ++ ?eff"
      and same: "\<And>q. set_file m rs \<parallel> q \<Longrightarrow> set_tmp m rs \<parallel> q \<Longrightarrow> fs_view fs2 q = fs_view fs q"
    by (auto simp: rewritten_def holds_params_def)
  from printed_holds [OF c(1)] holds_params_read [of ?dir fs2] read io
  have hold2: "holds_params ?dir fs2 params2" and p2: "map_of params2 = map_of params ++ ?eff"
    using c(2) by auto
  have ok2: "wf_map params2" "\<forall>kv\<in>set params2. ok_entry kv"
    using hold2 parse_params_ok by (auto simp: holds_params_def)
  have "\<forall>kv\<in>set ?new. ok_entry kv"
    using vals(2) ok2(2) set_set_static [of "re_iter E ?vals" params2] set_iter [OF iter] by blast
  note left = killed_write_holds [OF iter hold2 wf_map_set_static [OF ok2(1)] this kill]
  from left(1) obtain params' where h: "holds_params ?dir killed params'"
      and v: "map_of params' = map_of params2 \<or> map_of params' = map_of ?new" by blast
  have "map_of ?new = map_of params2 ++ map_of ?vals"
    using map_of_set_static [OF wf_map_iter [OF iter vals(1)]] map_of_iter [OF iter vals(1)] by simp
  with v p2 have "map_of params' ++ set_values E rs = map_of params ++ set_values E rs"
    unfolding set_values_def by (auto simp: map_add_early map_add_late simp del: map_add_assoc)
  from resumable_move [OF ready hold h this] left(2) same show "resumable E m rs out killed" by simp
  show "fs_view killed q = fs_view fs q" if "set_file m rs \<parallel> q" "set_tmp m rs \<parallel> q" for q
    using left(2) [OF that] same [OF that] by simp
qed

lemma filled_read:
  assumes "filled d fs"
  shows "\<exists>e es. os_read_dir no_faults d fs = Inr (e # es)"
proof -
  from assms obtain es x where es: "fs_get fs d = Inr (Dir es)" and x: "fs_view fs (d @ [x]) \<noteq> Inl ENOENT"
    by (auto simp: filled_def fs_view_dir_iff)
  then have "es \<noteq> []" by (auto simp: fs_view_def fs_get_append)
  with es show ?thesis by (cases es) (auto simp: os_read_dir_def)
qed

lemma killed_set_renderable:
  assumes iter: "iterates (re_iter E)" and io: "re_io E = no_faults" and ok: "set_ok E rs"
    and ready: "renderable E m rs out fs" and kill: "killed_set E m rs fs killed"
  shows "renderable E m rs out killed \<and> (\<forall>q. set_file m rs \<parallel> q \<longrightarrow> set_tmp m rs \<parallel> q \<longrightarrow>
    fs_view killed q = fs_view fs q)"
proof -
  have full: "filled (set_dir m rs) fs"
    using ready holds_filled unfolding renderable_def resumable_def set_rendered_def by blast
  have none: "readParams no_faults (set_file m rs) fs \<noteq> Inr params"
    if "fs_get fs (set_file m rs) = Inl ENOENT" for params
    using that by (simp add: readParams_no_faults)
  from full obtain e es where "os_read_dir no_faults (set_dir m rs) fs = Inr (e # es)"
    using filled_read by blast
  with kill consider (nothing) "killed = fs"
    | (env) params where "readParams no_faults (set_file m rs) fs = Inr params"
      "killed_write E (set_file m rs)
         (set_overrides (re_getenv E) (re_iter E (rs_paramMap rs)) params) fs killed"
    | (static) fs2 params where "applyParamOverrides (re_iter E) (re_getenv E) (re_io E)
        (overlay_dir m rs) (rs_paramMap rs) fs = (None, fs2)"
      "readParams (re_io E) (set_file m rs) fs2 = Inr params"
      "killed_write E (set_file m rs) (set_static (re_iter E (rs_staticParams rs)) params) fs2 killed"
    unfolding killed_set_def io filled_kept [OF full] by auto
  then show ?thesis
  proof cases
    case nothing
    with ready show ?thesis by simp
  next
    case env
    with ready none have r: "resumable E m rs out fs" unfolding renderable_def by blast
    then obtain p where "holds_params (overlay_dir m rs) fs p" unfolding resumable_def by blast
    with env(1) have hold: "holds_params (overlay_dir m rs) fs params"
      using holds_params_read by fastforce
    from killed_overrides [OF iter ok r hold env(2)] show ?thesis by (simp add: renderable_def)
  next
    case static
    have "fs_get fs (set_file m rs) \<noteq> Inl ENOENT"
    proof
      assume missing: "fs_get fs (set_file m rs) = Inl ENOENT"
      with static(1,2) io none [OF missing, of params] show False by (simp add: missing_unchanged(1))
    qed
    with ready have r: "resumable E m rs out fs" unfolding renderable_def by blast
    then obtain p where "holds_params (overlay_dir m rs) fs p" unfolding resumable_def by blast
    from killed_static [OF iter io ok r this static] show ?thesis by (simp add: renderable_def)
  qed
qed

lemma killed_rendering_renderable:
  assumes iter: "iterates (re_iter E)" and io: "re_io E = no_faults"
    and sets: "\<forall>rs\<in>set rss. set_ok E rs \<and> reads_work_tree E m rs"
    and dist: "distinct (map rs_subDir rss)"
    and ready: "\<forall>rs\<in>set rss. renderable E m rs (out rs) fs"
    and kill: "killed_rendering E m rss rr fs killed"
  shows "\<forall>rs\<in>set rss. renderable E m rs (out rs) killed"
proof
  fix rs'
  assume mem: "rs' \<in> set rss"
  from kill obtain before rs after fs1 rr1 where rss: "rss = before @ rs # after"
      and run: "render_sets E m before fs rr = (None, fs1, rr1)" and ks: "killed_set E m rs fs1 killed"
    unfolding killed_rendering_def by blast
  have inj: "inj_on rs_subDir (set rss)" using dist by (simp add: distinct_map)
  have "set before \<subseteq> set rss" using rss by auto
  from sets_renderable_again [OF iter io sets inj this ready, of rr] run
  have ready1: "\<forall>rs\<in>set rss. renderable E m rs (out rs) fs1" by simp
  have rs: "rs \<in> set rss" using rss by simp
  with sets ready1 have "set_ok E rs" "renderable E m rs (out rs) fs1" by auto
  note left = killed_set_renderable [OF iter io this ks]
  show "renderable E m rs' (out rs') killed"
  proof (cases "rs' = rs")
    case False
    with inj mem rs have sub: "rs_subDir rs \<noteq> rs_subDir rs'" by (auto dest: inj_onD)
    have "fs_view killed q = fs_view fs1 q" if "prefix (set_dir m rs') q" for q
    proof -
      from that obtain zs where q: "q = WorkDir m @ rs_subDir rs' # zs"
        by (auto simp: set_dir_def prefix_def)
      have "(WorkDir m @ rs_subDir rs # xs) \<parallel> q" for xs
        unfolding q by (rule parallel_sibling [OF sub])
      then have "(overlay_dir m rs @ xs) \<parallel> q" for xs
        by (simp add: overlay_dir_def set_dir_def)
      with left show ?thesis by blast
    qed
    with renderable_other [of E m rs' "out rs'" fs1 killed] sets ready1 mem show ?thesis by blast
  qed (use left in simp)
qed

text \<open>An invariant of the files under writes below the work directory holds under kills.\<close>

context fs_kept
begin

lemma copyDir_keeps: "inv fs \<Longrightarrow> prefix d dst \<Longrightarrow> inv (snd (copyDir io src dst fs))"
  by (auto simp: copyDir_def split: sum.split intro: walk_keeps)

lemma killed_write_keeps:
  assumes "inv fs" and "prefix d dir" and "killed_write E (dir @ [''params.env'']) new fs killed"
  shows "inv killed"
proof -
  from assms(3) obtain pc where "files_at (re_iter E) (dir @ [''params.env'']) new fs pc killed"
    unfolding killed_write_def using files_between_calls by fastforce
  from killed_is_failed [OF this] writeParams_keeps [OF assms(1,2)] show ?thesis by (metis snd_conv)
qed

lemma killed_set_keeps:
  assumes "inv fs" and "prefix d (WorkDir m)" and "killed_set E m rs fs killed"
  shows "inv killed"
proof -
  have below: "prefix d (set_dir m rs)" "prefix d (overlay_dir m rs)"
    using assms(2) by (auto simp: set_dir_def overlay_dir_def)
  note copies = copyDir_keeps [OF assms(1) below(1)] ensureWorkDir_keeps [OF assms(1) below(1)]
  from assms(3) consider "killed = fs" | io where "killed = snd (copyDir io (rs_templatePath rs) (set_dir m rs) fs)"
    | new fs1 where "ensureWorkDir (re_io E) (rs_templatePath rs) (set_dir m rs) fs = (None, fs1)"
        "killed_write E (set_file m rs) new fs1 killed"
    | new fs1 fs2 where "ensureWorkDir (re_io E) (rs_templatePath rs) (set_dir m rs) fs = (None, fs1)"
        "applyParamOverrides (re_iter E) (re_getenv E) (re_io E) (overlay_dir m rs) (rs_paramMap rs) fs1 = (None, fs2)"
        "killed_write E (set_file m rs) new fs2 killed"
    unfolding killed_set_def by blast
  then show ?thesis
  proof cases
    case (3 new fs1)
    with copies(2) have "inv fs1" by (metis snd_conv)
    from killed_write_keeps [OF this below(2) 3(2)] show ?thesis .
  next
    case (4 new fs1 fs2)
    with copies(2) have "inv fs1" by (metis snd_conv)
    from applyParamOverrides_keeps [OF this below(2)] 4(2) have "inv fs2" by (metis snd_conv)
    from killed_write_keeps [OF this below(2) 4(3)] show ?thesis .
  qed (use assms(1) copies(1) in auto)
qed

lemma killed_rendering_keeps:
  assumes "inv fs" and "prefix d (WorkDir m)" and "killed_rendering E m rss rr fs killed"
  shows "inv killed"
proof -
  from assms(3) obtain before rs fs1 rr1 where run: "render_sets E m before fs rr = (None, fs1, rr1)"
      and kill: "killed_set E m rs fs1 killed"
    unfolding killed_rendering_def by blast
  have "inv fs1" using render_sets_keeps [OF assms(1,2), of E before rr] run by simp
  from killed_set_keeps [OF this assms(2) kill] show ?thesis .
qed

end

section \<open>Whatever was killed before\<close>

text \<open>
  The files after any row of renderings of the request, from the files \<open>fs\<close>, each with its own order
  of iteration and each complete or killed.
\<close>

inductive worked ::
  "'w platform_api \<Rightarrow> render_env \<Rightarrow> ReconcilerConfig \<Rightarrow> resourceSet list \<Rightarrow> 'w \<Rightarrow> request \<Rightarrow>
     fnode \<Rightarrow> fnode \<Rightarrow> bool"
  for P E m rss w rr fs where
  start: "worked P E m rss w rr fs fs"
| rendered: "worked P E m rss w rr fs g \<Longrightarrow> iterates it \<Longrightarrow>
    worked P E m rss w rr fs (fst (snd (renderManifests P (E\<lparr>re_iter := it\<rparr>) m w g rr)))"
| killed: "worked P E m rss w rr fs g \<Longrightarrow> iterates it \<Longrightarrow>
    killed_rendering (E\<lparr>re_iter := it\<rparr>) m rss rr g killed \<Longrightarrow> worked P E m rss w rr fs killed"

lemma other_order_renderable [simp]:
  "renderable (E\<lparr>re_iter := i\<rparr>) m rs out fs = renderable E m rs out fs"
proof -
  have "set_values (E\<lparr>re_iter := i\<rparr>) rs = set_values E rs" by (simp add: set_values_def)
  then show ?thesis by (simp add: renderable_def resumable_def)
qed

lemma renders_renderable:
  assumes ct: "DetectClusterType P w = Inr ct" and io: "re_io E = no_faults" and it: "iterates it"
    and sets: "\<forall>rs\<in>set (resource_sets m ct (resolveNamespace (Instance rr))).
      set_ok E rs \<and> reads_work_tree E m rs \<and> renderable E m rs (out rs) fs"
  shows "\<exists>fs'. renderManifests P (E\<lparr>re_iter := it\<rparr>) m w fs rr = (None, fs',
      rr\<lparr>Resources := Resources rr @
        concat (map out (resource_sets m ct (resolveNamespace (Instance rr)))), Generated := True\<rparr>) \<and>
    (\<forall>rs\<in>set (resource_sets m ct (resolveNamespace (Instance rr))). renderable E m rs (out rs) fs')"
  using sets_renderable_again [of "E\<lparr>re_iter := it\<rparr>"
      "set (resource_sets m ct (resolveNamespace (Instance rr)))" m
      "resource_sets m ct (resolveNamespace (Instance rr))" out fs rr]
    assms distinct_subdirs [of m ct "resolveNamespace (Instance rr)"]
  by (auto simp: renderManifests_ok distinct_map)

lemma worked_renderable:
  assumes ct: "DetectClusterType P w = Inr ct" and io: "re_io E = no_faults"
    and sets: "\<forall>rs\<in>set (resource_sets m ct (resolveNamespace (Instance rr))).
      set_ok E rs \<and> reads_work_tree E m rs"
    and first: "\<forall>rs\<in>set (resource_sets m ct (resolveNamespace (Instance rr))).
      renderable E m rs (out rs) fs"
    and "worked P E m (resource_sets m ct (resolveNamespace (Instance rr))) w rr fs g"
  shows "\<forall>rs\<in>set (resource_sets m ct (resolveNamespace (Instance rr))). renderable E m rs (out rs) g"
  using assms(5)
proof (induction rule: worked.induct)
  case (rendered g it)
  then have "\<forall>rs\<in>set (resource_sets m ct (resolveNamespace (Instance rr))).
      set_ok E rs \<and> reads_work_tree E m rs \<and> renderable E m rs (out rs) g"
    using sets by blast
  from renders_renderable [OF ct io rendered.hyps(2) this] show ?case by auto
next
  case (killed g it killed)
  with killed_rendering_renderable [where E = "E\<lparr>re_iter := it\<rparr>", OF _ _ _ distinct_subdirs] io sets
  show ?case by simp
qed (rule first)

text \<open>
  C13: Rendering is stable, crashes included: after a rendering that succeeded, the work directory
  may go through any row of further renderings of the request, each complete or killed at any
  moment of its work on the files, in whatever order the parameter maps are iterated. The next
  rendering then succeeds and returns exactly the same resources. So neither a reconcile that has
  nothing new to do nor a restart of the process in the middle of one changes what is deployed.
  Asked for are that no system call fails, that the values from the environment and the namespace
  fit the parameter file, that no template is empty, and that kustomize reads nothing but the work
  directory, taking the parameter file as the map it lists.
\<close>

theorem rendering_survives_crashes:
  assumes "renderManifests P E m w fs rr = (None, fs1, rr1)" and "DetectClusterType P w = Inr ct"
    and "re_io E = no_faults" and "iterates (re_iter E)" and "iterates it"
    and "\<forall>rs\<in>set (resource_sets m ct (resolveNamespace (Instance rr))).
      set_ok E rs \<and> reads_work_tree E m rs \<and> filled (set_dir m rs) fs1"
    and "worked P E m (resource_sets m ct (resolveNamespace (Instance rr))) w rr fs1 g"
  shows "\<exists>fs'. renderManifests P (E\<lparr>re_iter := it\<rparr>) m w g rr = (None, fs', rr1)"
proof -
  let ?sets = "resource_sets m ct (resolveNamespace (Instance rr))"
  from assms(1,2) obtain rr0 where first: "render_sets E m ?sets fs rr = (None, fs1, rr0)"
      "rr1 = rr0\<lparr>Generated := True\<rparr>"
    by (auto simp: renderManifests_ok)
  from first_sets_rendered [OF assms(4,3) _ distinct_subdirs first(1)] assms(6) obtain out where
    out: "\<forall>rs\<in>set ?sets. set_rendered E m rs (out rs) fs1"
    "rr0 = rr\<lparr>Resources := Resources rr @ concat (map out ?sets)\<rparr>" by blast
  then have "\<forall>rs\<in>set ?sets. renderable E m rs (out rs) fs1" using rendered_renderable by blast
  with worked_renderable [OF assms(2,3) _ _ assms(7)] assms(6)
  have "\<forall>rs\<in>set ?sets. set_ok E rs \<and> reads_work_tree E m rs \<and> renderable E m rs (out rs) g"
    by blast
  from renders_renderable [OF assms(2,3,5) this] first(2) out(2) show ?thesis by auto
qed

text \<open>A process can die right after it has created the temporary file.\<close>

lemma killed_at_creation:
  assumes "holds_params dir fs params"
  shows "\<exists>killed. killed_write E (dir @ [''params.env'']) new fs killed \<and>
    fs_get killed (dir @ [''params.env.tmp'']) = Inr (File [])"
proof -
  let ?p = "dir @ [''params.env'']"
  from assms obtain killed where c: "os_create no_faults (tmp_path ?p) fs = Inr killed"
    using os_create_writable [of "tmp_path ?p" fs] by (auto simp: holds_params_def tmp_path_params)
  then have "(write_call (re_iter E) ?p new ^^ 1) (Creating, no_faults, fs) =
      (Printing [] (re_iter E new) [], no_faults, killed)" by simp
  with funpow_interleaved [of "write_call (re_iter E) ?p new" outcomes_vary "(Creating, no_faults, fs)" 1]
  have "killed_write E ?p new fs killed" unfolding killed_write_def by metis
  with fs_get_put_same [OF os_create_Inr [OF c]] show ?thesis by (auto simp: tmp_path_params)
qed

lemma first_rendering_holds:
  assumes "render_sets sample_render_env sample_config_paths sample_sets kept_fs empty_request = (None, fs1, rr0)"
  shows "\<exists>params. holds_params (overlay_dir sample_config_paths (manifests_set sample_config_paths defaultNamespace))
    fs1 params"
proof -
  let ?E = sample_render_env and ?m = sample_config_paths
  let ?rs = "manifests_set ?m defaultNamespace" and ?ns = defaultNamespace
  have sets: "sample_sets = [?rs, runtimes_set ?m]" by (simp add: resource_sets_def)
  have "?rs \<in> set sample_sets" by (simp add: sets)
  with sample_sets_ok have ok: "set_ok ?E ?rs" by blast
  note iter = sample_platform_facts(4) and io = sample_platform_facts(3)
  from assms obtain items g where one: "renderResourceSet ?E ?m ?rs kept_fs = (Inr items, g)"
      and rest: "render_sets ?E ?m [runtimes_set ?m] g (empty_request\<lparr>Resources := Resources empty_request @ items\<rparr>) =
        (None, fs1, rr0)"
    unfolding sets by (auto simp only: render_sets_ok)
  have full: "filled (set_dir ?m ?rs) kept_fs"
    using kept_rendered [OF \<open>?rs \<in> set sample_sets\<close>] by (simp add: set_rendered_def)
  from one io obtain fs2 where run:
    "applyParamOverrides (re_iter ?E) (re_getenv ?E) (re_io ?E) (overlay_dir ?m ?rs) (rs_paramMap ?rs) kept_fs = (None, fs2)"
    "(if length (rs_staticParams ?rs) > 0
      then applyStaticParams (re_iter ?E) (re_io ?E) (overlay_dir ?m ?rs) (rs_staticParams ?rs) fs2 else (None, fs2)) = (None, g)"
    unfolding render_set_ok by (auto simp: filled_kept [OF full])
  from set_values_rewritten [OF iter io ok run] kept_printed obtain c where "printed (overlay_dir ?m ?rs) g c"
    by (auto simp: rewritten_def printed_def)
  then obtain params where "holds_params (overlay_dir ?m ?rs) g params" using printed_holds by blast
  moreover have "fs_view fs1 q = fs_view g q" if "prefix (set_dir ?m ?rs) q" for q
    using other_sets_view [OF _ that, of "[runtimes_set ?m]" ?E g
        "empty_request\<lparr>Resources := Resources empty_request @ items\<rparr>"] rest
    by (simp add: manifests_set_def runtimes_set_def)
  ultimately show ?thesis using same_views_holds [of ?m ?rs fs1 g] by blast
qed

theorem rendering_survives_crashes_witness:
  "\<exists>fs1 rr1 killed fs2.
     renderManifests sample_platform sample_render_env sample_config_paths () kept_fs empty_request = (None, fs1, rr1) \<and>
     killed_rendering sample_render_env sample_config_paths sample_sets empty_request fs1 killed \<and>
     fs_get killed (set_tmp sample_config_paths (manifests_set sample_config_paths defaultNamespace)) = Inr (File []) \<and>
     renderManifests sample_platform (sample_render_env\<lparr>re_iter := rev\<rparr>) sample_config_paths () killed empty_request =
       (None, fs2, rr1)"
proof -
  let ?E = sample_render_env and ?m = sample_config_paths
  let ?rs = "manifests_set ?m defaultNamespace"
  note facts = sample_platform_facts
  obtain fs1 rr0 where first: "render_sets ?E ?m sample_sets kept_fs empty_request = (None, fs1, rr0)"
    and run: "renderManifests sample_platform ?E ?m () kept_fs empty_request = (None, fs1, rr0\<lparr>Generated := True\<rparr>)"
    and sets: "\<forall>rs\<in>set (resource_sets ?m ClusterTypeKubernetes (resolveNamespace (Instance empty_request))).
      set_ok ?E rs \<and> reads_work_tree ?E ?m rs \<and> filled (set_dir ?m rs) fs1"
    by (rule sample_first_rendering)
  obtain params where hold: "holds_params (overlay_dir ?m ?rs) fs1 params"
    using first_rendering_holds [OF first] by blast
  obtain killed where kw: "killed_write ?E (set_file ?m ?rs)
      (set_overrides (re_getenv ?E) (re_iter ?E (rs_paramMap ?rs)) params) fs1 killed"
    and tmp: "fs_get killed (set_tmp ?m ?rs) = Inr (File [])"
    using killed_at_creation [OF hold] by blast
  have "killed_set ?E ?m ?rs fs1 killed"
    using kw holds_params_read [OF hold] filled_kept [OF holds_filled [OF hold]]
    unfolding killed_set_def facts(3) by blast
  then have kr: "killed_rendering ?E ?m sample_sets empty_request fs1 killed"
    unfolding killed_rendering_def by (intro exI [of _ "[]"]) (auto simp: resource_sets_def)
  have same: "?E\<lparr>re_iter := re_iter ?E\<rparr> = ?E" by simp
  have "worked sample_platform ?E ?m (resource_sets ?m ClusterTypeKubernetes (resolveNamespace (Instance empty_request)))
      () empty_request fs1 killed"
    unfolding facts(2) by (rule worked.killed [OF worked.start facts(4)]) (unfold same, rule kr)
  from rendering_survives_crashes [OF run facts(1,3,4) iterates_rev sets this] run kr tmp show ?thesis by auto
qed

end
