(* ===== verification/Lifecycle.thy ===== *)
theory Lifecycle
  imports Reconciler Render_Crash
begin

text \<open>
  The operator over time: reconciles, finalizer runs, changes from outside and restarts of a killed
  process, in any order, as a step relation on the operator's state, and invariants of the states
  it can reach.
\<close>

section \<open>Steps\<close>

text \<open>
  Between two runs the cluster may change in any way and the request is fetched anew. The Trainer
  found there is any: its specification may have been edited, its status may be the one the last
  run left, an older one when that could not be written, or the empty one of an object that was
  deleted and created again. Resources, marks and the generated flag start empty.
\<close>

definition refetched :: "'w \<Rightarrow> Trainer \<Rightarrow> ('w, 'v) op_state \<Rightarrow> ('w, 'v) op_state" where
  "refetched w trainer s = s\<lparr>st_cluster := w,
     st_req := \<lparr>Instance = trainer, Resources = [], Generated = False, marks = []\<rparr>\<rparr>"

text \<open>
  A reconcile among other clients of the cluster: they may change it between any two actions, and
  the reconcile may be cut short there, by a cancelled context or the end of the process. With
  nobody around it is the run of the actions.
\<close>

inductive disturbed_run :: "('w, 'v) action list \<Rightarrow> ('w, 'v) op_state \<Rightarrow> goerr option \<Rightarrow> ('w, 'v) op_state \<Rightarrow> bool" where
  finished: "disturbed_run [] s None s"
| failed: "a s = (Some e, s') \<Longrightarrow> disturbed_run (a # as) s (Some e) s'"
| cut_short: "disturbed_run as s (Some e) s"
| onwards: "a s = (None, s1) \<Longrightarrow> disturbed_run as (s1\<lparr>st_cluster := w\<rparr>) r s' \<Longrightarrow> disturbed_run (a # as) s r s'"

inductive_cases disturbed_NilE: "disturbed_run [] s r s'"
inductive_cases disturbed_ConsE: "disturbed_run (a # as) s r s'"

lemma undisturbed_run: "run_actions as s = (r, s') \<Longrightarrow> disturbed_run as s r s'"
proof (induction as arbitrary: s)
  case (Cons a as)
  obtain r1 s1 where a: "a s = (r1, s1)" by fastforce
  show ?case
  proof (cases r1)
    case None
    with a Cons have "disturbed_run as (s1\<lparr>st_cluster := st_cluster s1\<rparr>) r s'" by simp
    with a None show ?thesis by (blast intro: disturbed_run.onwards)
  qed (use a Cons.prems in \<open>auto intro: disturbed_run.failed\<close>)
qed (auto intro: disturbed_run.finished)

lemma disturbed_append:
  "disturbed_run (as @ bs) s r s' \<Longrightarrow>
     r \<noteq> None \<and> disturbed_run as s r s' \<or>
     (\<exists>s1 w. disturbed_run as s None s1 \<and> disturbed_run bs (s1\<lparr>st_cluster := w\<rparr>) r s')"
proof (induction as arbitrary: s)
  case Nil
  then have "disturbed_run bs (s\<lparr>st_cluster := st_cluster s\<rparr>) r s'" by simp
  then show ?case by (blast intro: disturbed_run.finished)
next
  case (Cons a as)
  from Cons.prems [unfolded append_Cons]
  consider e where "r = Some e" "a s = (Some e, s')" | e where "r = Some e" "s' = s"
    | s1 w where "a s = (None, s1)" "disturbed_run (as @ bs) (s1\<lparr>st_cluster := w\<rparr>) r s'"
    by (elim disturbed_ConsE) blast+
  then show ?case
  proof cases
    case 3
    from Cons.IH [OF 3(2)] 3(1) show ?thesis by (blast intro: disturbed_run.onwards)
  qed (auto intro: disturbed_run.failed disturbed_run.cut_short)
qed

text \<open>
  Also among other clients the deploy action is reached only with a complete rendering, after the
  dependencies were met when the reconcile looked at them: what is deployed is what was
  rendered, on a cluster that may have changed since.
\<close>

lemma disturbed_first_four:
  assumes "disturbed_run (take 4 (actions (reconciler_plan_for E m))) s None s4"
  shows "dependencies_met (re_unstructured (oe_render E)) (oe_platform E) (st_cluster s) \<and> Generated (st_req s4)"
proof -
  let ?w = "\<lambda>s w. s\<lparr>st_cluster := w\<rparr>"
  from assms obtain s1 w1 s2 w2 s3 w3 t w4 where run: "checkDependencies_action E s = (None, s1)"
    "ensureNamespace_action E (?w s1 w1) = (None, s2)" "updateReleases_action E m (?w s2 w2) = (None, s3)"
    "renderManifests_action E m (?w s3 w3) = (None, t)" "s4 = ?w t w4"
    unfolding take_plan(1) by (elim disturbed_ConsE disturbed_NilE; simp)
  from run(1) have "fst (checkDependencies (re_unstructured (oe_render E)) (oe_platform E) (st_cluster s) (st_req s)) = None"
    by (auto simp: checkDependencies_action_def split: prod.splits)
  moreover from run(4,5) have "Generated (st_req s4)"
    by (auto simp: renderManifests_action_def renderManifests_def Let_def split: prod.splits sum.splits option.splits)
  ultimately show ?thesis by (simp add: ok_dependencies)
qed

lemma disturbed_deploy_only_when_ready:
  assumes "disturbed_run (actions (reconciler_plan_for E m)) s r s'"
  shows "r \<noteq> None \<and> disturbed_run (take 4 (actions (reconciler_plan_for E m))) s r s' \<or>
    (\<exists>s4 w. dependencies_met (re_unstructured (oe_render E)) (oe_platform E) (st_cluster s) \<and> Generated (st_req s4) \<and>
       disturbed_run (drop 4 (actions (reconciler_plan_for E m))) (s4\<lparr>st_cluster := w\<rparr>) r s')"
  using disturbed_append [of "take 4 (actions (reconciler_plan_for E m))" "drop 4 (actions (reconciler_plan_for E m))"]
    disturbed_first_four assms unfolding append_take_drop_id by blast

text \<open>
  The environment of a run is any of a set \<open>Es\<close>: the system calls that fail, the iteration order of the
  maps and what the libraries answer may be others in every run.
\<close>

inductive step ::
  "('w, 'v) operator_env set \<Rightarrow> ReconcilerConfig \<Rightarrow> ('w, 'v) op_state \<Rightarrow> ('w, 'v) op_state \<Rightarrow> bool"
  for Es m where
  reconcile: "E \<in> Es \<Longrightarrow> disturbed_run (actions (reconciler_plan_for E m)) s r s' \<Longrightarrow> step Es m s s'"
| finalize: "E \<in> Es \<Longrightarrow> finalizer (reconciler_plan_for E m) s = (r, s') \<Longrightarrow> step Es m s s'"
| outside: "step Es m s (refetched w trainer s)"

text \<open>
  The process can be killed at any moment. Its successor starts with a release of a fresh process
  (\<open>boot\<close>, what \<^verbatim>\<open>NewReconciler\<close> returns), a cluster that may have changed, and the files the dead one
  left: those between two runs, or those in the middle of a rendering.
\<close>

definition restarted :: "'w \<Rightarrow> fnode \<Rightarrow> 'v release \<Rightarrow> ('w, 'v) op_state \<Rightarrow> ('w, 'v) op_state" where
  "restarted w fs rel s = s\<lparr>st_cluster := w, st_files := fs, st_release := rel\<rparr>"

definition left_by_kill ::
  "('w, 'v) operator_env \<Rightarrow> ReconcilerConfig \<Rightarrow> ('w, 'v) op_state \<Rightarrow> fnode \<Rightarrow> bool" where
  "left_by_kill E m s fs \<longleftrightarrow> fs = st_files s \<or>
     (\<exists>ct rr. killed_rendering (oe_render E) m
        (resource_sets m ct (resolveNamespace (Instance (st_req s)))) rr (st_files s) fs)"

inductive reachable ::
  "('w, 'v) operator_env set \<Rightarrow> 'v release set \<Rightarrow> ReconcilerConfig \<Rightarrow> ('w, 'v) op_state \<Rightarrow> ('w, 'v) op_state \<Rightarrow> bool"
  for Es boot m s0 where
  start: "reachable Es boot m s0 s0"
| later: "reachable Es boot m s0 s \<Longrightarrow> step Es m s s' \<Longrightarrow> reachable Es boot m s0 s'"
| killed: "reachable Es boot m s0 s \<Longrightarrow> E \<in> Es \<Longrightarrow> left_by_kill E m s fs \<Longrightarrow> rel \<in> boot \<Longrightarrow>
    reachable Es boot m s0 (restarted w fs rel s)"

section \<open>Invariants of actions\<close>

text \<open>An invariant that an action keeps is kept by every run of such actions, whatever fails.\<close>

locale kept_by =
  fixes ok :: "('w, 'v) op_state \<Rightarrow> bool"
    and act :: "('w, 'v) op_state \<Rightarrow> goerr option \<times> ('w, 'v) op_state"
  assumes keeps: "ok s \<Longrightarrow> ok (snd (act s))"
begin

lemma keeps_outcome: "ok s \<Longrightarrow> act s = (r, s') \<Longrightarrow> ok s'"
  using keeps [of s] by simp

lemma keeps_recovery:
  assumes "\<And>s w. ok s \<Longrightarrow> ok (s\<lparr>st_cluster := w\<rparr>)"
  shows "ok s \<Longrightarrow> ok (snd (withImmutableFieldRecovery C act s))"
  using keeps [of s] assms by (auto simp: withImmutableFieldRecovery_def split: prod.splits)

end

lemma disturbed_keeps:
  assumes "disturbed_run as s r s'" and "ok s"
    and "\<And>a. a \<in> set as \<Longrightarrow> kept_by ok a" and "\<And>s w. ok s \<Longrightarrow> ok (s\<lparr>st_cluster := w\<rparr>)"
  shows "ok s'"
  using assms(1-3)
proof (induction rule: disturbed_run.induct)
  case (failed a s e s' as)
  then show ?case using kept_by.keeps_outcome [of ok a s "Some e" s'] by simp
next
  case (onwards a s s1 as w r s')
  then have "ok s1" using kept_by.keeps_outcome [of ok a s None s1] by simp
  with onwards assms(4) show ?case by simp
qed

section \<open>The release the reconciler works with\<close>

text \<open>
  The framework stamps what it deploys with the reconciler's release, which lives in the process; the
  version the status reports is stored with the Trainer, and can be lost or replaced without the
  process noticing. \<open>release_from\<close> is where the release comes from, \<open>release_shown\<close> says that the status
  shows the version it has.
\<close>

definition release_from :: "('w, 'v) operator_env set \<Rightarrow> 'v release set \<Rightarrow> 'v release \<Rightarrow> bool" where
  "release_from Es boot rel \<longleftrightarrow> rel \<in> boot \<or>
     (\<exists>E\<in>Es. \<exists>ns w pv v. published_version (oe_semver E) (oe_client E) ns w = Some (pv, v) \<and>
        rel = \<lparr>rel_name = platformReleaseName, rel_version = v\<rparr>)"

definition release_shown :: "(string \<Rightarrow> 'v result) \<Rightarrow> 'v release \<Rightarrow> Trainer \<Rightarrow> bool" where
  "release_shown semver rel trainer \<longleftrightarrow> rel_name rel = platformReleaseName \<and>
     semver (currentPlatformVersion trainer) = Inr (rel_version rel)"

text \<open>No component release is called like the platform.\<close>

definition metadata_names_ok :: "(string \<Rightarrow> componentMetadata result) \<Rightarrow> bool" where
  "metadata_names_ok unmarshal \<longleftrightarrow> (\<forall>d md. unmarshal d = Inr md \<longrightarrow>
     (\<forall>r\<in>set (meta_releases md). meta_name r \<noteq> platformReleaseName))"

text \<open>What is asked of the framework's actions: they write neither the reconciler's release nor the releases in the status.\<close>

definition framework_keeps :: "('w, 'v) operator_env \<Rightarrow> bool" where
  "framework_keeps E \<longleftrightarrow>
     (\<forall>a\<in>{oe_deploy E opts |opts. True} \<union> {oe_deployments E f |f. True} \<union> {oe_gc E f b g |f b g. True}.
        \<forall>s. st_release (snd (a s)) = st_release s \<and>
          Releases (Status (Instance (st_req (snd (a s))))) = Releases (Status (Instance (st_req s))))"

lemma component_names:
  assumes "metadata_names_ok unmarshal"
  shows "find (\<lambda>r. cr_name r = platformReleaseName) (rev (component_releases io unmarshal mp fs)) = None"
  using assms
  by (auto simp: component_releases_def getComponentReleases_def read_metadata_def metadata_names_ok_def
      find_None_iff split: sum.splits)

text \<open>What one \<^verbatim>\<open>updateReleases\<close> does to the release and to the version the status shows.\<close>

lemma updateReleases_publishes:
  fixes E :: "('w, 'v) operator_env"
  assumes "published_version (oe_semver E) (oe_client E) (resolveNamespace (Instance (st_req s))) (st_cluster s) = Some (pv, v)"
  shows "st_release (snd (updateReleases_action E m s)) = \<lparr>rel_name = platformReleaseName, rel_version = v\<rparr>"
    and "currentPlatformVersion (Instance (st_req (snd (updateReleases_action E m s)))) = pv"
  using assms
  by (simp_all add: updateReleases_action_def updateReleases_unfold Let_def currentPlatformVersion_def
      find_version_named release_named_new platform_release_def)

lemma updateReleases_silent:
  fixes E :: "('w, 'v) operator_env"
  assumes "published_version (oe_semver E) (oe_client E) (resolveNamespace (Instance (st_req s))) (st_cluster s) = None"
  shows "st_release (snd (updateReleases_action E m s)) = st_release s"
    and "metadata_names_ok (oe_metadata E) \<Longrightarrow>
      currentPlatformVersion (Instance (st_req (snd (updateReleases_action E m s)))) =
      currentPlatformVersion (Instance (st_req s))"
  using assms component_names [of "oe_metadata E"]
  by (simp_all add: updateReleases_action_def updateReleases_unfold Let_def currentPlatformVersion_def
      find_version_named release_named_new)

text \<open>
  An invariant of the release and the shown version: kept by every action but \<^verbatim>\<open>updateReleases\<close>,
  whatever it is.
\<close>

definition release_inv :: "('v release \<Rightarrow> string \<Rightarrow> bool) \<Rightarrow> ('w, 'v) op_state \<Rightarrow> bool" where
  "release_inv P s \<longleftrightarrow> P (st_release s) (currentPlatformVersion (Instance (st_req s)))"

lemma release_untouched:
  assumes "Releases (Status (Instance (st_req s'))) = Releases (Status (Instance (st_req s)))"
    and "st_release s' = st_release s" and "release_inv P s"
  shows "release_inv P s'"
  using assms by (simp add: release_inv_def currentPlatformVersion_def)

interpretation deps_release: kept_by "release_inv P" "checkDependencies_action E" for P E
  by unfold_locales
    (rule release_untouched, auto simp: checkDependencies_action_def split_beta checkDependencies_keeps)

interpretation namespace_release: kept_by "release_inv P" "ensureNamespace_action E" for P E
  by unfold_locales (rule release_untouched, auto simp: ensureNamespace_action_def split_beta)

interpretation manifests_release: kept_by "release_inv P" "renderManifests_action E m" for P E m
  by unfold_locales
    (rule release_untouched, auto simp: renderManifests_action_def split_beta renderManifests_keeps)

interpretation strip_release: kept_by "release_inv P" "stripRuntimeFinalizers E" for P E
  by unfold_locales (rule release_untouched, auto simp: stripRuntimeFinalizers_def split_beta)

interpretation cleanup_release: kept_by "release_inv P" "cleanup E" for P E
  by unfold_locales
    (rule release_untouched, auto simp: cleanup_def Let_def split: prod.splits option.splits)

lemma release_inv_cluster: "release_inv P s \<Longrightarrow> release_inv P (s\<lparr>st_cluster := w\<rparr>)"
  by (simp add: release_inv_def)

lemma later_actions_keep:
  assumes "framework_keeps E" and "a \<in> set (drop 3 (actions (reconciler_plan_for E m)))"
  shows "kept_by (release_inv P) a"
proof -
  have fw: "kept_by (release_inv P) (oe_deploy E opts)" "kept_by (release_inv P) (oe_deployments E f)"
    "kept_by (release_inv P) (oe_gc E f b g)" for opts f b g
    by (rule kept_by.intro, rule release_untouched; use assms(1) in \<open>auto simp: framework_keeps_def\<close>)+
  have "kept_by (release_inv P) (withImmutableFieldRecovery C (oe_deploy E opts))" for C opts
    by (rule kept_by.intro, rule kept_by.keeps_recovery [OF fw(1) release_inv_cluster])
  then show ?thesis
    using assms(2) fw manifests_release.kept_by_axioms strip_release.kept_by_axioms
    by (auto simp: reconciler_plan_for_def)
qed

lemma plan_keeps:
  assumes "framework_keeps E" and "kept_by (release_inv P) (updateReleases_action E m)"
    and "a \<in> set (actions (reconciler_plan_for E m))"
  shows "kept_by (release_inv P) a"
proof -
  have plan: "actions (reconciler_plan_for E m) = [checkDependencies_action E, ensureNamespace_action E, updateReleases_action E m]
      @ drop 3 (actions (reconciler_plan_for E m))" by (simp add: reconciler_plan_for_def)
  from assms(3) plan have "a \<in> {checkDependencies_action E, ensureNamespace_action E, updateReleases_action E m} \<or>
      a \<in> set (drop 3 (actions (reconciler_plan_for E m)))"
    by (metis Un_iff list.set(1) list.set(2) set_append)
  then show ?thesis
    using later_actions_keep [OF assms(1)] assms(2) deps_release.kept_by_axioms namespace_release.kept_by_axioms
    by auto
qed

lemma run_keeps:
  assumes "disturbed_run (actions (reconciler_plan_for E m)) s r s'" and "release_inv P s"
    and "framework_keeps E" and "kept_by (release_inv P) (updateReleases_action E m)"
  shows "release_inv P s'"
  using assms(1,2) by (rule disturbed_keeps) (rule plan_keeps [OF assms(3,4)], assumption, rule release_inv_cluster)

text \<open>Where the release comes from is kept by \<^verbatim>\<open>updateReleases\<close>, and so is its being shown.\<close>

lemma updateReleases_keeps_source:
  fixes E :: "('w, 'v) operator_env"
  assumes "E \<in> Es"
  shows "kept_by (release_inv (\<lambda>rel pv. release_from Es boot rel)) (updateReleases_action E m)"
proof
  fix s :: "('w, 'v) op_state"
  assume s: "release_inv (\<lambda>rel pv. release_from Es boot rel) s"
  let ?pub = "published_version (oe_semver E) (oe_client E) (resolveNamespace (Instance (st_req s))) (st_cluster s)"
  show "release_inv (\<lambda>rel pv. release_from Es boot rel) (snd (updateReleases_action E m s))"
  proof (cases ?pub)
    case None
    with s show ?thesis by (simp add: release_inv_def updateReleases_silent)
  next
    case (Some p)
    obtain pv v where "p = (pv, v)" by (cases p)
    with Some assms show ?thesis
      unfolding release_inv_def release_from_def by (metis updateReleases_publishes(1))
  qed
qed

lemma updateReleases_keeps_shown:
  fixes E :: "('w, 'v) operator_env"
  assumes "metadata_names_ok (oe_metadata E)"
  shows "kept_by (release_inv (\<lambda>rel pv. rel_name rel = platformReleaseName \<and> oe_semver E pv = Inr (rel_version rel)))
    (updateReleases_action E m)"
proof
  let ?P = "\<lambda>rel pv. rel_name rel = platformReleaseName \<and> oe_semver E pv = Inr (rel_version rel)"
  fix s :: "('w, 'v) op_state"
  assume s: "release_inv ?P s"
  let ?pub = "published_version (oe_semver E) (oe_client E) (resolveNamespace (Instance (st_req s))) (st_cluster s)"
  show "release_inv ?P (snd (updateReleases_action E m s))"
  proof (cases ?pub)
    case None
    with s assms show ?thesis by (simp add: release_inv_def updateReleases_silent)
  next
    case (Some p)
    obtain pv v where p: "p = (pv, v)" by (cases p)
    with Some have "oe_semver E pv = Inr v"
      by (auto simp: published_version_def split: sum.splits if_splits)
    with Some p show ?thesis by (simp add: release_inv_def updateReleases_publishes)
  qed
qed

lemma release_source:
  assumes "\<forall>E\<in>Es. framework_keeps E" and "st_release s0 \<in> boot" and "reachable Es boot m s0 s"
  shows "release_from Es boot (st_release s)"
proof -
  let ?inv = "release_inv (\<lambda>rel pv. release_from Es boot rel)"
  from assms(3) have "?inv s"
  proof (induction rule: reachable.induct)
    case start
    show ?case using assms(2) by (simp add: release_inv_def release_from_def)
  next
    case (later s s')
    from later(2) show ?case
    proof (cases rule: step.cases)
      case (reconcile E r)
      with assms(1) have "framework_keeps E" by blast
      from run_keeps [OF reconcile(2) later(3) this updateReleases_keeps_source [OF reconcile(1)]] show ?thesis .
    next
      case (finalize E r)
      then have "cleanup E s = (r, s')" by (simp add: reconciler_plan_for_def)
      with later(3) show ?thesis by (rule cleanup_release.keeps_outcome)
    next
      case outside
      with later(3) show ?thesis by (simp add: refetched_def release_inv_def)
    qed
  next
    case (killed s E fs rel w)
    then show ?case by (simp add: restarted_def release_inv_def release_from_def)
  qed
  then show ?thesis by (simp add: release_inv_def)
qed

text \<open>
  C11: The release the framework stamps resources with and the version the Trainer's status reports,
  at every moment of the operator's life, whatever led there: reconciles (failing, cut short or
  not, with others changing the cluster between any two actions), finalizer runs, restarts of a
  killed process, and Trainers that come back with a stale or an empty status because a status
  update was lost or the object was deleted and created again. First, the release is one a fresh process starts
  with or the platform at a version that the platform's ConfigMap published and that parses.
  Second, the status that was lost catches up: a reconcile in which \<^verbatim>\<open>updateReleases\<close> finds a
  published version ends, however it goes on and wherever it stops after that, with the
  platform release at that version in force, and with just this version in the status it reports;
  so what is deployed carries the version the status shows. Third, a reconcile never breaks
  an agreement of the two, also when it finds no published version. Asked for are that the
  framework's actions write neither the release nor the releases in the status and that no component of
  the metadata is called like the platform.
\<close>

theorem release_follows_platform:
  fixes E :: "('w, 'v) operator_env"
  assumes "\<forall>E\<in>Es. framework_keeps E \<and> metadata_names_ok (oe_metadata E)" and "st_release s0 \<in> boot"
    and "reachable Es boot m s0 s" and "E \<in> Es"
  shows "release_from Es boot (st_release s) \<and>
    (\<forall>s2 pv v w r s'. disturbed_run (take 2 (actions (reconciler_plan_for E m))) s None s2 \<and>
       published_version (oe_semver E) (oe_client E) (resolveNamespace (Instance (st_req s2))) (st_cluster s2) = Some (pv, v) \<and>
       disturbed_run (drop 3 (actions (reconciler_plan_for E m)))
         (snd (updateReleases_action E m s2)\<lparr>st_cluster := w\<rparr>) r s' \<longrightarrow>
       st_release s' = \<lparr>rel_name = platformReleaseName, rel_version = v\<rparr> \<and>
       currentPlatformVersion (Instance (st_req s')) = pv) \<and>
    (\<forall>r s'. disturbed_run (actions (reconciler_plan_for E m)) s r s' \<and>
       release_shown (oe_semver E) (st_release s) (Instance (st_req s)) \<longrightarrow>
       release_shown (oe_semver E) (st_release s') (Instance (st_req s')))"
proof (intro conjI allI impI)
  note fw = bspec [OF assms(1,4), THEN conjunct1] and names = bspec [OF assms(1,4), THEN conjunct2]
  show "release_from Es boot (st_release s)" using release_source [OF _ assms(2,3)] assms(1) by blast
  fix r s'
  assume run: "disturbed_run (actions (reconciler_plan_for E m)) s r s' \<and>
    release_shown (oe_semver E) (st_release s) (Instance (st_req s))"
  let ?inv = "release_inv (\<lambda>rel pv. rel_name rel = platformReleaseName \<and> oe_semver E pv = Inr (rel_version rel))"
  have "?inv s" using run by (simp add: release_shown_def release_inv_def)
  from run_keeps [OF conjunct1 [OF run] this fw updateReleases_keeps_shown [OF names]]
  show "release_shown (oe_semver E) (st_release s') (Instance (st_req s'))"
    by (simp add: release_shown_def release_inv_def)
next
  note fw = bspec [OF assms(1,4), THEN conjunct1]
  fix s2 :: "('w, 'v) op_state" and v :: 'v and pv w r s'
  let ?rel = "\<lparr>rel_name = platformReleaseName, rel_version = v\<rparr>" and ?s3 = "snd (updateReleases_action E m s2)"
  assume run: "disturbed_run (take 2 (actions (reconciler_plan_for E m))) s None s2 \<and>
    published_version (oe_semver E) (oe_client E) (resolveNamespace (Instance (st_req s2))) (st_cluster s2) = Some (pv, v) \<and>
    disturbed_run (drop 3 (actions (reconciler_plan_for E m))) (?s3\<lparr>st_cluster := w\<rparr>) r s'"
  note pub = updateReleases_publishes [OF conjunct1 [OF conjunct2 [OF run]], of m]
  from pub have "release_inv (\<lambda>rel pv'. rel = ?rel \<and> pv' = pv) (?s3\<lparr>st_cluster := w\<rparr>)"
    by (simp add: release_inv_def)
  with conjunct2 [OF conjunct2 [OF run]] have "release_inv (\<lambda>rel pv'. rel = ?rel \<and> pv' = pv) s'"
    by (rule disturbed_keeps) (rule later_actions_keep [OF fw], assumption, rule release_inv_cluster)
  then show "st_release s' = ?rel" "currentPlatformVersion (Instance (st_req s')) = pv"
    by (simp_all add: release_inv_def)
qed

text \<open>A platform that publishes its version, and the reconciles of a life in which the Trainer is deleted and created again.\<close>

definition publishing_env :: "(contents, string) operator_env" where
  "publishing_env = ready_env\<lparr>oe_client := (oe_client ready_env)\<lparr>
     get_configmap := (\<lambda>name ns w. Inr [(platformVersionKey, ''2.20.0'')])\<rparr>\<rparr>"

definition published_release :: "string release" where
  "published_release = \<lparr>rel_name = platformReleaseName, rel_version = ''2.20.0''\<rparr>"

lemma publishing_framework:
  "\<forall>E\<in>{publishing_env}. framework_keeps E \<and> metadata_names_ok (oe_metadata E)"
  by (auto simp: framework_keeps_def metadata_names_ok_def publishing_env_def ready_env_def idle_with_def
      sample_metadata_def platformReleaseName_def)

lemma publishing_run:
  fixes rel
  defines "plan \<equiv> actions (reconciler_plan_for publishing_env sample_config_paths)" and "s \<equiv> idle_state\<lparr>st_release := rel\<rparr>"
  shows "\<exists>s2 s'. disturbed_run (take 2 plan) s None s2 \<and>
    published_version (oe_semver publishing_env) (oe_client publishing_env) (resolveNamespace (Instance (st_req s2)))
      (st_cluster s2) = Some (''2.20.0'', ''2.20.0'') \<and>
    disturbed_run (drop 3 plan) (snd (updateReleases_action publishing_env sample_config_paths s2)\<lparr>st_cluster := st_cluster s2\<rparr>) None s' \<and>
    run_actions plan s = (None, s') \<and> st_files s' = st_files idle_state"
proof -
  let ?E = publishing_env
  let ?rr = "MarkFalse degradedCondition ''DependenciesAvailable'' ''All required dependencies are available'' empty_request"
  let ?s2 = "s\<lparr>st_req := ?rr\<rparr>"
  have 1: "checkDependencies_action ?E s = (None, ?s2)"
    by (simp add: s_def checkDependencies_action_def publishing_env_def ready_env_def idle_with_def idle_state_def
        checkDependencies_def checkJobSetAvailable_def)
  have 2: "ensureNamespace_action ?E t = (None, t)" for t
    by (simp add: ensureNamespace_action_def ensureNamespace_def publishing_env_def ready_env_def idle_with_def Let_def)
  have pub: "published_version (oe_semver ?E) (oe_client ?E) ns w = Some (''2.20.0'', ''2.20.0'')" for ns w
    by (simp add: published_version_def getPlatformVersion_def publishing_env_def ready_env_def idle_with_def map_index_def)
  obtain rr3 rel3 where 3: "updateReleases_action ?E sample_config_paths ?s2 = (None, ?s2\<lparr>st_req := rr3, st_release := rel3\<rparr>)"
    and ns: "resolveNamespace (Instance rr3) = defaultNamespace"
    by (simp add: updateReleases_action_def updateReleases_unfold Let_def pub)
      (simp add: publishing_env_def ready_env_def idle_with_def s_def idle_state_def getPlatformVersion_def
        resolveNamespace_def MarkFalse_def empty_request_def)
  obtain rr4 where 4: "renderManifests_action ?E sample_config_paths (?s2\<lparr>st_req := rr3, st_release := rel3\<rparr>) =
      (None, ?s2\<lparr>st_req := rr4, st_release := rel3\<rparr>)"
    using sample_render [of "oe_platform ?E" sample_runtimes rr3] ns
    by (simp add: renderManifests_action_def publishing_env_def ready_env_def idle_with_def s_def idle_state_def)
  obtain c where "removeRuntimeFinalizers mem_client sample_runtimes = (None, c)"
    using sample_remove_ok by blast
  then have 7: "stripRuntimeFinalizers ?E (?s2\<lparr>st_req := rr4, st_release := rel3\<rparr>) =
      (None, ?s2\<lparr>st_req := rr4, st_release := rel3, st_cluster := c\<rparr>)"
    by (simp add: stripRuntimeFinalizers_def publishing_env_def ready_env_def idle_with_def s_def idle_state_def)
  have fw: "oe_deploy ?E = (\<lambda>opts s. (None, s))" "oe_deployments ?E = (\<lambda>f s. (None, s))" "oe_gc ?E = (\<lambda>f b g s. (None, s))"
    by (simp_all add: publishing_env_def ready_env_def idle_with_def)
  let ?s' = "?s2\<lparr>st_req := rr4, st_release := rel3, st_cluster := c\<rparr>"
  have plan: "plan = [checkDependencies_action ?E, ensureNamespace_action ?E] @
      [updateReleases_action ?E sample_config_paths] @ drop 3 plan" "take 2 plan = [checkDependencies_action ?E, ensureNamespace_action ?E]"
    by (simp_all add: plan_def reconciler_plan_for_def)
  have rest: "run_actions (drop 3 plan) (?s2\<lparr>st_req := rr3, st_release := rel3\<rparr>) = (None, ?s')"
    using 4 7 by (simp add: plan_def reconciler_plan_for_def withImmutableFieldRecovery_def fw)
  have "run_actions (take 2 plan) s = (None, ?s2)" by (simp add: plan(2) 1 2)
  then have first: "disturbed_run (take 2 plan) s None ?s2" by (rule undisturbed_run)
  have "run_actions plan s = (None, ?s')" by (subst plan(1)) (use rest in \<open>simp add: 1 2 3\<close>)
  moreover have "disturbed_run (drop 3 plan)
      (snd (updateReleases_action ?E sample_config_paths ?s2)\<lparr>st_cluster := st_cluster ?s2\<rparr>) None ?s'"
    using undisturbed_run [OF rest] by (simp add: 3)
  moreover have "st_files ?s' = st_files idle_state" by (simp add: s_def)
  ultimately show ?thesis using first pub by blast
qed

theorem release_follows_platform_witness:
  "\<exists>s s'. reachable {publishing_env} {st_release idle_state} sample_config_paths idle_state s \<and>
     st_release s = published_release \<and> currentPlatformVersion (Instance (st_req s)) = [] \<and>
     run_actions (actions (reconciler_plan_for publishing_env sample_config_paths)) s = (None, s') \<and>
     st_release s' = published_release \<and> currentPlatformVersion (Instance (st_req s')) = ''2.20.0''"
proof -
  let ?E = publishing_env and ?m = sample_config_paths and ?boot = "{st_release idle_state}"
  let ?plan = "actions (reconciler_plan_for ?E ?m)"
  have ends: "st_release s' = published_release \<and> currentPlatformVersion (Instance (st_req s')) = ''2.20.0''"
    if "reachable {?E} ?boot ?m idle_state s" "disturbed_run (take 2 ?plan) s None s2"
      "published_version (oe_semver ?E) (oe_client ?E) (resolveNamespace (Instance (st_req s2))) (st_cluster s2) =
         Some (''2.20.0'', ''2.20.0'')"
      "disturbed_run (drop 3 ?plan) (snd (updateReleases_action ?E ?m s2)\<lparr>st_cluster := st_cluster s2\<rparr>) None s'" for s s2 s'
    using release_follows_platform [OF publishing_framework _ that(1), of ?E] that(2-4)
    unfolding published_release_def by blast
  have id: "idle_state\<lparr>st_release := st_release idle_state\<rparr> = idle_state" by simp
  from publishing_run [of "st_release idle_state", unfolded id] obtain s2 s1 where
    run1: "run_actions ?plan idle_state = (None, s1)" and files1: "st_files s1 = st_files idle_state"
    and rel1: "st_release s1 = published_release"
    using ends [OF reachable.start] by blast
  have r1: "reachable {?E} ?boot ?m idle_state s1"
    using reachable.later [OF reachable.start step.reconcile [OF _ undisturbed_run [OF run1]]] by blast
  obtain r sf where fin: "cleanup ?E s1 = (r, sf)" by fastforce
  then have kept: "st_release sf = published_release" "st_files sf = st_files idle_state"
    using rel1 files1 by (auto simp: cleanup_def Let_def split: prod.splits option.splits)
  let ?s = "refetched sample_runtimes (Instance empty_request) sf"
  have "finalizer (reconciler_plan_for ?E ?m) s1 = (r, sf)" using fin by (simp add: reconciler_plan_for_def)
  then have "reachable {?E} ?boot ?m idle_state sf"
    using reachable.later [OF r1 step.finalize] by blast
  then have r2: "reachable {?E} ?boot ?m idle_state ?s" by (rule reachable.later [OF _ step.outside])
  have s: "?s = idle_state\<lparr>st_release := published_release\<rparr>"
    using kept by (simp add: refetched_def idle_state_def empty_request_def)
  from publishing_run [of published_release] obtain s2' s' where
    run2: "run_actions ?plan ?s = (None, s')" "disturbed_run (take 2 ?plan) ?s None s2'"
      "published_version (oe_semver ?E) (oe_client ?E) (resolveNamespace (Instance (st_req s2'))) (st_cluster s2') =
         Some (''2.20.0'', ''2.20.0'')"
      "disturbed_run (drop 3 ?plan) (snd (updateReleases_action ?E ?m s2')\<lparr>st_cluster := st_cluster s2'\<rparr>) None s'"
    unfolding s by blast
  have "currentPlatformVersion (Instance (st_req ?s)) = []" "st_release ?s = published_release"
    unfolding s by (simp_all add: idle_state_def empty_request_def currentPlatformVersion_def)
  with r2 run2(1) ends [OF r2 run2(2-4)] show ?thesis by blast
qed

section \<open>The files over time\<close>

text \<open>The framework's actions work on the cluster and the request only.\<close>

definition framework_without_files :: "('w, 'v) operator_env \<Rightarrow> bool" where
  "framework_without_files E \<longleftrightarrow>
     (\<forall>a\<in>{oe_deploy E opts |opts. True} \<union> {oe_deployments E f |f. True} \<union> {oe_gc E f b g |f b g. True}.
        \<forall>s. st_files (snd (a s)) = st_files s)"

context fs_kept
begin

lemma untouched_files: "(\<And>s. st_files (snd (a s)) = st_files s) \<Longrightarrow> kept_by (\<lambda>s. inv (st_files s)) a"
  by (rule kept_by.intro) simp

lemma plan_keeps_files:
  assumes "framework_without_files E" and "prefix d (WorkDir m)" and "a \<in> set (actions (reconciler_plan_for E m))"
  shows "kept_by (\<lambda>s. inv (st_files s)) a"
proof -
  have fw: "st_files (snd (oe_deploy E opts s)) = st_files s" "st_files (snd (oe_deployments E f s)) = st_files s"
    "st_files (snd (oe_gc E f b g s)) = st_files s" for opts f b g s
    using assms(1) by (auto simp: framework_without_files_def)
  have "kept_by (\<lambda>s. inv (st_files s)) (withImmutableFieldRecovery C (oe_deploy E opts))" for C opts
    by (rule kept_by.intro, rule kept_by.keeps_recovery [OF untouched_files]) (simp_all add: fw(1))
  moreover have "kept_by (\<lambda>s. inv (st_files s)) (renderManifests_action E m)"
    using renderManifests_keeps_files [OF _ assms(2)]
    by (intro kept_by.intro) (simp add: renderManifests_action_def split_beta)
  moreover have "kept_by (\<lambda>s. inv (st_files s)) (checkDependencies_action E)"
    "kept_by (\<lambda>s. inv (st_files s)) (ensureNamespace_action E)" "kept_by (\<lambda>s. inv (st_files s)) (updateReleases_action E m)"
    "kept_by (\<lambda>s. inv (st_files s)) (stripRuntimeFinalizers E)" "kept_by (\<lambda>s. inv (st_files s)) (oe_deployments E f)"
    "kept_by (\<lambda>s. inv (st_files s)) (oe_gc E f b g)" for f b g
    by (rule untouched_files; simp add: fw checkDependencies_action_def ensureNamespace_action_def
        updateReleases_action_def stripRuntimeFinalizers_def split_beta)+
  ultimately show ?thesis using assms(3) by (auto simp: reconciler_plan_for_def)
qed

lemma reachable_keeps_files:
  assumes "\<forall>E\<in>Es. framework_without_files E" and "prefix d (WorkDir m)" and "inv (st_files s0)"
    and "reachable Es boot m s0 s"
  shows "inv (st_files s)"
  using assms(4)
proof (induction rule: reachable.induct)
  case (later s s')
  from later(2) show ?case
  proof (cases rule: step.cases)
    case (reconcile E r)
    with assms(1) have "framework_without_files E" by blast
    from disturbed_keeps [of _ _ _ _ "\<lambda>s. inv (st_files s)", OF reconcile(2) later(3) plan_keeps_files [OF this assms(2)]]
    show ?thesis by simp
  next
    case (finalize E r)
    then have "st_files s' = st_files s"
      by (auto simp: reconciler_plan_for_def cleanup_def Let_def split: prod.splits option.splits)
    with later(3) show ?thesis by simp
  qed (use later(3) in \<open>simp add: refetched_def\<close>)
next
  case (killed s E fs rel w)
  from killed(3) consider "fs = st_files s"
    | ct rr where "killed_rendering (oe_render E) m
        (resource_sets m ct (resolveNamespace (Instance (st_req s)))) rr (st_files s) fs"
    unfolding left_by_kill_def by blast
  then have "inv fs"
    using killed(5) killed_rendering_keeps [OF killed(5) assms(2)] by cases blast+
  then show ?case by (simp add: restarted_def)
qed (rule assms(3))

end

text \<open>
  C21: The files at every moment of the operator's life, whatever reconciles (each failing at any
  system call, cut short between two actions or not, in an environment of its own), finalizer runs,
  changes of the cluster and of the Trainer and restarts after a kill at any moment led there: every directory is well-formed,
  with its entries named once and in increasing order, and every path beside the work directory
  shows what it showed at the start, so the templates of the image stay as they are.
\<close>

theorem reachable_files_wellformed:
  assumes "\<forall>E\<in>Es. framework_without_files E" and "ordered (st_files s0)" and "reachable Es boot m s0 s"
  shows "ordered (st_files s) \<and> (\<forall>q. q \<parallel> WorkDir m \<longrightarrow> fs_view (st_files s) q = fs_view (st_files s0) q)"
proof (intro conjI allI impI)
  show "ordered (st_files s)"
    by (rule ordered_files.reachable_keeps_files [OF assms(1) prefix_order.refl assms(2,3)])
  fix q
  assume "q \<parallel> WorkDir m"
  then show "fs_view (st_files s) q = fs_view (st_files s0) q"
    using outside_files.reachable_keeps_files [OF assms(1) prefix_order.refl _ assms(3), where q = q] by blast
qed

theorem reachable_files_wellformed_witness:
  "\<exists>s. reachable {ready_env} {} sample_config_paths idle_state s \<and> ordered (st_files s) \<and>
     fs_view (st_files s) [''template''] = fs_view (st_files idle_state) [''template'']"
proof -
  obtain r s where "run_actions (actions (reconciler_plan_for ready_env sample_config_paths)) idle_state = (r, s)"
    by fastforce
  then have reach: "reachable {ready_env} {} sample_config_paths idle_state s"
    by (intro reachable.later [OF reachable.start step.reconcile [OF _ undisturbed_run]]) simp_all
  have "\<forall>E\<in>{ready_env}. framework_without_files E" "ordered (st_files idle_state)" "[''template''] \<parallel> WorkDir sample_config_paths"
    by (auto simp: framework_without_files_def ready_env_def idle_with_def idle_state_def sample_work_fs_def
        sample_config_paths_def parallel_def)
  with reachable_files_wellformed [OF _ _ reach] reach show ?thesis by blast
qed

end
