(* ===== verification/Go_Memory.thy ===== *)
theory Go_Memory
  imports Go_Prelude
begin

text \<open>
  Go's memory as far as deep copies depend on it. A heap is the list of the cells allocated so
  far, an address the position of its cell, and allocation appends. A cell holds what one
  allocation holds: a map, the array behind slices, or a struct that was made with \<^verbatim>\<open>new\<close>; which
  kinds of cells there are is left to the client, which gives for each kind a reading \<open>rd\<close> and a
  constructor \<open>wr\<close>.

  The contract of a deep copy is the locale \<open>deep_copier\<close>. Maps, slices and pointers keep it: the
  locales \<open>slice_copier\<close> and \<open>pointer_copier\<close> derive it for a slice of, and a pointer to, values
  that have a deep copier of their own.
\<close>

section \<open>Heaps\<close>

type_synonym addr = nat
type_synonym 'c heap = "'c list"
type_synonym ('c, 'x) copier = "'c heap \<Rightarrow> 'x \<Rightarrow> 'c heap \<times> 'x"

text \<open>A slice header: the array, the offset of the first element in it and the length.\<close>

record slice =
  sl_array :: addr
  sl_off :: nat
  sl_len :: nat

definition slice_elems :: "('c \<Rightarrow> 'x list) \<Rightarrow> 'c heap \<Rightarrow> slice \<Rightarrow> 'x list" where
  "slice_elems rd h s = take (sl_len s) (drop (sl_off s) (rd (h ! sl_array s)))"

text \<open>
  \<open>same_cells A h h'\<close>: the cells of \<open>A\<close> are allocated in \<open>h'\<close> and hold what they hold in \<open>h\<close>.
\<close>

definition same_cells :: "addr set \<Rightarrow> 'c heap \<Rightarrow> 'c heap \<Rightarrow> bool" where
  "same_cells A h h' \<longleftrightarrow> (\<forall>a\<in>A. a < length h' \<and> h' ! a = h ! a)"

lemma same_cells_prefix: "prefix h h' \<Longrightarrow> A \<subseteq> {..<length h} \<Longrightarrow> same_cells A h h'"
  by (auto simp: same_cells_def prefix_def nth_append)

lemma same_cells_mono: "same_cells A h h' \<Longrightarrow> B \<subseteq> A \<Longrightarrow> same_cells B h h'"
  by (auto simp: same_cells_def)

lemma same_cells_update: "same_cells A h h' \<Longrightarrow> b \<notin> A \<Longrightarrow> same_cells A h (h'[b := c])"
  unfolding same_cells_def by (metis length_list_update nth_list_update_neq)

lemma prefix_update: "prefix h h' \<Longrightarrow> length h \<le> b \<Longrightarrow> prefix h (h'[b := c])"
  by (auto simp: prefix_def list_update_append)

lemma prefix_alloc: "prefix h h' \<Longrightarrow> prefix h (h' @ cs)"
  by (auto simp: prefix_def)

lemma prefix_nth: "prefix h h' \<Longrightarrow> a < length h \<Longrightarrow> h' ! a = h ! a"
  by (auto simp: prefix_def nth_append)

section \<open>The contract of a deep copy\<close>

text \<open>
  \<open>valid h x\<close>: every address in the value \<open>x\<close> leads to a cell of the right kind in \<open>h\<close>, as Go's types
  guarantee; \<open>reach h x\<close>: the cells the value consists of; \<open>view h x\<close>: the value with all
  addresses followed. A copy leaves every allocated cell as it is, and its result has the same
  view and consists of cells allocated by the copy.
\<close>

locale deep_copier =
  fixes copy :: "('c, 'x) copier"
    and valid :: "'c heap \<Rightarrow> 'x \<Rightarrow> bool"
    and reach :: "'c heap \<Rightarrow> 'x \<Rightarrow> addr set"
    and view :: "'c heap \<Rightarrow> 'x \<Rightarrow> 'a"
  assumes reach_allocated: "valid h x \<Longrightarrow> reach h x \<subseteq> {..<length h}"
    and frame: "valid h x \<Longrightarrow> same_cells (reach h x) h h' \<Longrightarrow>
      valid h' x \<and> reach h' x = reach h x \<and> view h' x = view h x"
    and copied: "valid h x \<Longrightarrow> copy h x = (h', y) \<Longrightarrow>
      prefix h h' \<and> valid h' y \<and> view h' y = view h x \<and> reach h' y \<subseteq> {length h..}"
begin

lemma frame_prefix:
  "valid h x \<Longrightarrow> prefix h h' \<Longrightarrow> valid h' x \<and> reach h' x = reach h x \<and> view h' x = view h x"
  by (rule frame) (auto intro: same_cells_prefix dest: reach_allocated)

text \<open>
  Independence: whatever is later written to cells that existed before the copy leaves the copy's
  value alone, and whatever is written to the cells the copy allocated leaves the original's.
\<close>

lemma copy_independent:
  assumes "valid h x" and "copy h x = (h', y)" and "same_cells {length h..<length h'} h' h''"
  shows "valid h'' y \<and> view h'' y = view h x"
proof -
  note c = copied [OF assms(1,2)]
  then have "reach h' y \<subseteq> {length h..<length h'}" using reach_allocated [of h' y] by fastforce
  with assms(3) have "same_cells (reach h' y) h' h''" by (rule same_cells_mono)
  with frame [of h' y h''] c show ?thesis by simp
qed

lemma original_independent:
  assumes "valid h x" and "copy h x = (h', y)" and "same_cells {..<length h} h' h''"
  shows "valid h'' x \<and> view h'' x = view h x"
proof -
  note c = copied [OF assms(1,2)]
  with assms(3) have "same_cells {..<length h} h h''"
    by (auto simp: same_cells_def prefix_nth)
  with reach_allocated [OF assms(1)] have "same_cells (reach h x) h h''" by (blast intro: same_cells_mono)
  with frame [OF assms(1)] show ?thesis by blast
qed

end

section \<open>Maps\<close>

text \<open>
  The copy of a map: \<^verbatim>\<open>make(map[K]V, len(*in))\<close>, then one assignment per entry, in the order \<open>iter\<close> in
  which the language visits the entries.
\<close>

definition map_cell_set :: "('c \<Rightarrow> ('k, 'v) gomap) \<Rightarrow> (('k, 'v) gomap \<Rightarrow> 'c) \<Rightarrow> addr \<Rightarrow> 'k \<times> 'v \<Rightarrow> 'c heap \<Rightarrow> 'c heap" where
  "map_cell_set rd wr b kv h = h[b := wr (map_set (fst kv) (snd kv) (rd (h ! b)))]"

definition copy_map ::
  "(('k, 'v) gomap \<Rightarrow> ('k, 'v) gomap) \<Rightarrow> ('c \<Rightarrow> ('k, 'v) gomap) \<Rightarrow> (('k, 'v) gomap \<Rightarrow> 'c) \<Rightarrow> ('c, addr option) copier" where
  "copy_map iter rd wr h p =
     (case p of
        None \<Rightarrow> (h, None)
      | Some a \<Rightarrow>
         (let m = rd (h ! a); b = length h in
          (fold (map_cell_set rd wr b) (iter m) (h @ [wr []]), Some b)))"

definition valid_map :: "('c \<Rightarrow> ('k, 'v) gomap) \<Rightarrow> (('k, 'v) gomap \<Rightarrow> 'c) \<Rightarrow> 'c heap \<Rightarrow> addr option \<Rightarrow> bool" where
  "valid_map rd wr h p \<longleftrightarrow> (case p of None \<Rightarrow> True
     | Some a \<Rightarrow> a < length h \<and> wr (rd (h ! a)) = h ! a \<and> wf_map (rd (h ! a)))"

definition reach_map :: "'c heap \<Rightarrow> addr option \<Rightarrow> addr set" where
  "reach_map h p = set_option p"

definition view_map :: "('c \<Rightarrow> ('k, 'v) gomap) \<Rightarrow> 'c heap \<Rightarrow> addr option \<Rightarrow> ('k \<Rightarrow> 'v option) option" where
  "view_map rd h p = map_option (\<lambda>a. map_of (rd (h ! a))) p"

lemma map_cell_fold:
  assumes "\<And>m. rd (wr m) = m"
  shows "fold (map_cell_set rd wr (length h)) kvs (h @ [wr m]) =
    h @ [wr (fold (\<lambda>(k, v). map_set k v) kvs m)]"
  by (induction kvs arbitrary: m) (simp_all add: map_cell_set_def assms list_update_append split_beta)

locale map_copier =
  fixes iter :: "('k, 'v) gomap \<Rightarrow> ('k, 'v) gomap"
    and rd :: "'c \<Rightarrow> ('k, 'v) gomap" and wr :: "('k, 'v) gomap \<Rightarrow> 'c"
  assumes order: "iterates iter" and rd_wr [simp]: "rd (wr m) = m"

sublocale map_copier \<subseteq> cells: deep_copier "copy_map iter rd wr" "valid_map rd wr" reach_map "view_map rd"
proof
  fix h h' p q
  assume valid: "valid_map rd wr h p" and copy: "copy_map iter rd wr h p = (h', q)"
  show "prefix h h' \<and> valid_map rd wr h' q \<and> view_map rd h' q = view_map rd h p \<and> reach_map h' q \<subseteq> {length h..}"
  proof (cases p)
    case None
    with valid copy show ?thesis by (auto simp: copy_map_def reach_map_def view_map_def)
  next
    case (Some a)
    let ?m = "fold (\<lambda>(k, v). map_set k v) (iter (rd (h ! a))) []"
    have wf: "wf_map (iter (rd (h ! a)))" using Some valid order by (simp add: valid_map_def wf_map_iter)
    then have "map_of ?m = map_of (rd (h ! a))"
      using Some valid order by (simp add: map_of_fold_set map_of_rev_wf map_of_iter valid_map_def)
    moreover have "wf_map ?m" by (rule wf_map_fold_set) simp
    moreover have "h' = h @ [wr ?m]" "q = Some (length h)"
      using Some copy by (auto simp: copy_map_def Let_def map_cell_fold)
    ultimately show ?thesis using Some by (auto simp: valid_map_def view_map_def reach_map_def)
  qed
qed (auto simp: valid_map_def view_map_def reach_map_def same_cells_def split: option.splits)

section \<open>Slices\<close>

text \<open>
  The copy of a slice: \<^verbatim>\<open>make([]T, len(*in))\<close> allocates an array of zero values, then the loop over
  the indices copies the element and writes it to its place in the new array.
\<close>

fun copy_elems ::
  "('c, 'x) copier \<Rightarrow> ('c \<Rightarrow> 'x list) \<Rightarrow> ('x list \<Rightarrow> 'c) \<Rightarrow> slice \<Rightarrow> addr \<Rightarrow> nat list \<Rightarrow> 'c heap \<Rightarrow> 'c heap" where
  "copy_elems copy rd wr s b [] h = h"
| "copy_elems copy rd wr s b (i # is) h =
     (case copy h (rd (h ! sl_array s) ! (sl_off s + i)) of
        (h, y) \<Rightarrow> copy_elems copy rd wr s b is (h[b := wr ((rd (h ! b))[i := y])]))"

definition copy_slice ::
  "('c, 'x) copier \<Rightarrow> ('c \<Rightarrow> 'x list) \<Rightarrow> ('x list \<Rightarrow> 'c) \<Rightarrow> 'x \<Rightarrow> ('c, slice option) copier" where
  "copy_slice copy rd wr zero h p =
     (case p of
        None \<Rightarrow> (h, None)
      | Some s \<Rightarrow>
         (let b = length h in
          (copy_elems copy rd wr s b [0..<sl_len s] (h @ [wr (replicate (sl_len s) zero)]),
           Some \<lparr>sl_array = b, sl_off = 0, sl_len = sl_len s\<rparr>)))"

definition valid_slice ::
  "('c heap \<Rightarrow> 'x \<Rightarrow> bool) \<Rightarrow> ('c \<Rightarrow> 'x list) \<Rightarrow> ('x list \<Rightarrow> 'c) \<Rightarrow> 'c heap \<Rightarrow> slice option \<Rightarrow> bool" where
  "valid_slice valid rd wr h p \<longleftrightarrow> (case p of None \<Rightarrow> True
     | Some s \<Rightarrow> sl_array s < length h \<and> wr (rd (h ! sl_array s)) = h ! sl_array s \<and>
         sl_off s + sl_len s \<le> length (rd (h ! sl_array s)) \<and> list_all (valid h) (slice_elems rd h s))"

definition reach_slice ::
  "('c heap \<Rightarrow> 'x \<Rightarrow> addr set) \<Rightarrow> ('c \<Rightarrow> 'x list) \<Rightarrow> 'c heap \<Rightarrow> slice option \<Rightarrow> addr set" where
  "reach_slice reach rd h p = (case p of None \<Rightarrow> {}
     | Some s \<Rightarrow> insert (sl_array s) (\<Union>x\<in>set (slice_elems rd h s). reach h x))"

definition view_slice ::
  "('c heap \<Rightarrow> 'x \<Rightarrow> 'a) \<Rightarrow> ('c \<Rightarrow> 'x list) \<Rightarrow> 'c heap \<Rightarrow> slice option \<Rightarrow> 'a list option" where
  "view_slice view rd h p = map_option (\<lambda>s. map (view h) (slice_elems rd h s)) p"

lemma length_slice_elems:
  "sl_off s + sl_len s \<le> length (rd (h ! sl_array s)) \<Longrightarrow> length (slice_elems rd h s) = sl_len s"
  by (simp add: slice_elems_def)

lemma nth_slice_elems:
  "i < sl_len s \<Longrightarrow> sl_off s + sl_len s \<le> length (rd (h ! sl_array s)) \<Longrightarrow>
    slice_elems rd h s ! i = rd (h ! sl_array s) ! (sl_off s + i)"
  by (simp add: slice_elems_def)

locale slice_copier = deep_copier copy valid reach view
  for copy :: "('c, 'x) copier" and valid :: "'c heap \<Rightarrow> 'x \<Rightarrow> bool"
    and reach :: "'c heap \<Rightarrow> 'x \<Rightarrow> addr set" and view :: "'c heap \<Rightarrow> 'x \<Rightarrow> 'a" +
  fixes rd :: "'c \<Rightarrow> 'x list" and wr :: "'x list \<Rightarrow> 'c" and zero :: 'x
  assumes rd_wr [simp]: "rd (wr xs) = xs"
begin

text \<open>
  The loop: when the indices below \<open>i\<close> are done, the old heap is untouched and the first \<open>i\<close>
  elements of the new array are copies of those of the slice, apart from the array itself.
\<close>

definition copied_upto :: "'c heap \<Rightarrow> slice \<Rightarrow> addr \<Rightarrow> nat \<Rightarrow> 'c heap \<Rightarrow> bool" where
  "copied_upto h0 s b i h \<longleftrightarrow> prefix h0 h \<and> length h0 \<le> b \<and> b < length h \<and>
     (\<exists>ys. h ! b = wr ys \<and> length ys = sl_len s \<and>
       (\<forall>j<i. valid h (ys ! j) \<and> view h (ys ! j) = view h0 (slice_elems rd h0 s ! j) \<and>
          reach h (ys ! j) \<subseteq> {length h0..} - {b}))"

lemma copied_step:
  assumes valid: "valid_slice valid rd wr h0 (Some s)" and done_i: "copied_upto h0 s b i h" and i: "i < sl_len s"
    and step: "copy h (rd (h ! sl_array s) ! (sl_off s + i)) = (h1, y)"
  shows "copied_upto h0 s b (Suc i) (h1[b := wr ((rd (h1 ! b))[i := y])])"
proof -
  let ?x = "slice_elems rd h0 s ! i"
  from done_i obtain ys where h: "prefix h0 h" "length h0 \<le> b" "b < length h"
    and ys: "h ! b = wr ys" "length ys = sl_len s"
    and before: "\<And>j. j < i \<Longrightarrow> valid h (ys ! j) \<and> view h (ys ! j) = view h0 (slice_elems rd h0 s ! j) \<and>
      reach h (ys ! j) \<subseteq> {length h0..} - {b}"
    by (auto simp: copied_upto_def)
  from valid i have x0: "valid h0 ?x" and x: "rd (h ! sl_array s) ! (sl_off s + i) = ?x"
    by (auto simp: valid_slice_def list_all_length length_slice_elems nth_slice_elems prefix_nth [OF h(1)])
  note old = frame_prefix [OF x0 h(1)]
  from step x old have c: "prefix h h1" "valid h1 y" "view h1 y = view h0 ?x" "reach h1 y \<subseteq> {length h..}"
    using copied [of h ?x h1 y] by auto
  let ?ys = "ys[i := y]" and ?h = "h1[b := wr ((rd (h1 ! b))[i := y])]"
  from c(1) h(3) have b1: "b < length h1" "h1 ! b = wr ys" using ys prefix_length_le [of h h1]
    by (auto simp: prefix_nth)
  have "b \<notin> reach h1 y" using c(4) h(3) by auto
  with frame [OF c(2)] have y: "valid ?h y \<and> reach ?h y = reach h1 y \<and> view ?h y = view h1 y"
    using same_cells_update [OF same_cells_prefix [of h1 h1]] reach_allocated [OF c(2)] by simp
  have z: "valid ?h (ys ! j) \<and> view ?h (ys ! j) = view h0 (slice_elems rd h0 s ! j) \<and>
      reach ?h (ys ! j) \<subseteq> {length h0..} - {b}" if "j < i" for j
  proof -
    have "same_cells (reach h (ys ! j)) h ?h"
      using before [OF that] same_cells_prefix [OF c(1)] reach_allocated [of h "ys ! j"]
      by (intro same_cells_update) auto
    with before [OF that] frame [of h "ys ! j" ?h] show ?thesis by simp
  qed
  have "\<forall>j<Suc i. valid ?h (?ys ! j) \<and> view ?h (?ys ! j) = view h0 (slice_elems rd h0 s ! j) \<and>
      reach ?h (?ys ! j) \<subseteq> {length h0..} - {b}"
    using y z c h ys i by (auto simp: less_Suc_eq)
  moreover have "prefix h0 ?h" using h(1,2) c(1) by (blast intro: prefix_update prefix_order.trans)
  ultimately show ?thesis using h(2) b1 ys unfolding copied_upto_def by (auto intro!: exI [of _ ?ys])
qed

lemma copied_loop:
  assumes valid: "valid_slice valid rd wr h0 (Some s)"
  shows "i \<le> sl_len s \<Longrightarrow> copied_upto h0 s b i h \<Longrightarrow>
    copied_upto h0 s b (sl_len s) (copy_elems copy rd wr s b [i..<sl_len s] h)"
proof (induction "sl_len s - i" arbitrary: i h)
  case (Suc d)
  then have "[i..<sl_len s] = i # [Suc i..<sl_len s]" by (simp add: upt_conv_Cons)
  with Suc copied_step [OF valid] show ?case by (simp split: prod.split)
qed simp

end

sublocale slice_copier \<subseteq> elems: deep_copier "copy_slice copy rd wr zero" "valid_slice valid rd wr"
  "reach_slice reach rd" "view_slice view rd"
proof
  fix h h' :: "'c heap" and p
  assume valid: "valid_slice valid rd wr h p"
  show "reach_slice reach rd h p \<subseteq> {..<length h}"
    using valid reach_allocated [of h] by (fastforce simp: valid_slice_def reach_slice_def list_all_iff split: option.splits)
  assume same: "same_cells (reach_slice reach rd h p) h h'"
  show "valid_slice valid rd wr h' p \<and> reach_slice reach rd h' p = reach_slice reach rd h p \<and>
    view_slice view rd h' p = view_slice view rd h p"
  proof (cases p)
    case (Some s)
    with same have arr: "sl_array s < length h'" "h' ! sl_array s = h ! sl_array s"
      and below: "\<And>x. x \<in> set (slice_elems rd h s) \<Longrightarrow> same_cells (reach h x) h h'"
      by (auto simp: reach_slice_def same_cells_def)
    then have el: "slice_elems rd h' s = slice_elems rd h s" by (simp add: slice_elems_def)
    have each: "valid h' x \<and> reach h' x = reach h x \<and> view h' x = view h x" if "x \<in> set (slice_elems rd h s)" for x
      using valid Some that below [OF that] frame [of h x h'] by (simp add: valid_slice_def list_all_iff)
    then have "map (view h') (slice_elems rd h s) = map (view h) (slice_elems rd h s)"
      "(\<Union>x\<in>set (slice_elems rd h s). reach h' x) = (\<Union>x\<in>set (slice_elems rd h s). reach h x)"
      "list_all (valid h') (slice_elems rd h s)" by (simp_all add: list_all_iff)
    with valid Some arr show ?thesis
      by (simp add: valid_slice_def reach_slice_def view_slice_def el del: map_eq_conv)
  qed (simp add: valid_slice_def reach_slice_def view_slice_def)
next
  fix h h' :: "'c heap" and p q
  assume valid: "valid_slice valid rd wr h p" and copy: "copy_slice copy rd wr zero h p = (h', q)"
  show "prefix h h' \<and> valid_slice valid rd wr h' q \<and> view_slice view rd h' q = view_slice view rd h p \<and>
    reach_slice reach rd h' q \<subseteq> {length h..}"
  proof (cases p)
    case None
    with valid copy show ?thesis by (auto simp: copy_slice_def reach_slice_def view_slice_def)
  next
    case (Some s)
    have "copied_upto h s (length h) 0 (h @ [wr (replicate (sl_len s) zero)])"
      by (auto simp: copied_upto_def)
    from copied_loop [OF valid [unfolded Some] _ this] copy Some
    have "copied_upto h s (length h) (sl_len s) h'" and q: "q = Some \<lparr>sl_array = length h, sl_off = 0, sl_len = sl_len s\<rparr>"
      by (auto simp: copy_slice_def Let_def)
    then obtain ys where pre: "prefix h h'" "length h < length h'" and ys: "h' ! length h = wr ys" "length ys = sl_len s"
      and each: "\<And>j. j < sl_len s \<Longrightarrow> valid h' (ys ! j) \<and> view h' (ys ! j) = view h (slice_elems rd h s ! j) \<and>
        reach h' (ys ! j) \<subseteq> {length h..} - {length h}"
      by (auto simp: copied_upto_def)
    from ys have el: "slice_elems rd h' \<lparr>sl_array = length h, sl_off = 0, sl_len = sl_len s\<rparr> = ys"
      by (simp add: slice_elems_def)
    have "map (view h') ys = map (view h) (slice_elems rd h s)"
      using each ys valid Some by (auto intro!: nth_equalityI simp: valid_slice_def length_slice_elems)
    moreover have "\<forall>y\<in>set ys. valid h' y \<and> reach h' y \<subseteq> {length h..}"
      using each ys by (auto simp: in_set_conv_nth) blast
    ultimately show ?thesis using q el pre ys Some
      by (auto simp: valid_slice_def view_slice_def reach_slice_def list_all_iff)
  qed
qed

section \<open>Pointers\<close>

text \<open>
  \<^verbatim>\<open>DeepCopy\<close> on a pointer: nil for nil, and otherwise \<^verbatim>\<open>out := new(T); in.DeepCopyInto(out)\<close>.
\<close>

definition new_copy ::
  "('c, 'x) copier \<Rightarrow> ('c \<Rightarrow> 'x) \<Rightarrow> ('x \<Rightarrow> 'c) \<Rightarrow> 'x \<Rightarrow> ('c, addr option) copier" where
  "new_copy copy rd wr zero h p =
     (case p of
        None \<Rightarrow> (h, None)
      | Some a \<Rightarrow>
         (let b = length h in
          case copy (h @ [wr zero]) (rd (h ! a)) of (h, y) \<Rightarrow> (h[b := wr y], Some b)))"

definition valid_ptr ::
  "('c heap \<Rightarrow> 'x \<Rightarrow> bool) \<Rightarrow> ('c \<Rightarrow> 'x) \<Rightarrow> ('x \<Rightarrow> 'c) \<Rightarrow> 'c heap \<Rightarrow> addr option \<Rightarrow> bool" where
  "valid_ptr valid rd wr h p \<longleftrightarrow> (case p of None \<Rightarrow> True
     | Some a \<Rightarrow> a < length h \<and> wr (rd (h ! a)) = h ! a \<and> valid h (rd (h ! a)))"

definition reach_ptr :: "('c heap \<Rightarrow> 'x \<Rightarrow> addr set) \<Rightarrow> ('c \<Rightarrow> 'x) \<Rightarrow> 'c heap \<Rightarrow> addr option \<Rightarrow> addr set" where
  "reach_ptr reach rd h p = (case p of None \<Rightarrow> {} | Some a \<Rightarrow> insert a (reach h (rd (h ! a))))"

definition view_ptr :: "('c heap \<Rightarrow> 'x \<Rightarrow> 'a) \<Rightarrow> ('c \<Rightarrow> 'x) \<Rightarrow> 'c heap \<Rightarrow> addr option \<Rightarrow> 'a option" where
  "view_ptr view rd h p = map_option (\<lambda>a. view h (rd (h ! a))) p"

locale pointer_copier = deep_copier copy valid reach view
  for copy :: "('c, 'x) copier" and valid :: "'c heap \<Rightarrow> 'x \<Rightarrow> bool"
    and reach :: "'c heap \<Rightarrow> 'x \<Rightarrow> addr set" and view :: "'c heap \<Rightarrow> 'x \<Rightarrow> 'a" +
  fixes rd :: "'c \<Rightarrow> 'x" and wr :: "'x \<Rightarrow> 'c" and zero :: 'x
  assumes rd_wr [simp]: "rd (wr x) = x"

sublocale pointer_copier \<subseteq> ptr: deep_copier "new_copy copy rd wr zero" "valid_ptr valid rd wr"
  "reach_ptr reach rd" "view_ptr view rd"
proof
  fix h h' :: "'c heap" and p
  assume valid: "valid_ptr valid rd wr h p"
  show "reach_ptr reach rd h p \<subseteq> {..<length h}"
    using valid reach_allocated [of h] by (auto simp: valid_ptr_def reach_ptr_def split: option.splits)
  assume "same_cells (reach_ptr reach rd h p) h h'"
  with valid show "valid_ptr valid rd wr h' p \<and> reach_ptr reach rd h' p = reach_ptr reach rd h p \<and>
    view_ptr view rd h' p = view_ptr view rd h p"
    using frame [of h _ h']
    by (auto simp: valid_ptr_def reach_ptr_def view_ptr_def same_cells_def split: option.splits)
next
  fix h h' :: "'c heap" and p q
  assume valid: "valid_ptr valid rd wr h p" and copy: "new_copy copy rd wr zero h p = (h', q)"
  show "prefix h h' \<and> valid_ptr valid rd wr h' q \<and> view_ptr view rd h' q = view_ptr view rd h p \<and>
    reach_ptr reach rd h' q \<subseteq> {length h..}"
  proof (cases p)
    case None
    with valid copy show ?thesis by (auto simp: new_copy_def reach_ptr_def view_ptr_def)
  next
    case (Some a)
    let ?x = "rd (h ! a)"
    obtain h1 y where step: "copy (h @ [wr zero]) ?x = (h1, y)" by (cases "copy (h @ [wr zero]) ?x")
    with copy Some have h': "h' = h1[length h := wr y]" and q: "q = Some (length h)"
      by (auto simp: new_copy_def Let_def)
    from Some valid have x: "valid h ?x" by (simp add: valid_ptr_def)
    note old = frame_prefix [OF x, of "h @ [wr zero]"]
    with copied [OF _ step] have c: "prefix (h @ [wr zero]) h1" "valid h1 y" "view h1 y = view h ?x"
      "reach h1 y \<subseteq> {Suc (length h)..}" by auto
    then have "length h \<notin> reach h1 y" and len: "length h < length h1"
      using prefix_length_le [of "h @ [wr zero]" h1] by auto
    then have "same_cells (reach h1 y) h1 h'"
      unfolding h' using reach_allocated [OF c(2)] by (intro same_cells_update same_cells_prefix) auto
    with frame [OF c(2)] have "valid h' y \<and> reach h' y = reach h1 y \<and> view h' y = view h1 y" by blast
    moreover have "prefix h h1" using c(1) append_prefixD by blast
    ultimately show ?thesis using c(3,4) len Some q
      by (auto simp: h' valid_ptr_def view_ptr_def reach_ptr_def prefix_update)
  qed
qed

context pointer_copier
begin

text \<open>The pointer a copy returns: nil for nil, otherwise a new cell with the struct's copy.\<close>

lemma new_copy_pointer:
  assumes "valid_ptr valid rd wr h p" and "new_copy copy rd wr zero h p = (h', q)"
  shows "case p of None \<Rightarrow> q = None \<and> h' = h
    | Some a \<Rightarrow> \<exists>b\<ge>length h. q = Some b \<and> prefix h h' \<and> valid_ptr valid rd wr h' q \<and>
        view h' (rd (h' ! b)) = view h (rd (h ! a)) \<and> reach_ptr reach rd h' q \<subseteq> {length h..}"
  using ptr.copied [OF assms] assms(2)
  by (auto simp: new_copy_def view_ptr_def Let_def split: option.splits prod.splits)

end

end
