(* ===== verification/Deep_Copy.thy ===== *)
theory Deep_Copy
  imports Go_Memory
begin

text \<open>
  The generated deep copies of the API types (api/v1alpha1/zz_generated.deepcopy.go), on the memory of
  Go_Memory. A \<^verbatim>\<open>DeepCopyInto\<close> takes the heap and the struct \<^verbatim>\<open>*in\<close> and gives the heap and the struct
  it leaves in \<^verbatim>\<open>*out\<close> (which its first statement overwrites as a whole); a \<^verbatim>\<open>DeepCopy\<close> takes and gives a
  pointer. Structs of other packages are opaque values of type \<open>'v\<close> over cells of type \<open>'f\<close>, and
  their \<^verbatim>\<open>DeepCopyInto\<close> routines are arguments.
\<close>

section \<open>The structs in memory\<close>

record 'v controller_struct =
  cs_Name :: string
  cs_Resources :: 'v

record spec_struct =
  ss_AppNamespace :: string
  ss_FeatureGates :: "addr option"
  ss_Controllers :: "slice option"

record 'v status_struct =
  st_Status :: 'v
  st_ComponentReleaseStatus :: 'v

record type_meta =
  tm_Kind :: string
  tm_APIVersion :: string

record 'v trainer_struct =
  ts_TypeMeta :: type_meta
  ts_ObjectMeta :: 'v
  ts_Spec :: spec_struct
  ts_Status :: "'v status_struct"

record 'v list_struct =
  ls_TypeMeta :: type_meta
  ls_ListMeta :: 'v
  ls_Items :: "slice option"

datatype ('v, 'f) cell =
    Gates (gates_of: "(string, bool) gomap")
  | Controller_array (controllers_of: "'v controller_struct list")
  | Trainer_array (trainers_of: "'v trainer_struct list")
  | Controller_cell (controller_of: "'v controller_struct")
  | Spec_cell (spec_of: spec_struct)
  | Status_cell (status_of: "'v status_struct")
  | Trainer_cell (trainer_of: "'v trainer_struct")
  | List_cell (list_of: "'v list_struct")
  | Foreign_cell 'f

text \<open>The routines of other packages, and the zero values of their structs.\<close>

record ('v, 'f) foreign =
  ResourceRequirements_copy :: "(('v, 'f) cell, 'v) copier"
  ObjectMeta_copy :: "(('v, 'f) cell, 'v) copier"
  ListMeta_copy :: "(('v, 'f) cell, 'v) copier"
  Status_copy :: "(('v, 'f) cell, 'v) copier"
  ReleaseStatus_copy :: "(('v, 'f) cell, 'v) copier"
  ResourceRequirements_zero :: 'v
  ObjectMeta_zero :: 'v
  ListMeta_zero :: 'v
  Status_zero :: 'v
  ReleaseStatus_zero :: 'v

definition zero_controller :: "('v, 'f) foreign \<Rightarrow> 'v controller_struct" where
  "zero_controller F = \<lparr>cs_Name = [], cs_Resources = ResourceRequirements_zero F\<rparr>"

definition zero_spec :: spec_struct where
  "zero_spec = \<lparr>ss_AppNamespace = [], ss_FeatureGates = None, ss_Controllers = None\<rparr>"

definition zero_status :: "('v, 'f) foreign \<Rightarrow> 'v status_struct" where
  "zero_status F = \<lparr>st_Status = Status_zero F, st_ComponentReleaseStatus = ReleaseStatus_zero F\<rparr>"

definition zero_trainer :: "('v, 'f) foreign \<Rightarrow> 'v trainer_struct" where
  "zero_trainer F = \<lparr>ts_TypeMeta = \<lparr>tm_Kind = [], tm_APIVersion = []\<rparr>, ts_ObjectMeta = ObjectMeta_zero F,
     ts_Spec = zero_spec, ts_Status = zero_status F\<rparr>"

definition zero_list :: "('v, 'f) foreign \<Rightarrow> 'v list_struct" where
  "zero_list F = \<lparr>ls_TypeMeta = \<lparr>tm_Kind = [], tm_APIVersion = []\<rparr>, ls_ListMeta = ListMeta_zero F, ls_Items = None\<rparr>"

section \<open>The routines\<close>

definition ControllerResources_DeepCopyInto ::
  "('v, 'f) foreign \<Rightarrow> (('v, 'f) cell, 'v controller_struct) copier" where
  "ControllerResources_DeepCopyInto F h inp =
     (let out = inp in
      case ResourceRequirements_copy F h (cs_Resources inp) of (h, r) \<Rightarrow> (h, out\<lparr>cs_Resources := r\<rparr>))"

definition TrainerSpec_DeepCopyInto ::
  "((string, bool) gomap \<Rightarrow> (string, bool) gomap) \<Rightarrow> ('v, 'f) foreign \<Rightarrow> (('v, 'f) cell, spec_struct) copier" where
  "TrainerSpec_DeepCopyInto iter F h inp =
     (let out = inp in
      case copy_map iter gates_of Gates h (ss_FeatureGates inp) of
        (h, gates) \<Rightarrow>
      (let out = out\<lparr>ss_FeatureGates := gates\<rparr> in
      case copy_slice (ControllerResources_DeepCopyInto F) controllers_of Controller_array (zero_controller F)
          h (ss_Controllers inp) of
        (h, controllers) \<Rightarrow> (h, out\<lparr>ss_Controllers := controllers\<rparr>)))"

definition TrainerStatus_DeepCopyInto ::
  "('v, 'f) foreign \<Rightarrow> (('v, 'f) cell, 'v status_struct) copier" where
  "TrainerStatus_DeepCopyInto F h inp =
     (let out = inp in
      case Status_copy F h (st_Status inp) of
        (h, s) \<Rightarrow>
      (let out = out\<lparr>st_Status := s\<rparr> in
      case ReleaseStatus_copy F h (st_ComponentReleaseStatus inp) of
        (h, r) \<Rightarrow> (h, out\<lparr>st_ComponentReleaseStatus := r\<rparr>)))"

definition Trainer_DeepCopyInto ::
  "((string, bool) gomap \<Rightarrow> (string, bool) gomap) \<Rightarrow> ('v, 'f) foreign \<Rightarrow> (('v, 'f) cell, 'v trainer_struct) copier" where
  "Trainer_DeepCopyInto iter F h inp =
     (let out = inp; out = out\<lparr>ts_TypeMeta := ts_TypeMeta inp\<rparr> in
      case ObjectMeta_copy F h (ts_ObjectMeta inp) of
        (h, m) \<Rightarrow>
      (let out = out\<lparr>ts_ObjectMeta := m\<rparr> in
      case TrainerSpec_DeepCopyInto iter F h (ts_Spec inp) of
        (h, s) \<Rightarrow>
      (let out = out\<lparr>ts_Spec := s\<rparr> in
      case TrainerStatus_DeepCopyInto F h (ts_Status inp) of
        (h, st) \<Rightarrow> (h, out\<lparr>ts_Status := st\<rparr>))))"

definition TrainerList_DeepCopyInto ::
  "((string, bool) gomap \<Rightarrow> (string, bool) gomap) \<Rightarrow> ('v, 'f) foreign \<Rightarrow> (('v, 'f) cell, 'v list_struct) copier" where
  "TrainerList_DeepCopyInto iter F h inp =
     (let out = inp; out = out\<lparr>ls_TypeMeta := ls_TypeMeta inp\<rparr> in
      case ListMeta_copy F h (ls_ListMeta inp) of
        (h, m) \<Rightarrow>
      (let out = out\<lparr>ls_ListMeta := m\<rparr> in
      case copy_slice (Trainer_DeepCopyInto iter F) trainers_of Trainer_array (zero_trainer F) h (ls_Items inp) of
        (h, items) \<Rightarrow> (h, out\<lparr>ls_Items := items\<rparr>)))"

definition ControllerResources_DeepCopy :: "('v, 'f) foreign \<Rightarrow> (('v, 'f) cell, addr option) copier" where
  "ControllerResources_DeepCopy F =
     new_copy (ControllerResources_DeepCopyInto F) controller_of Controller_cell (zero_controller F)"

definition TrainerSpec_DeepCopy ::
  "((string, bool) gomap \<Rightarrow> (string, bool) gomap) \<Rightarrow> ('v, 'f) foreign \<Rightarrow> (('v, 'f) cell, addr option) copier" where
  "TrainerSpec_DeepCopy iter F = new_copy (TrainerSpec_DeepCopyInto iter F) spec_of Spec_cell zero_spec"

definition TrainerStatus_DeepCopy :: "('v, 'f) foreign \<Rightarrow> (('v, 'f) cell, addr option) copier" where
  "TrainerStatus_DeepCopy F = new_copy (TrainerStatus_DeepCopyInto F) status_of Status_cell (zero_status F)"

definition Trainer_DeepCopy ::
  "((string, bool) gomap \<Rightarrow> (string, bool) gomap) \<Rightarrow> ('v, 'f) foreign \<Rightarrow> (('v, 'f) cell, addr option) copier" where
  "Trainer_DeepCopy iter F = new_copy (Trainer_DeepCopyInto iter F) trainer_of Trainer_cell (zero_trainer F)"

definition TrainerList_DeepCopy ::
  "((string, bool) gomap \<Rightarrow> (string, bool) gomap) \<Rightarrow> ('v, 'f) foreign \<Rightarrow> (('v, 'f) cell, addr option) copier" where
  "TrainerList_DeepCopy iter F = new_copy (TrainerList_DeepCopyInto iter F) list_of List_cell (zero_list F)"

text \<open>
  A \<^verbatim>\<open>runtime.Object\<close>: a pointer with its dynamic type, or the nil interface. \<^verbatim>\<open>DeepCopyObject\<close> turns a
  nil pointer into the nil interface, never into an interface that holds a nil pointer.
\<close>

datatype runtime_object = Trainer_object "addr option" | TrainerList_object "addr option"

definition Trainer_DeepCopyObject ::
  "((string, bool) gomap \<Rightarrow> (string, bool) gomap) \<Rightarrow> ('v, 'f) foreign \<Rightarrow> ('v, 'f) cell heap \<Rightarrow> addr option \<Rightarrow>
    ('v, 'f) cell heap \<times> runtime_object option" where
  "Trainer_DeepCopyObject iter F h p =
     (case Trainer_DeepCopy iter F h p of
        (h, c) \<Rightarrow> (h, if c \<noteq> None then Some (Trainer_object c) else None))"

definition TrainerList_DeepCopyObject ::
  "((string, bool) gomap \<Rightarrow> (string, bool) gomap) \<Rightarrow> ('v, 'f) foreign \<Rightarrow> ('v, 'f) cell heap \<Rightarrow> addr option \<Rightarrow>
    ('v, 'f) cell heap \<times> runtime_object option" where
  "TrainerList_DeepCopyObject iter F h p =
     (case TrainerList_DeepCopy iter F h p of
        (h, c) \<Rightarrow> (h, if c \<noteq> None then Some (TrainerList_object c) else None))"

section \<open>What the values mean\<close>

text \<open>
  For a struct of another package: when it is valid, the cells it consists of and the value it
  stands for. The same three notions for the structs of this package are built from them.
\<close>

record ('v, 'f, 'a) meaning =
  m_valid :: "('v, 'f) cell heap \<Rightarrow> 'v \<Rightarrow> bool"
  m_reach :: "('v, 'f) cell heap \<Rightarrow> 'v \<Rightarrow> addr set"
  m_view :: "('v, 'f) cell heap \<Rightarrow> 'v \<Rightarrow> 'a"

record ('v, 'f, 'a) meanings =
  requirements :: "('v, 'f, 'a) meaning"
  objectMeta :: "('v, 'f, 'a) meaning"
  listMeta :: "('v, 'f, 'a) meaning"
  commonStatus :: "('v, 'f, 'a) meaning"
  releaseStatus :: "('v, 'f, 'a) meaning"

definition valid_controller :: "('v, 'f, 'a) meanings \<Rightarrow> ('v, 'f) cell heap \<Rightarrow> 'v controller_struct \<Rightarrow> bool" where
  "valid_controller M h c = m_valid (requirements M) h (cs_Resources c)"

definition reach_controller :: "('v, 'f, 'a) meanings \<Rightarrow> ('v, 'f) cell heap \<Rightarrow> 'v controller_struct \<Rightarrow> addr set" where
  "reach_controller M h c = m_reach (requirements M) h (cs_Resources c)"

definition view_controller :: "('v, 'f, 'a) meanings \<Rightarrow> ('v, 'f) cell heap \<Rightarrow> 'v controller_struct \<Rightarrow> string \<times> 'a" where
  "view_controller M h c = (cs_Name c, m_view (requirements M) h (cs_Resources c))"

definition valid_spec :: "('v, 'f, 'a) meanings \<Rightarrow> ('v, 'f) cell heap \<Rightarrow> spec_struct \<Rightarrow> bool" where
  "valid_spec M h s \<longleftrightarrow> valid_map gates_of Gates h (ss_FeatureGates s) \<and>
     valid_slice (valid_controller M) controllers_of Controller_array h (ss_Controllers s)"

definition reach_spec :: "('v, 'f, 'a) meanings \<Rightarrow> ('v, 'f) cell heap \<Rightarrow> spec_struct \<Rightarrow> addr set" where
  "reach_spec M h s = reach_map h (ss_FeatureGates s) \<union>
     reach_slice (reach_controller M) controllers_of h (ss_Controllers s)"

definition view_spec :: "('v, 'f, 'a) meanings \<Rightarrow> ('v, 'f) cell heap \<Rightarrow> spec_struct \<Rightarrow>
    string \<times> (string \<Rightarrow> bool option) option \<times> (string \<times> 'a) list option" where
  "view_spec M h s = (ss_AppNamespace s, view_map gates_of h (ss_FeatureGates s),
     view_slice (view_controller M) controllers_of h (ss_Controllers s))"

definition valid_status :: "('v, 'f, 'a) meanings \<Rightarrow> ('v, 'f) cell heap \<Rightarrow> 'v status_struct \<Rightarrow> bool" where
  "valid_status M h s \<longleftrightarrow> m_valid (commonStatus M) h (st_Status s) \<and>
     m_valid (releaseStatus M) h (st_ComponentReleaseStatus s)"

definition reach_status :: "('v, 'f, 'a) meanings \<Rightarrow> ('v, 'f) cell heap \<Rightarrow> 'v status_struct \<Rightarrow> addr set" where
  "reach_status M h s = m_reach (commonStatus M) h (st_Status s) \<union>
     m_reach (releaseStatus M) h (st_ComponentReleaseStatus s)"

definition view_status :: "('v, 'f, 'a) meanings \<Rightarrow> ('v, 'f) cell heap \<Rightarrow> 'v status_struct \<Rightarrow> 'a \<times> 'a" where
  "view_status M h s = (m_view (commonStatus M) h (st_Status s),
     m_view (releaseStatus M) h (st_ComponentReleaseStatus s))"

definition valid_trainer :: "('v, 'f, 'a) meanings \<Rightarrow> ('v, 'f) cell heap \<Rightarrow> 'v trainer_struct \<Rightarrow> bool" where
  "valid_trainer M h t \<longleftrightarrow> m_valid (objectMeta M) h (ts_ObjectMeta t) \<and> valid_spec M h (ts_Spec t) \<and>
     valid_status M h (ts_Status t)"

definition reach_trainer :: "('v, 'f, 'a) meanings \<Rightarrow> ('v, 'f) cell heap \<Rightarrow> 'v trainer_struct \<Rightarrow> addr set" where
  "reach_trainer M h t = m_reach (objectMeta M) h (ts_ObjectMeta t) \<union> (reach_spec M h (ts_Spec t) \<union>
     reach_status M h (ts_Status t))"

definition view_trainer :: "('v, 'f, 'a) meanings \<Rightarrow> ('v, 'f) cell heap \<Rightarrow> 'v trainer_struct \<Rightarrow>
    type_meta \<times> 'a \<times> (string \<times> (string \<Rightarrow> bool option) option \<times> (string \<times> 'a) list option) \<times> 'a \<times> 'a" where
  "view_trainer M h t = (ts_TypeMeta t, m_view (objectMeta M) h (ts_ObjectMeta t), view_spec M h (ts_Spec t),
     view_status M h (ts_Status t))"

definition valid_list :: "('v, 'f, 'a) meanings \<Rightarrow> ('v, 'f) cell heap \<Rightarrow> 'v list_struct \<Rightarrow> bool" where
  "valid_list M h l \<longleftrightarrow> m_valid (listMeta M) h (ls_ListMeta l) \<and>
     valid_slice (valid_trainer M) trainers_of Trainer_array h (ls_Items l)"

definition reach_list :: "('v, 'f, 'a) meanings \<Rightarrow> ('v, 'f) cell heap \<Rightarrow> 'v list_struct \<Rightarrow> addr set" where
  "reach_list M h l = m_reach (listMeta M) h (ls_ListMeta l) \<union>
     reach_slice (reach_trainer M) trainers_of h (ls_Items l)"

definition view_list :: "('v, 'f, 'a) meanings \<Rightarrow> ('v, 'f) cell heap \<Rightarrow> 'v list_struct \<Rightarrow>
    type_meta \<times> 'a \<times> (type_meta \<times> 'a \<times>
      (string \<times> (string \<Rightarrow> bool option) option \<times> (string \<times> 'a) list option) \<times> 'a \<times> 'a) list option" where
  "view_list M h l = (ls_TypeMeta l, m_view (listMeta M) h (ls_ListMeta l),
     view_slice (view_trainer M) trainers_of h (ls_Items l))"

section \<open>Every routine is a deep copy\<close>

text \<open>
  Two values copied one after the other, and a struct whose routine copies the fields \<open>get\<close> selects
  and keeps the \<open>rest\<close>.
\<close>

definition copy_pair :: "('c, 'x) copier \<Rightarrow> ('c, 'y) copier \<Rightarrow> ('c, 'x \<times> 'y) copier" where
  "copy_pair c1 c2 h p = (case c1 h (fst p) of (h1, x) \<Rightarrow> case c2 h1 (snd p) of (h2, y) \<Rightarrow> (h2, (x, y)))"

lemma pair_deep_copier:
  assumes d1: "deep_copier c1 v1 r1 w1" and d2: "deep_copier c2 v2 r2 w2"
  shows "deep_copier (copy_pair c1 c2) (\<lambda>h p. v1 h (fst p) \<and> v2 h (snd p))
    (\<lambda>h p. r1 h (fst p) \<union> r2 h (snd p)) (\<lambda>h p. (w1 h (fst p), w2 h (snd p)))"
proof
  fix h h' p q
  assume v: "v1 h (fst p) \<and> v2 h (snd p)"
  show "r1 h (fst p) \<union> r2 h (snd p) \<subseteq> {..<length h}"
    using v deep_copier.reach_allocated [OF d1] deep_copier.reach_allocated [OF d2] by blast
  show "(v1 h' (fst p) \<and> v2 h' (snd p)) \<and> r1 h' (fst p) \<union> r2 h' (snd p) = r1 h (fst p) \<union> r2 h (snd p) \<and>
      (w1 h' (fst p), w2 h' (snd p)) = (w1 h (fst p), w2 h (snd p))"
    if "same_cells (r1 h (fst p) \<union> r2 h (snd p)) h h'"
    using v deep_copier.frame [OF d1, of h "fst p" h'] deep_copier.frame [OF d2, of h "snd p" h']
      same_cells_mono [OF that] by simp
  assume "copy_pair c1 c2 h p = (h', q)"
  then obtain h1 where c: "c1 h (fst p) = (h1, fst q)" "c2 h1 (snd p) = (h', snd q)"
    by (auto simp: copy_pair_def split: prod.splits)
  note c1 = deep_copier.copied [OF d1 conjunct1 [OF v] c(1)]
  note y = deep_copier.frame_prefix [OF d2 conjunct2 [OF v] conjunct1 [OF c1]]
  note c2 = deep_copier.copied [OF d2 conjunct1 [OF y] c(2)]
  have "length h \<le> length h1" using c1 by (simp add: prefix_length_le)
  then have "r2 h' (snd q) \<subseteq> {length h..}" using c2 by fastforce
  moreover have "v1 h' (fst q) \<and> r1 h' (fst q) = r1 h1 (fst q) \<and> w1 h' (fst q) = w1 h1 (fst q)"
    using deep_copier.frame_prefix [OF d1, of h1 "fst q" h'] c1 c2 by blast
  moreover have "prefix h h'" using c1 c2 by (blast intro: prefix_order.trans)
  ultimately show "prefix h h' \<and> (v1 h' (fst q) \<and> v2 h' (snd q)) \<and>
      (w1 h' (fst q), w2 h' (snd q)) = (w1 h (fst p), w2 h (snd p)) \<and> r1 h' (fst q) \<union> r2 h' (snd q) \<subseteq> {length h..}"
    using c1 c2 y by simp
qed

lemma struct_deep_copier:
  assumes d: "deep_copier c v r w"
    and "\<And>h s. valid h s = v h (get s)" "\<And>h s. reach h s = r h (get s)" "\<And>h s. view h s = g (rest s) (w h (get s))"
    and "\<And>h s h' s'. copy h s = (h', s') \<Longrightarrow> c h (get s) = (h', get s') \<and> rest s' = rest s"
  shows "deep_copier copy valid reach view"
proof
  fix h h' s s'
  assume v: "valid h s"
  show "reach h s \<subseteq> {..<length h}"
    using deep_copier.reach_allocated [OF d, of h "get s"] v by (simp add: assms(2-4))
  show "valid h' s \<and> reach h' s = reach h s \<and> view h' s = view h s" if "same_cells (reach h s) h h'"
    using deep_copier.frame [OF d, of h "get s" h'] v that by (simp add: assms(2-4))
  show "prefix h h' \<and> valid h' s' \<and> view h' s' = view h s \<and> reach h' s' \<subseteq> {length h..}" if "copy h s = (h', s')"
    using deep_copier.copied [OF d, of h "get s"] v assms(5) [OF that] by (simp add: assms(2-4))
qed

text \<open>
  The routines of other packages are deep copies, and a range over a map visits every entry once.
  From this every routine of this package is a deep copy.
\<close>

locale foreign_copiers =
  fixes iter :: "(string, bool) gomap \<Rightarrow> (string, bool) gomap"
    and F :: "('v, 'f) foreign" and M :: "('v, 'f, 'a) meanings"
  assumes order: "iterates iter"
    and requirements_copy: "deep_copier (ResourceRequirements_copy F) (m_valid (requirements M))
      (m_reach (requirements M)) (m_view (requirements M))"
    and objectMeta_copy: "deep_copier (ObjectMeta_copy F) (m_valid (objectMeta M))
      (m_reach (objectMeta M)) (m_view (objectMeta M))"
    and listMeta_copy: "deep_copier (ListMeta_copy F) (m_valid (listMeta M))
      (m_reach (listMeta M)) (m_view (listMeta M))"
    and commonStatus_copy: "deep_copier (Status_copy F) (m_valid (commonStatus M))
      (m_reach (commonStatus M)) (m_view (commonStatus M))"
    and releaseStatus_copy: "deep_copier (ReleaseStatus_copy F) (m_valid (releaseStatus M))
      (m_reach (releaseStatus M)) (m_view (releaseStatus M))"

sublocale foreign_copiers \<subseteq> controller: deep_copier "ControllerResources_DeepCopyInto F" "valid_controller M"
  "reach_controller M" "view_controller M"
  by (rule struct_deep_copier [OF requirements_copy, where get = cs_Resources and rest = cs_Name and g = Pair])
    (auto simp: ControllerResources_DeepCopyInto_def valid_controller_def reach_controller_def
      view_controller_def Let_def split: prod.splits)

sublocale foreign_copiers \<subseteq> controllers: slice_copier "ControllerResources_DeepCopyInto F" "valid_controller M"
  "reach_controller M" "view_controller M" controllers_of Controller_array "zero_controller F"
  by unfold_locales simp

sublocale foreign_copiers \<subseteq> gates: map_copier iter gates_of Gates
  by unfold_locales (simp_all add: order)

sublocale foreign_copiers \<subseteq> spec: deep_copier "TrainerSpec_DeepCopyInto iter F" "valid_spec M" "reach_spec M" "view_spec M"
  by (rule struct_deep_copier [OF pair_deep_copier [OF gates.cells.deep_copier_axioms controllers.elems.deep_copier_axioms],
        where get = "\<lambda>s. (ss_FeatureGates s, ss_Controllers s)" and rest = ss_AppNamespace and g = Pair])
    (auto simp: TrainerSpec_DeepCopyInto_def valid_spec_def reach_spec_def view_spec_def copy_pair_def Let_def
      split: prod.splits)

sublocale foreign_copiers \<subseteq> status: deep_copier "TrainerStatus_DeepCopyInto F" "valid_status M" "reach_status M" "view_status M"
  by (rule struct_deep_copier [OF pair_deep_copier [OF commonStatus_copy releaseStatus_copy],
        where get = "\<lambda>s. (st_Status s, st_ComponentReleaseStatus s)" and rest = "\<lambda>s. ()" and g = "\<lambda>u v. v"])
    (auto simp: TrainerStatus_DeepCopyInto_def valid_status_def reach_status_def view_status_def copy_pair_def Let_def
      split: prod.splits)

sublocale foreign_copiers \<subseteq> trainer: deep_copier "Trainer_DeepCopyInto iter F" "valid_trainer M" "reach_trainer M"
  "view_trainer M"
  by (rule struct_deep_copier [OF pair_deep_copier [OF objectMeta_copy
          pair_deep_copier [OF spec.deep_copier_axioms status.deep_copier_axioms]],
        where get = "\<lambda>t. (ts_ObjectMeta t, ts_Spec t, ts_Status t)" and rest = ts_TypeMeta and g = Pair])
    (auto simp: Trainer_DeepCopyInto_def valid_trainer_def reach_trainer_def view_trainer_def copy_pair_def Let_def
      split: prod.splits)

sublocale foreign_copiers \<subseteq> trainers: slice_copier "Trainer_DeepCopyInto iter F" "valid_trainer M" "reach_trainer M"
  "view_trainer M" trainers_of Trainer_array "zero_trainer F"
  by unfold_locales simp

sublocale foreign_copiers \<subseteq> trainer_list: deep_copier "TrainerList_DeepCopyInto iter F" "valid_list M" "reach_list M"
  "view_list M"
  by (rule struct_deep_copier [OF pair_deep_copier [OF listMeta_copy trainers.elems.deep_copier_axioms],
        where get = "\<lambda>l. (ls_ListMeta l, ls_Items l)" and rest = ls_TypeMeta and g = Pair])
    (auto simp: TrainerList_DeepCopyInto_def valid_list_def reach_list_def view_list_def copy_pair_def Let_def
      split: prod.splits)

text \<open>The five \<^verbatim>\<open>DeepCopy\<close> methods on pointers.\<close>

sublocale foreign_copiers \<subseteq> controller_ptr: pointer_copier "ControllerResources_DeepCopyInto F" "valid_controller M"
  "reach_controller M" "view_controller M" controller_of Controller_cell "zero_controller F"
  by unfold_locales simp

sublocale foreign_copiers \<subseteq> spec_ptr: pointer_copier "TrainerSpec_DeepCopyInto iter F" "valid_spec M" "reach_spec M"
  "view_spec M" spec_of Spec_cell zero_spec
  by unfold_locales simp

sublocale foreign_copiers \<subseteq> status_ptr: pointer_copier "TrainerStatus_DeepCopyInto F" "valid_status M" "reach_status M"
  "view_status M" status_of Status_cell "zero_status F"
  by unfold_locales simp

sublocale foreign_copiers \<subseteq> trainer_ptr: pointer_copier "Trainer_DeepCopyInto iter F" "valid_trainer M" "reach_trainer M"
  "view_trainer M" trainer_of Trainer_cell "zero_trainer F"
  by unfold_locales simp

sublocale foreign_copiers \<subseteq> list_ptr: pointer_copier "TrainerList_DeepCopyInto iter F" "valid_list M" "reach_list M"
  "view_list M" list_of List_cell "zero_list F"
  by unfold_locales simp

context foreign_copiers
begin

lemma Trainer_object_copied:
  assumes "valid_ptr (valid_trainer M) trainer_of Trainer_cell h p" and "Trainer_DeepCopyObject iter F h p = (h', ob)"
  shows "case p of None \<Rightarrow> ob = None \<and> h' = h
    | Some a \<Rightarrow> \<exists>b\<ge>length h. ob = Some (Trainer_object (Some b)) \<and> prefix h h' \<and>
        valid_ptr (valid_trainer M) trainer_of Trainer_cell h' (Some b) \<and>
        view_trainer M h' (trainer_of (h' ! b)) = view_trainer M h (trainer_of (h ! a)) \<and>
        reach_ptr (reach_trainer M) trainer_of h' (Some b) \<subseteq> {length h..}"
  using trainer_ptr.new_copy_pointer [OF assms(1)] assms(2)
  by (fastforce simp: Trainer_DeepCopyObject_def Trainer_DeepCopy_def split: prod.splits option.splits)

lemma TrainerList_object_copied:
  assumes "valid_ptr (valid_list M) list_of List_cell h p" and "TrainerList_DeepCopyObject iter F h p = (h', ob)"
  shows "case p of None \<Rightarrow> ob = None \<and> h' = h
    | Some a \<Rightarrow> \<exists>b\<ge>length h. ob = Some (TrainerList_object (Some b)) \<and> prefix h h' \<and>
        valid_ptr (valid_list M) list_of List_cell h' (Some b) \<and>
        view_list M h' (list_of (h' ! b)) = view_list M h (list_of (h ! a)) \<and>
        reach_ptr (reach_list M) list_of h' (Some b) \<subseteq> {length h..}"
  using list_ptr.new_copy_pointer [OF assms(1)] assms(2)
  by (fastforce simp: TrainerList_DeepCopyObject_def TrainerList_DeepCopy_def split: prod.splits option.splits)

lemma Trainer_copy_independent:
  assumes "valid_ptr (valid_trainer M) trainer_of Trainer_cell h p" and "Trainer_DeepCopy iter F h p = (h', q)"
  shows "same_cells {length h..<length h'} h' h'' \<Longrightarrow>
      view_ptr (view_trainer M) trainer_of h'' q = view_ptr (view_trainer M) trainer_of h p"
    and "same_cells {..<length h} h' h'' \<Longrightarrow>
      view_ptr (view_trainer M) trainer_of h'' p = view_ptr (view_trainer M) trainer_of h p"
  using trainer_ptr.ptr.copy_independent [OF assms [unfolded Trainer_DeepCopy_def]]
    trainer_ptr.ptr.original_independent [OF assms [unfolded Trainer_DeepCopy_def]] by blast+

end

section \<open>Properties\<close>

text \<open>
  A package whose structs are pointers to a text, with a copying routine of its own: an instance of
  what is assumed of other packages.
\<close>

definition text_of :: "(addr option, string) cell \<Rightarrow> string" where
  "text_of c = (case c of Foreign_cell s \<Rightarrow> s | _ \<Rightarrow> [])"

definition text_copy :: "((addr option, string) cell, addr option) copier" where
  "text_copy = new_copy (\<lambda>h x. (h, x)) text_of Foreign_cell []"

definition text_meaning :: "(addr option, string, string option) meaning" where
  "text_meaning = \<lparr>m_valid = valid_ptr (\<lambda>h x. True) text_of Foreign_cell,
     m_reach = reach_ptr (\<lambda>h x. {}) text_of, m_view = view_ptr (\<lambda>h x. x) text_of\<rparr>"

definition text_foreign :: "(addr option, string) foreign" where
  "text_foreign = \<lparr>ResourceRequirements_copy = text_copy, ObjectMeta_copy = text_copy, ListMeta_copy = text_copy,
     Status_copy = text_copy, ReleaseStatus_copy = text_copy, ResourceRequirements_zero = None,
     ObjectMeta_zero = None, ListMeta_zero = None, Status_zero = None, ReleaseStatus_zero = None\<rparr>"

definition text_meanings :: "(addr option, string, string option) meanings" where
  "text_meanings = \<lparr>requirements = text_meaning, objectMeta = text_meaning, listMeta = text_meaning,
     commonStatus = text_meaning, releaseStatus = text_meaning\<rparr>"

interpretation text_ptr: pointer_copier "\<lambda>h x. (h, x)" "\<lambda>h x. True" "\<lambda>h x. {}" "\<lambda>h x. x" text_of Foreign_cell "[]"
  by unfold_locales (auto simp: text_of_def)

interpretation text_package: foreign_copiers rev text_foreign text_meanings
  by (rule foreign_copiers.intro)
    (simp_all add: text_foreign_def text_meanings_def text_meaning_def text_copy_def text_ptr.ptr.deep_copier_axioms)

text \<open>
  C22: Deep copies of API objects refine the identity on their values. \<^verbatim>\<open>DeepCopyObject\<close> of a Trainer or a
  TrainerList leaves all allocated memory as it is; for a nil pointer it returns the nil interface,
  and otherwise an object of the same type in a new cell, which is valid, stands for the
  same value (metadata, feature gates, controllers, status and, for a list, its items in order) and
  consists of newly allocated cells only.
\<close>

theorem DeepCopyObject_refines_identity:
  assumes "foreign_copiers iter F M"
  shows "(valid_ptr (valid_trainer M) trainer_of Trainer_cell h p \<and> Trainer_DeepCopyObject iter F h p = (h', ob) \<longrightarrow>
      (case p of None \<Rightarrow> ob = None \<and> h' = h
       | Some a \<Rightarrow> \<exists>b\<ge>length h. ob = Some (Trainer_object (Some b)) \<and> prefix h h' \<and>
           valid_ptr (valid_trainer M) trainer_of Trainer_cell h' (Some b) \<and>
           view_trainer M h' (trainer_of (h' ! b)) = view_trainer M h (trainer_of (h ! a)) \<and>
           reach_ptr (reach_trainer M) trainer_of h' (Some b) \<subseteq> {length h..})) \<and>
    (valid_ptr (valid_list M) list_of List_cell h p \<and> TrainerList_DeepCopyObject iter F h p = (h', ob) \<longrightarrow>
      (case p of None \<Rightarrow> ob = None \<and> h' = h
       | Some a \<Rightarrow> \<exists>b\<ge>length h. ob = Some (TrainerList_object (Some b)) \<and> prefix h h' \<and>
           valid_ptr (valid_list M) list_of List_cell h' (Some b) \<and>
           view_list M h' (list_of (h' ! b)) = view_list M h (list_of (h ! a)) \<and>
           reach_ptr (reach_list M) list_of h' (Some b) \<subseteq> {length h..}))"
  using foreign_copiers.Trainer_object_copied [OF assms] foreign_copiers.TrainerList_object_copied [OF assms]
  by blast

text \<open>A list of one Trainer with a feature gate and a controller, on a heap of its own.\<close>

definition sample_trainer :: "addr option trainer_struct" where
  "sample_trainer = \<lparr>ts_TypeMeta = \<lparr>tm_Kind = ''Trainer'', tm_APIVersion = ''v1alpha1''\<rparr>, ts_ObjectMeta = Some 0,
     ts_Spec = \<lparr>ss_AppNamespace = ''ns'', ss_FeatureGates = Some 1,
       ss_Controllers = Some \<lparr>sl_array = 2, sl_off = 0, sl_len = 1\<rparr>\<rparr>,
     ts_Status = \<lparr>st_Status = None, st_ComponentReleaseStatus = None\<rparr>\<rparr>"

definition sample_heap :: "(addr option, string) cell heap" where
  "sample_heap = [Foreign_cell ''default-trainer'', Gates [(''A'', True), (''B'', False)],
     Controller_array [\<lparr>cs_Name = ''manager'', cs_Resources = Some 3\<rparr>], Foreign_cell ''cpu'',
     Trainer_array [sample_trainer],
     List_cell \<lparr>ls_TypeMeta = \<lparr>tm_Kind = ''TrainerList'', tm_APIVersion = ''v1alpha1''\<rparr>, ls_ListMeta = None,
       ls_Items = Some \<lparr>sl_array = 4, sl_off = 0, sl_len = 1\<rparr>\<rparr>,
     Trainer_cell sample_trainer]"

lemmas sample_simps = sample_heap_def sample_trainer_def text_meanings_def text_meaning_def text_of_def
  valid_ptr_def valid_map_def valid_slice_def valid_controller_def valid_spec_def valid_status_def valid_trainer_def
  valid_list_def slice_elems_def wf_map_def

lemma sample_valid:
  "valid_ptr (valid_trainer text_meanings) trainer_of Trainer_cell sample_heap (Some 6)"
  "valid_ptr (valid_list text_meanings) list_of List_cell sample_heap (Some 5)"
  by (simp_all add: sample_simps)

theorem DeepCopyObject_refines_identity_witness:
  "\<exists>h' b. TrainerList_DeepCopyObject rev text_foreign sample_heap (Some 5) = (h', Some (TrainerList_object (Some b))) \<and>
     7 \<le> b \<and> prefix sample_heap h' \<and>
     view_list text_meanings h' (list_of (h' ! b)) = view_list text_meanings sample_heap (list_of (sample_heap ! 5))"
proof -
  obtain h' ob where "TrainerList_DeepCopyObject rev text_foreign sample_heap (Some 5) = (h', ob)" by fastforce
  with DeepCopyObject_refines_identity [OF text_package.foreign_copiers_axioms, of sample_heap "Some 5" h' ob] sample_valid
  show ?thesis by (auto simp: sample_heap_def)
qed

text \<open>
  C23: A deep copy and its original do not share memory. After \<^verbatim>\<open>DeepCopy\<close> of a Trainer, whatever is written
  to cells that existed before leaves the value of the copy as it was, so that an object copied out of
  the cache is safe from changes to the cache; and whatever is written to the cells the copy
  allocated leaves the value of the original, so that an action may change its copy freely.
\<close>

theorem DeepCopy_independent:
  assumes "foreign_copiers iter F M" and "valid_ptr (valid_trainer M) trainer_of Trainer_cell h p"
    and "Trainer_DeepCopy iter F h p = (h', q)"
  shows "(same_cells {length h..<length h'} h' h'' \<longrightarrow>
      view_ptr (view_trainer M) trainer_of h'' q = view_ptr (view_trainer M) trainer_of h p) \<and>
    (same_cells {..<length h} h' h'' \<longrightarrow>
      view_ptr (view_trainer M) trainer_of h'' p = view_ptr (view_trainer M) trainer_of h p)"
  using foreign_copiers.Trainer_copy_independent [OF assms] by blast

theorem DeepCopy_independent_witness:
  "\<exists>h' q. Trainer_DeepCopy rev text_foreign sample_heap (Some 6) = (h', q) \<and> q \<noteq> None \<and>
     view_ptr (view_trainer text_meanings) trainer_of (h'[1 := Gates [(''A'', False)]]) q =
     view_ptr (view_trainer text_meanings) trainer_of sample_heap (Some 6)"
proof -
  obtain h' q where c: "Trainer_DeepCopy rev text_foreign sample_heap (Some 6) = (h', q)" by fastforce
  have "q \<noteq> None"
    using text_package.trainer_ptr.new_copy_pointer [OF sample_valid(1) c [unfolded Trainer_DeepCopy_def]] by auto
  moreover have "same_cells {length sample_heap..<length h'} h' (h'[1 := Gates [(''A'', False)]])"
    by (auto simp: same_cells_def sample_heap_def)
  ultimately show ?thesis
    using DeepCopy_independent [OF text_package.foreign_copiers_axioms sample_valid(1) c] c by blast
qed

end
