(* ===== verification/Release_Slices.thy ===== *)
theory Release_Slices
  imports Go_Memory Release_Status
begin

text \<open>
  The release list and the conditions of a Trainer as Go slices. \<^verbatim>\<open>appendOrUpdateRelease\<close> writes into the
  array behind the slice it is given, and \<^verbatim>\<open>SetConditions\<close> and \<^verbatim>\<open>SetReleaseStatus\<close> append to \<^verbatim>\<open>x[:0:0]\<close> so
  that they do not. Here the three are modelled with arrays, offsets, capacities and \<^verbatim>\<open>append\<close>, and
  related to the lists of Trainer_Types and Release_Status.
\<close>

section \<open>Slices with a capacity\<close>

text \<open>
  A cell of the heap is an array; a slice may grow in place up to its capacity. A nil slice has
  capacity zero. The capacity a growing \<^verbatim>\<open>append\<close> asks for is the argument \<open>grow\<close>, of the old capacity and
  the length needed.
\<close>

record gslice = slice +
  sl_cap :: nat

type_synonym 'x arrays = "'x list heap"

definition elems :: "'x arrays \<Rightarrow> gslice \<Rightarrow> 'x list" where
  "elems h s = take (sl_len s) (drop (sl_off s) (h ! sl_array s))"

definition valid_gslice :: "'x arrays \<Rightarrow> gslice \<Rightarrow> bool" where
  "valid_gslice h s \<longleftrightarrow> sl_len s \<le> sl_cap s \<and>
     (sl_cap s = 0 \<or> sl_array s < length h \<and> sl_off s + sl_cap s \<le> length (h ! sl_array s))"

text \<open>\<open>write_at i xs ys\<close>: the array \<open>ys\<close> with \<open>xs\<close> written from index \<open>i\<close> on.\<close>

definition write_at :: "nat \<Rightarrow> 'x list \<Rightarrow> 'x list \<Rightarrow> 'x list" where
  "write_at i xs ys = take i ys @ xs @ drop (i + length xs) ys"

definition go_append :: "(nat \<Rightarrow> nat \<Rightarrow> nat) \<Rightarrow> 'x \<Rightarrow> 'x arrays \<Rightarrow> gslice \<Rightarrow> 'x list \<Rightarrow> 'x arrays \<times> gslice" where
  "go_append grow zero h s xs =
     (let n = sl_len s + length xs in
      if n \<le> sl_cap s
      then (if xs = [] then h
            else h[sl_array s := write_at (sl_off s + sl_len s) xs (h ! sl_array s)], s\<lparr>sl_len := n\<rparr>)
      else (let c = max n (grow (sl_cap s) n) in
        (h @ [elems h s @ xs @ replicate (c - n) zero],
         \<lparr>sl_array = length h, sl_off = 0, sl_len = n, sl_cap = c\<rparr>)))"

text \<open>The slice expression \<^verbatim>\<open>s[:0:0]\<close>.\<close>

definition slice_none :: "gslice \<Rightarrow> gslice" where
  "slice_none s = s\<lparr>sl_len := 0, sl_cap := 0\<rparr>"

section \<open>The routines\<close>

text \<open>\<^verbatim>\<open>for i, r := range releases\<close> with the assignment \<^verbatim>\<open>releases[i] = release\<close>.\<close>

fun update_release ::
  "(nat \<Rightarrow> nat \<Rightarrow> nat) \<Rightarrow> ComponentRelease \<Rightarrow> ComponentRelease arrays \<Rightarrow> gslice \<Rightarrow> ComponentRelease \<Rightarrow> nat list \<Rightarrow>
     ComponentRelease arrays \<times> gslice" where
  "update_release grow zero h s release [] = go_append grow zero h s [release]"
| "update_release grow zero h s release (i # is) =
     (if cr_name ((h ! sl_array s) ! (sl_off s + i)) = cr_name release
      then (h[sl_array s := (h ! sl_array s)[sl_off s + i := release]], s)
      else update_release grow zero h s release is)"

definition appendOrUpdateRelease_slice ::
  "(nat \<Rightarrow> nat \<Rightarrow> nat) \<Rightarrow> ComponentRelease \<Rightarrow> ComponentRelease \<Rightarrow> ComponentRelease arrays \<times> gslice \<Rightarrow>
     ComponentRelease arrays \<times> gslice" where
  "appendOrUpdateRelease_slice grow zero release st =
     (case st of (h, s) \<Rightarrow> update_release grow zero h s release [0..<sl_len s])"

text \<open>\<^verbatim>\<open>SetConditions\<close> and \<^verbatim>\<open>SetReleaseStatus\<close>: the new value of the field, from its old one.\<close>

definition set_slice :: "(nat \<Rightarrow> nat \<Rightarrow> nat) \<Rightarrow> 'x \<Rightarrow> 'x arrays \<Rightarrow> gslice \<Rightarrow> gslice \<Rightarrow> 'x arrays \<times> gslice" where
  "set_slice grow zero h field arg = go_append grow zero h (slice_none field) (elems h arg)"

section \<open>Laws of append\<close>

lemma length_elems: "valid_gslice h s \<Longrightarrow> length (elems h s) = sl_len s"
  by (auto simp: valid_gslice_def elems_def)

lemma nth_elems:
  "valid_gslice h s \<Longrightarrow> i < sl_len s \<Longrightarrow> elems h s ! i = (h ! sl_array s) ! (sl_off s + i)"
  by (auto simp: valid_gslice_def elems_def)

lemma length_write_at: "i + length xs \<le> length ys \<Longrightarrow> length (write_at i xs ys) = length ys"
  by (simp add: write_at_def)

lemma take_write_at:
  assumes "i = o1 + n" "i + length xs \<le> length ys"
  shows "take (n + length xs) (drop o1 (write_at i xs ys)) = take n (drop o1 ys) @ xs"
  using assms by (simp add: write_at_def take_drop add.commute)

lemma go_append_elems:
  assumes "valid_gslice h s" and "go_append grow zero h s xs = (h', s')"
  shows "elems h' s' = elems h s @ xs \<and> valid_gslice h' s'"
proof -
  let ?c = "max (sl_len s + length xs) (grow (sl_cap s) (sl_len s + length xs))"
  consider (same) "xs = []" "h' = h" "s' = s"
    | (place) "xs \<noteq> []" "sl_len s + length xs \<le> sl_cap s"
      "h' = h[sl_array s := write_at (sl_off s + sl_len s) xs (h ! sl_array s)]" "s' = s\<lparr>sl_len := sl_len s + length xs\<rparr>"
    | (grown) "\<not> sl_len s + length xs \<le> sl_cap s"
      "h' = h @ [elems h s @ xs @ replicate (?c - (sl_len s + length xs)) zero]"
      "s' = \<lparr>sl_array = length h, sl_off = 0, sl_len = sl_len s + length xs, sl_cap = ?c\<rparr>"
    using assms by (auto simp: go_append_def Let_def valid_gslice_def split: if_splits)
  then show ?thesis
  proof cases
    case same
    then show ?thesis using assms(1) by simp
  next
    case place
    then have "sl_array s < length h" "sl_off s + sl_cap s \<le> length (h ! sl_array s)"
      using assms(1) by (auto simp: valid_gslice_def)
    with place show ?thesis
      by (simp add: elems_def valid_gslice_def take_write_at length_write_at)
  next
    case grown
    then show ?thesis
      using length_elems [OF assms(1)] by (simp add: elems_def valid_gslice_def)
  qed
qed

text \<open>What an append can change: the array of its slice, from the end of the slice on.\<close>

lemma go_append_others:
  assumes "go_append grow zero h s xs = (h', s')" and "b < length h" and "b \<noteq> sl_array s \<or> sl_cap s = 0"
  shows "h' ! b = h ! b"
  using assms by (auto simp: go_append_def Let_def nth_append split: if_splits)

lemma go_append_length:
  "go_append grow zero h s xs = (h', s') \<Longrightarrow> length h \<le> length h' \<and> (sl_array s' = sl_array s \<or> length h \<le> sl_array s')"
  by (auto simp: go_append_def Let_def split: if_splits)

section \<open>Refinement of the release list\<close>

lemma update_at_elems:
  assumes "valid_gslice h s" and "i < sl_len s"
  shows "elems (h[sl_array s := (h ! sl_array s)[sl_off s + i := r]]) s = (elems h s)[i := r]"
    and "valid_gslice (h[sl_array s := (h ! sl_array s)[sl_off s + i := r]]) s"
  using assms by (auto simp: valid_gslice_def elems_def drop_update_swap take_update_swap)

lemma upsert_split:
  assumes "i < length rs" and "cr_name (rs ! i) = cr_name r" and "\<forall>j<i. cr_name (rs ! j) \<noteq> cr_name r"
  shows "appendOrUpdateRelease rs r = rs[i := r]"
  using assms
proof (induction rs r arbitrary: i rule: appendOrUpdateRelease.induct)
  case (2 x rs r)
  then show ?case by (cases i) force+
qed simp

lemma upsert_absent:
  "\<forall>x\<in>set rs. cr_name x \<noteq> cr_name r \<Longrightarrow> appendOrUpdateRelease rs r = rs @ [r]"
  by (induction rs r rule: appendOrUpdateRelease.induct) auto

lemma update_release_refines:
  assumes valid: "valid_gslice h s"
  shows "i \<le> sl_len s \<Longrightarrow> \<forall>j<i. cr_name (elems h s ! j) \<noteq> cr_name r \<Longrightarrow>
    update_release grow zero h s r [i..<sl_len s] = (h', s') \<Longrightarrow>
    elems h' s' = appendOrUpdateRelease (elems h s) r \<and> valid_gslice h' s' \<and>
    (length h \<le> length h' \<and> (sl_array s' = sl_array s \<or> length h \<le> sl_array s')) \<and>
    (\<forall>b<length h. b \<noteq> sl_array s \<longrightarrow> h' ! b = h ! b)"
proof (induction "sl_len s - i" arbitrary: i)
  case 0
  then have none: "\<forall>x\<in>set (elems h s). cr_name x \<noteq> cr_name r"
    using length_elems [OF valid] by (auto simp: in_set_conv_nth)
  from 0 have app: "go_append grow zero h s [r] = (h', s')" by simp
  with upsert_absent [OF none] go_append_elems [OF valid app] go_append_others [OF app] go_append_length [OF app]
  show ?case by simp
next
  case (Suc d)
  then have i: "i < sl_len s" "[i..<sl_len s] = i # [Suc i..<sl_len s]" by (simp_all add: upt_conv_Cons)
  show ?case
  proof (cases "cr_name (elems h s ! i) = cr_name r")
    case True
    with Suc.prems i nth_elems [OF valid i(1)] have "h' = h[sl_array s := (h ! sl_array s)[sl_off s + i := r]]" "s' = s"
      by auto
    with update_at_elems [OF valid i(1)] upsert_split [of i "elems h s" r] True Suc.prems(2) length_elems [OF valid] i(1)
    show ?thesis by simp
  next
    case False
    with Suc.prems(2) have "\<forall>j<Suc i. cr_name (elems h s ! j) \<noteq> cr_name r" by (auto simp: less_Suc_eq)
    with Suc.hyps(1) [of "Suc i"] Suc.hyps(2) Suc.prems(3) i False nth_elems [OF valid i(1)] show ?thesis by simp
  qed
qed

text \<open>
  C34: The release list in memory refines the release list of the status. Entering any sequence of releases with
  \<^verbatim>\<open>appendOrUpdateRelease\<close>, which overwrites entries in place and appends within the capacity of the
  slice or to a new array, whatever capacity the runtime chooses, leaves a valid slice whose elements are
  those of the list after the same sequence of updates on lists; of the memory allocated before,
  only the array behind the slice is written.
\<close>

theorem appendOrUpdateRelease_slice_refines:
  assumes "valid_gslice h s" and "fold (appendOrUpdateRelease_slice grow zero) releases (h, s) = (h', s')"
  shows "elems h' s' = fold (\<lambda>r rs. appendOrUpdateRelease rs r) releases (elems h s) \<and> valid_gslice h' s' \<and>
    (\<forall>b<length h. b \<noteq> sl_array s \<longrightarrow> h' ! b = h ! b)"
  using assms
proof (induction releases arbitrary: h s)
  case (Cons r releases)
  obtain h1 s1 where one: "update_release grow zero h s r [0..<sl_len s] = (h1, s1)" by fastforce
  from update_release_refines [OF Cons.prems(1) _ _ one] have
    r: "elems h1 s1 = appendOrUpdateRelease (elems h s) r" "valid_gslice h1 s1" "length h \<le> length h1"
      "sl_array s1 = sl_array s \<or> length h \<le> sl_array s1" "\<forall>b<length h. b \<noteq> sl_array s \<longrightarrow> h1 ! b = h ! b" by auto
  have "appendOrUpdateRelease_slice grow zero r (h, s) = (h1, s1)"
    using one by (simp add: appendOrUpdateRelease_slice_def)
  with Cons.prems(2) have "fold (appendOrUpdateRelease_slice grow zero) releases (h1, s1) = (h', s')" by simp
  note rest = Cons.IH [OF r(2) this]
  have "h' ! b = h ! b" if "b < length h" "b \<noteq> sl_array s" for b
  proof -
    have "b < length h1" "b \<noteq> sl_array s1" using that r(3,4) by auto
    with rest that r(5) show ?thesis by simp
  qed
  with rest r(1) show ?case by simp
qed simp

definition sample_release :: "string \<Rightarrow> string \<Rightarrow> ComponentRelease" where
  "sample_release n v = \<lparr>cr_name = n, cr_version = v, cr_repoURL = []\<rparr>"

theorem appendOrUpdateRelease_slice_refines_witness:
  "case fold (appendOrUpdateRelease_slice (\<lambda>c n. 2 * c) (sample_release [] []))
      [sample_release ''b'' ''2'', sample_release ''a'' ''3'']
      ([[sample_release ''a'' ''1'']], \<lparr>sl_array = 0, sl_off = 0, sl_len = 1, sl_cap = 1\<rparr>) of
    (h', s') \<Rightarrow> elems h' s' = [sample_release ''a'' ''3'', sample_release ''b'' ''2'']"
proof -
  let ?h = "[[sample_release ''a'' ''1'']]" and ?s = "\<lparr>sl_array = 0, sl_off = 0, sl_len = 1, sl_cap = 1\<rparr>"
    and ?rs = "[sample_release ''b'' ''2'', sample_release ''a'' ''3'']"
  have "valid_gslice ?h ?s" by (simp add: valid_gslice_def)
  note refines = appendOrUpdateRelease_slice_refines [OF this]
  obtain h' s' where run: "fold (appendOrUpdateRelease_slice (\<lambda>c n. 2 * c) (sample_release [] [])) ?rs (?h, ?s) = (h', s')"
    by fastforce
  have "elems ?h ?s = [sample_release ''a'' ''1'']" by (simp add: elems_def)
  then have "fold (\<lambda>r rs. appendOrUpdateRelease rs r) ?rs (elems ?h ?s) =
      [sample_release ''a'' ''3'', sample_release ''b'' ''2'']" by (simp add: sample_release_def)
  with refines [OF run] run show ?thesis by simp
qed

text \<open>
  C35: A Trainer never shares its conditions or its releases with the slice a caller sets them from.
  \<^verbatim>\<open>SetConditions\<close> and \<^verbatim>\<open>SetReleaseStatus\<close> leave all allocated memory as it is and store a slice with the elements of
  the argument, and whatever is later written to memory that existed before the call, through
  the argument or through the old value of the field, the stored elements stay the same.
\<close>

theorem set_slice_unshared:
  assumes "valid_gslice h arg" and "set_slice grow zero h field arg = (h', s')"
  shows "elems h' s' = elems h arg \<and> prefix h h' \<and>
    (\<forall>h''. same_cells {length h..<length h'} h' h'' \<longrightarrow> elems h'' s' = elems h arg)"
proof (cases "elems h arg = []")
  case True
  with assms(2) show ?thesis by (auto simp: set_slice_def go_append_def slice_none_def elems_def)
next
  case False
  have "valid_gslice h (slice_none field)" "elems h (slice_none field) = []"
    by (simp_all add: valid_gslice_def slice_none_def elems_def)
  with go_append_elems [OF _ assms(2) [unfolded set_slice_def]] have "elems h' s' = elems h arg" by simp
  moreover have "prefix h h'" "sl_array s' = length h" "length h' = Suc (length h)"
    using False assms(2) by (auto simp: set_slice_def go_append_def slice_none_def Let_def split: if_splits)
  ultimately show ?thesis by (auto simp: same_cells_def elems_def)
qed

theorem set_slice_unshared_witness:
  "case set_slice (\<lambda>c n. n) CHR ''x'' [''ab''] \<lparr>sl_array = 0, sl_off = 0, sl_len = 0, sl_cap = 2\<rparr>
      \<lparr>sl_array = 0, sl_off = 0, sl_len = 2, sl_cap = 2\<rparr> of
    (h', s') \<Rightarrow> elems h' s' = ''ab'' \<and> elems (h'[0 := ''zz'']) s' = ''ab''"
proof -
  let ?arg = "\<lparr>sl_array = 0, sl_off = 0, sl_len = 2, sl_cap = 2\<rparr>"
    and ?field = "\<lparr>sl_array = 0, sl_off = 0, sl_len = 0, sl_cap = 2\<rparr>"
  obtain h' s' where c: "set_slice (\<lambda>c n. n) CHR ''x'' [''ab''] ?field ?arg = (h', s')" by fastforce
  have "valid_gslice [''ab''] ?arg" "elems [''ab''] ?arg = ''ab''" by (simp_all add: valid_gslice_def elems_def)
  moreover have "same_cells {length [''ab'']..<length h'} h' (h'[0 := ''zz''])" by (auto simp: same_cells_def)
  ultimately show ?thesis using set_slice_unshared [OF _ c] c by auto
qed

end
