(* ===== verification/Rbac.thy ===== *)
theory Rbac
  imports Reconciler
begin

text \<open>
  The permissions of the operator: the RBAC markers of internal/controller/trainer_controller.go, from which
  its ClusterRole is generated, the decision of the API server on a request, and clients that
  answer a request that is not permitted with an error. The calls the controller makes itself are all
  permitted: with such clients its routines do exactly what they do without the check. What the
  functions of other packages ask of the API server (the platform utilities behind the dependency
  checks, the framework's deploy, status and collection actions, and the collector \<^verbatim>\<open>cleanup\<close> runs at its
  end) is not in this repository; nothing is said of it here.
\<close>

section \<open>Rules\<close>

record rbac_rule =
  rule_groups :: "string list"
  rule_resources :: "string list"
  rule_verbs :: "string list"
  rule_names :: "string list"
  rule_urls :: "string list"

definition rule :: "string list \<Rightarrow> string list \<Rightarrow> string list \<Rightarrow> string list \<Rightarrow> rbac_rule" where
  "rule gs rs vs ns = \<lparr>rule_groups = gs, rule_resources = rs, rule_verbs = vs, rule_names = ns, rule_urls = []\<rparr>"

definition url_rule :: "string list \<Rightarrow> string list \<Rightarrow> rbac_rule" where
  "url_rule us vs = \<lparr>rule_groups = [], rule_resources = [], rule_verbs = vs, rule_names = [], rule_urls = us\<rparr>"

definition rbac_markers :: "rbac_rule list" where
  "rbac_markers =
     [rule [''components.platform.opendatahub.io''] [''trainers''] [''get'', ''list'', ''watch'',
        ''update'', ''patch''] [],
      rule [''components.platform.opendatahub.io''] [''trainers/status''] [''get'', ''update'', ''patch'']
        [],
      rule [''components.platform.opendatahub.io''] [''trainers/finalizers''] [''update''] [],
      rule [[]] [''namespaces''] [''get'', ''list'', ''watch'', ''create'', ''update'', ''patch''] [],
      rule [[]] [''events''] [''create'', ''patch'', ''update'', ''watch''] [],
      rule [''events.k8s.io''] [''events''] [''create'', ''patch'', ''update'', ''watch''] [],
      rule [[]] [''limitranges''] [''get'', ''list'', ''watch''] [],
      rule [[]] [''pods''] [''get'', ''list''] [],
      rule [[]] [''secrets''] [''create'', ''delete'', ''get'', ''list'', ''patch'', ''update'',
        ''watch''] [],
      rule [[]] [''services'', ''configmaps''] [''get'', ''list'', ''watch'', ''create'', ''update'',
        ''patch'', ''delete''] [],
      rule [[]] [''serviceaccounts''] [''create'', ''list'', ''watch''] [],
      rule [[]] [''serviceaccounts''] [''get'', ''update'', ''patch'', ''delete'']
        [''kubeflow-trainer-controller-manager'', ''kubeflow-trainer-cache-initializer''],
      rule [''apps''] [''deployments''] [''get'', ''list'', ''watch'', ''create'', ''update'', ''patch'',
        ''delete''] [],
      rule [''coordination.k8s.io''] [''leases''] [''create'', ''get'', ''list'', ''update''] [],
      rule [''rbac.authorization.k8s.io''] [''clusterroles'', ''clusterrolebindings'', ''roles'',
        ''rolebindings''] [''create'', ''list'', ''watch''] [],
      rule [''rbac.authorization.k8s.io''] [''clusterroles''] [''get'', ''update'', ''patch'', ''delete'']
        [''kubeflow-trainer-controller-manager'', ''training-admin'', ''training-edit'', ''training-view'',
        ''kubeflow-trainer-admin'', ''kubeflow-trainer-edit'', ''kubeflow-trainer-view'',
        ''kubeflow-trainer-cache-initializer'', ''trainer-metrics-reader'', ''trainer-tls-profile''],
      rule [''rbac.authorization.k8s.io''] [''clusterrolebindings''] [''get'', ''update'', ''patch'',
        ''delete''] [''kubeflow-trainer-controller-manager'', ''kubeflow-trainer-view'',
        ''trainer-metrics-reader'', ''trainer-tls-profile''],
      rule [''rbac.authorization.k8s.io''] [''roles''] [''get'', ''update'', ''patch'', ''delete'']
        [''kubeflow-trainer-public''],
      rule [''rbac.authorization.k8s.io''] [''rolebindings''] [''get'', ''update'', ''patch'', ''delete'']
        [''kubeflow-trainer-cache-initializer'', ''kubeflow-trainer-public''],
      rule [''authentication.k8s.io''] [''tokenreviews''] [''create''] [],
      rule [''authorization.k8s.io''] [''subjectaccessreviews''] [''create''] [],
      url_rule [''/metrics''] [''get''],
      rule [''monitoring.coreos.com''] [''podmonitors'', ''servicemonitors''] [''get'', ''list'',
        ''watch'', ''create'', ''update'', ''patch'', ''delete''] [],
      rule [''monitoring.coreos.com''] [''prometheusrules''] [''get'', ''list'', ''watch'', ''create'',
        ''update'', ''patch'', ''delete''] [],
      rule [''admissionregistration.k8s.io''] [''mutatingwebhookconfigurations'',
        ''validatingwebhookconfigurations''] [''get'', ''list'', ''watch'', ''create'', ''update'',
        ''patch'', ''delete''] [],
      rule [''apiextensions.k8s.io''] [''customresourcedefinitions''] [''get'', ''list'', ''watch'',
        ''create'', ''update'', ''patch''] [],
      rule [''jobset.x-k8s.io''] [''jobsets''] [''create'', ''delete'', ''get'', ''list'', ''patch'',
        ''update'', ''watch''] [],
      rule [''networking.k8s.io''] [''networkpolicies''] [''get'', ''list'', ''watch'', ''create'',
        ''update'', ''patch''] [],
      rule [''node.k8s.io''] [''runtimeclasses''] [''get'', ''list'', ''watch''] [],
      rule [''scheduling.volcano.sh''] [''podgroups''] [''create'', ''delete'', ''get'', ''list'',
        ''patch'', ''update'', ''watch''] [],
      rule [''scheduling.x-k8s.io''] [''podgroups''] [''create'', ''get'', ''list'', ''patch'',
        ''update'', ''watch''] [],
      rule [''scheduling.k8s.io''] [''priorityclasses''] [''get'', ''list'', ''watch''] [],
      rule [''trainer.kubeflow.org''] [''clustertrainingruntimes'', ''trainingruntimes''] [''get'',
        ''list'', ''watch'', ''create'', ''update'', ''patch'', ''delete''] [],
      rule [''trainer.kubeflow.org''] [''clustertrainingruntimes/status'', ''trainingruntimes/status'']
        [''get''] [],
      rule [''trainer.kubeflow.org''] [''clustertrainingruntimes/finalizers'',
        ''trainingruntimes/finalizers'', ''trainjobs/finalizers''] [''get'', ''patch'', ''update''] [],
      rule [''trainer.kubeflow.org''] [''optimizationjobs''] [''get'', ''list'', ''patch'', ''update'',
        ''watch''] [],
      rule [''trainer.kubeflow.org''] [''optimizationjobs/status''] [''get'', ''patch'', ''update''] [],
      rule [''trainer.kubeflow.org''] [''trainjobs''] [''create'', ''delete'', ''get'', ''list'',
        ''patch'', ''update'', ''watch''] [],
      rule [''trainer.kubeflow.org''] [''trainjobs/status''] [''get'', ''patch'', ''update''] [],
      rule [''image.openshift.io''] [''imagestreams''] [''get'', ''list'', ''watch'', ''create'',
        ''update'', ''patch'', ''delete''] [],
      rule [''config.openshift.io''] [''apiservers''] [''get'', ''list'', ''watch''] [],
      rule [''config.openshift.io''] [''clusterversions''] [''get''] [],
      rule [''operators.coreos.com''] [''operatorconditions''] [''list''] [],
      rule [''olm.operatorframework.io''] [''clusterextensions''] [''list''] [],
      rule [''operator.openshift.io''] [''jobsetoperators''] [''get'', ''list'', ''watch''] []]"

text \<open>
  A request names a group, a resource, a verb and, unless it creates, lists or watches, an object.
  A rule with resource names admits requests for these objects only.
\<close>

definition admits :: "string \<Rightarrow> string \<Rightarrow> string \<Rightarrow> string \<Rightarrow> rbac_rule \<Rightarrow> bool" where
  "admits grp resource verb name r \<longleftrightarrow> grp \<in> set (rule_groups r) \<and> resource \<in> set (rule_resources r) \<and>
     verb \<in> set (rule_verbs r) \<and> (rule_names r = [] \<or> name \<in> set (rule_names r))"

definition permitted :: "rbac_rule list \<Rightarrow> string \<Rightarrow> string \<Rightarrow> string \<Rightarrow> string \<Rightarrow> bool" where
  "permitted rules grp resource verb name \<longleftrightarrow> list_ex (admits grp resource verb name) rules"

section \<open>Clients behind the check\<close>

text \<open>
  The API server refuses what is not permitted. A typed request is for a kind; \<open>mapping\<close> gives its
  resource.
\<close>

definition forbidden :: goerr where
  "forbidden = goerr.Status Forbidden ''forbidden''"

definition guard_dynamic :: "rbac_rule list \<Rightarrow> 'w dynamic_client \<Rightarrow> 'w dynamic_client" where
  "guard_dynamic rules D =
     \<lparr>dyn_list = (\<lambda>gvr sel w. if permitted rules (gvr_group gvr) (gvr_resource gvr) ''list'' []
        then dyn_list D gvr sel w else Inl forbidden),
      dyn_update = (\<lambda>gvr ns ob w. if permitted rules (gvr_group gvr) (gvr_resource gvr) ''update'' (u_name ob)
        then dyn_update D gvr ns ob w else (Some forbidden, w)),
      dyn_delete = (\<lambda>gvr ns name w. if permitted rules (gvr_group gvr) (gvr_resource gvr) ''delete'' name
        then dyn_delete D gvr ns name w else (Some forbidden, w))\<rparr>"

definition guard_typed :: "rbac_rule list \<Rightarrow> (gvk \<Rightarrow> string) \<Rightarrow> 'w typed_client \<Rightarrow> 'w typed_client" where
  "guard_typed rules mapping C =
     \<lparr>get_namespace = (\<lambda>name w. if permitted rules [] ''namespaces'' ''get'' name
        then get_namespace C name w else Inl forbidden),
      create_namespace = (\<lambda>ns w. if permitted rules [] ''namespaces'' ''create'' []
        then create_namespace C ns w else (Some forbidden, w)),
      get_configmap = (\<lambda>name ns w. if permitted rules [] ''configmaps'' ''get'' name
        then get_configmap C name ns w else Inl forbidden),
      delete_object = (\<lambda>k ns name w. if permitted rules (gvk_group k) (mapping k) ''delete'' name
        then delete_object C k ns name w else (Some forbidden, w))\<rparr>"

text \<open>The two clients of the environment behind the check; the functions of other packages are left as they are.\<close>

definition guard_env :: "(gvk \<Rightarrow> string) \<Rightarrow> ('w, 'v) operator_env \<Rightarrow> ('w, 'v) operator_env" where
  "guard_env mapping E = E\<lparr>oe_client := guard_typed rbac_markers mapping (oe_client E),
     oe_dynamic := guard_dynamic rbac_markers (oe_dynamic E)\<rparr>"

section \<open>The calls are permitted\<close>

lemmas marker_simps = permitted_def rbac_markers_def rule_def url_rule_def admits_def

lemma permitted_namespaces:
  "permitted rbac_markers [] ''namespaces'' ''get'' name" "permitted rbac_markers [] ''namespaces'' ''create'' []"
  "permitted rbac_markers [] ''configmaps'' ''get'' name"
  by (simp_all add: marker_simps)

lemma permitted_deployments: "permitted rbac_markers ''apps'' ''deployments'' ''delete'' name"
  by (simp add: marker_simps)

lemma permitted_runtime_verbs:
  "permitted rbac_markers ''trainer.kubeflow.org'' ''clustertrainingruntimes'' ''list'' name"
  "permitted rbac_markers ''trainer.kubeflow.org'' ''clustertrainingruntimes'' ''update'' name"
  "permitted rbac_markers ''trainer.kubeflow.org'' ''clustertrainingruntimes'' ''delete'' name"
  "permitted rbac_markers ''trainer.kubeflow.org'' ''trainingruntimes'' ''list'' name"
  "permitted rbac_markers ''trainer.kubeflow.org'' ''trainingruntimes'' ''update'' name"
  "permitted rbac_markers ''trainer.kubeflow.org'' ''trainingruntimes'' ''delete'' name"
  by (simp_all add: marker_simps)

text \<open>Two clients that answer the calls on a resource alike, and the routines on such clients.\<close>

definition agree_on :: "gvr \<Rightarrow> 'w dynamic_client \<Rightarrow> 'w dynamic_client \<Rightarrow> bool" where
  "agree_on g D D' \<longleftrightarrow> dyn_list D g = dyn_list D' g \<and> dyn_update D g = dyn_update D' g \<and> dyn_delete D g = dyn_delete D' g"

lemma items_agree:
  assumes "agree_on g D D'"
  shows "strip_items D g items w = strip_items D' g items w" and "delete_items D g items w = delete_items D' g items w"
  using assms by (induction items arbitrary: w) (auto simp: agree_on_def Let_def split: prod.split option.split)

lemma strip_agree:
  "\<forall>g\<in>set gs. agree_on g D D' \<Longrightarrow> strip_resources D gs w = strip_resources D' gs w"
proof (induction gs arbitrary: w)
  case (Cons g gs)
  then have g: "agree_on g D D'" by simp
  have "dyn_list D g = dyn_list D' g" using g unfolding agree_on_def by blast
  with Cons items_agree [OF g] show ?case by (simp split: sum.split prod.split option.split)
qed simp

lemma delete_agree:
  "\<forall>g\<in>set gs. agree_on g D D' \<Longrightarrow> delete_resources D gs w = delete_resources D' gs w"
proof (induction gs arbitrary: w)
  case (Cons g gs)
  then have g: "agree_on g D D'" by simp
  have "dyn_list D g = dyn_list D' g" using g unfolding agree_on_def by blast
  with Cons items_agree [OF g] show ?case by (simp split: sum.split)
qed simp

lemma guard_agrees: "g \<in> set runtime_gvrs \<Longrightarrow> agree_on g (guard_dynamic rbac_markers D) D"
  by (auto simp: agree_on_def guard_dynamic_def runtime_gvrs_def trainerKubeflowGroup_def
      clusterTrainingRuntimeResource_def trainingRuntimeResource_def permitted_runtime_verbs fun_eq_iff)

lemma guarded_runtimes:
  "removeRuntimeFinalizers (guard_dynamic rbac_markers D) = removeRuntimeFinalizers D"
  "cleanupTrainerResources (guard_dynamic rbac_markers D) = cleanupTrainerResources D"
  unfolding fun_eq_iff removeRuntimeFinalizers_def cleanupTrainerResources_def
  by (blast intro: strip_agree delete_agree guard_agrees)+

lemma guarded_typed:
  "get_namespace (guard_typed rbac_markers mapping C) = get_namespace C"
  "create_namespace (guard_typed rbac_markers mapping C) = create_namespace C"
  "get_configmap (guard_typed rbac_markers mapping C) = get_configmap C"
  by (simp_all add: guard_typed_def permitted_namespaces fun_eq_iff)

lemma guarded_deletes:
  assumes "\<forall>res\<in>set ress. GetKind res = ''Deployment'' \<longrightarrow> gvk_group (u_gvk res) = ''apps'' \<and> mapping (u_gvk res) = ''deployments''"
  shows "delete_deployments (guard_typed rbac_markers mapping C) ress w = delete_deployments C ress w"
  using assms by (induction ress arbitrary: w) (auto simp: guard_typed_def permitted_deployments)

text \<open>
  C24: The permissions the markers request suffice for the calls the controller makes itself on its
  clients: when these refuse whatever the rules do not permit, ensuring the namespace, updating
  the releases (which reads the platform's ConfigMap), removing the legacy finalizers, as an action
  and in the cleanup, and deleting the training runtimes behave exactly as with unrestricted
  clients, on every state; and so does the recovery from immutable fields around any deploy
  action, when the Deployments among the resources are those of the apps group. The requests made inside
  other packages (dependency checks, deploy, status and collection actions, and the collector at
  the end of \<^verbatim>\<open>cleanup\<close>) are not part of the claim.
\<close>

theorem rbac_suffices:
  fixes E :: "('w, 'v) operator_env"
  shows "ensureNamespace_action (guard_env mapping E) = ensureNamespace_action E \<and>
    updateReleases_action (guard_env mapping E) = updateReleases_action E \<and>
    stripRuntimeFinalizers (guard_env mapping E) = stripRuntimeFinalizers E \<and>
    removeRuntimeFinalizers (oe_dynamic (guard_env mapping E)) = removeRuntimeFinalizers (oe_dynamic E) \<and>
    cleanupTrainerResources (oe_dynamic (guard_env mapping E)) = cleanupTrainerResources (oe_dynamic E) \<and>
    (\<forall>(deploy :: ('w, 'v) action) s. (\<forall>res\<in>set (Resources (st_req (snd (deploy s)))). GetKind res = ''Deployment'' \<longrightarrow>
         gvk_group (u_gvk res) = ''apps'' \<and> mapping (u_gvk res) = ''deployments'') \<longrightarrow>
       withImmutableFieldRecovery (oe_client (guard_env mapping E)) deploy s =
       withImmutableFieldRecovery (oe_client E) deploy s)"
proof (intro conjI allI impI)
  have client: "oe_client (guard_env mapping E) = guard_typed rbac_markers mapping (oe_client E)"
    and dynamic: "oe_dynamic (guard_env mapping E) = guard_dynamic rbac_markers (oe_dynamic E)"
    and render: "oe_render (guard_env mapping E) = oe_render E" "oe_metadata (guard_env mapping E) = oe_metadata E"
      "oe_semver (guard_env mapping E) = oe_semver E"
    by (simp_all add: guard_env_def)
  show "ensureNamespace_action (guard_env mapping E) = ensureNamespace_action E"
    unfolding fun_eq_iff ensureNamespace_action_def ensureNamespace_def client guarded_typed render by simp
  show "updateReleases_action (guard_env mapping E) = updateReleases_action E"
    unfolding fun_eq_iff updateReleases_action_def updateReleases_def getPlatformVersion_def client guarded_typed render by simp
  show "stripRuntimeFinalizers (guard_env mapping E) = stripRuntimeFinalizers E"
    unfolding fun_eq_iff stripRuntimeFinalizers_def dynamic guarded_runtimes by simp
  show "removeRuntimeFinalizers (oe_dynamic (guard_env mapping E)) = removeRuntimeFinalizers (oe_dynamic E)"
    and "cleanupTrainerResources (oe_dynamic (guard_env mapping E)) = cleanupTrainerResources (oe_dynamic E)"
    by (simp_all add: dynamic guarded_runtimes)
  fix deploy :: "('w, 'v) action" and s
  assume "\<forall>res\<in>set (Resources (st_req (snd (deploy s)))). GetKind res = ''Deployment'' \<longrightarrow>
    gvk_group (u_gvk res) = ''apps'' \<and> mapping (u_gvk res) = ''deployments''"
  then show "withImmutableFieldRecovery (oe_client (guard_env mapping E)) deploy s =
      withImmutableFieldRecovery (oe_client E) deploy s"
    by (auto simp: withImmutableFieldRecovery_def guard_env_def guarded_deletes split: prod.split)
qed

definition recovery_state :: "(contents, string) op_state" where
  "recovery_state = idle_state\<lparr>st_req := empty_request\<lparr>Resources :=
     [(sample_runtime ''kubeflow-trainer-controller-manager'' [] [] False)\<lparr>u_gvk :=
        \<lparr>gvk_group = ''apps'', gvk_version = ''v1'', gvk_kind = ''Deployment''\<rparr>\<rparr>]\<rparr>\<rparr>"

theorem rbac_suffices_witness:
  "withImmutableFieldRecovery (oe_client (guard_env (\<lambda>k. ''deployments'') ready_env)) (\<lambda>s. (Some (Plain ''field is immutable''), s))
     recovery_state =
   withImmutableFieldRecovery (oe_client ready_env) (\<lambda>s. (Some (Plain ''field is immutable''), s)) recovery_state"
  using rbac_suffices [of "\<lambda>k. ''deployments''" ready_env] by (simp add: recovery_state_def sample_runtime_def)

text \<open>
  C25: The permissions are scoped as the comments on the markers say. Whatever the operator may do to a service
  account or to an RBAC object beyond creating, listing and watching, it may do to the named objects of its
  own manifests only; and it may neither delete a custom resource definition, a namespace or a network
  policy nor impersonate, bind or escalate.
\<close>

theorem rbac_scoped:
  "(permitted rbac_markers ''rbac.authorization.k8s.io'' resource verb name \<longrightarrow>
      verb \<in> {''create'', ''list'', ''watch''} \<or>
      name \<in> {''kubeflow-trainer-controller-manager'', ''training-admin'', ''training-edit'', ''training-view'',
        ''kubeflow-trainer-admin'', ''kubeflow-trainer-edit'', ''kubeflow-trainer-view'',
        ''kubeflow-trainer-cache-initializer'', ''trainer-metrics-reader'', ''trainer-tls-profile'',
        ''kubeflow-trainer-public''} \<and> verb \<in> {''get'', ''update'', ''patch'', ''delete''}) \<and>
   (permitted rbac_markers [] ''serviceaccounts'' verb name \<longrightarrow> verb \<in> {''create'', ''list'', ''watch''} \<or>
      name \<in> {''kubeflow-trainer-controller-manager'', ''kubeflow-trainer-cache-initializer''}) \<and>
   \<not> permitted rbac_markers [] ''namespaces'' ''delete'' name \<and>
   \<not> permitted rbac_markers ''apiextensions.k8s.io'' ''customresourcedefinitions'' ''delete'' name \<and>
   \<not> permitted rbac_markers ''networking.k8s.io'' ''networkpolicies'' ''delete'' name \<and>
   (permitted rbac_markers grp resource verb name \<longrightarrow> verb \<notin> {''impersonate'', ''bind'', ''escalate'', ''*''})"
  by (auto simp: marker_simps)

theorem rbac_scoped_witness:
  "permitted rbac_markers ''rbac.authorization.k8s.io'' ''clusterroles'' ''delete'' ''trainer-tls-profile'' \<and>
   \<not> permitted rbac_markers ''rbac.authorization.k8s.io'' ''clusterroles'' ''delete'' ''cluster-admin''"
proof
  show "permitted rbac_markers ''rbac.authorization.k8s.io'' ''clusterroles'' ''delete'' ''trainer-tls-profile''"
    by (simp add: marker_simps)
  show "\<not> permitted rbac_markers ''rbac.authorization.k8s.io'' ''clusterroles'' ''delete'' ''cluster-admin''"
    using rbac_scoped [of "''clusterroles''" "''delete''" "''cluster-admin''"] by auto
qed

end
