(* ===== verification/TLS_Lifecycle.thy ===== *)
theory TLS_Lifecycle
  imports Startup Interleaving
begin

text \<open>
  The operator process over time, as far as its TLS settings go: \<^verbatim>\<open>main\<close> resolves the cluster's profile
  and registers the watcher (cmd/main.go, internal/tls/profile.go), the watcher cancels the
  context when the profile changes, the process ends and is started again; so it is when the
  manager's \<^verbatim>\<open>Start\<close> returns an error, with which \<^verbatim>\<open>main\<close> exits. The cluster and the files may be
  changed by others at any time.
\<close>

section \<open>The process\<close>




section \<open>What a running process knows\<close>






section \<open>Convergence\<close>










section \<open>Properties\<close>






end
