(* ===== verification/Runtime_Interleaving.thy ===== *)
theory Runtime_Interleaving
  imports Runtimes Interleaving
begin

text \<open>
  The two sweeps over the training runtimes (internal/controller/trainer_controller.go), one API
  call at a time: between two calls anybody else may change the cluster.
\<close>

section \<open>Calls\<close>

text \<open>
  Where a sweep is: about to list the resources that are left, in the loop over the objects of
  one of them, or returned.
\<close>

datatype sweep_pc =
    Listing "gvr list"
  | Items gvr "unstructured list" "gvr list"
  | Finished "goerr option"

fun strip_call :: "'w dynamic_client \<Rightarrow> sweep_pc \<times> 'w \<Rightarrow> sweep_pc \<times> 'w" where
  "strip_call D (Listing [], w) = (Finished None, w)"
| "strip_call D (Listing (g # gs), w) =
     (case dyn_list D g part_of_selector w of
        Inl e \<Rightarrow>
          (if is_not_found e then (Listing gs, w)
           else (Finished (Some (Wrap (''listing '' @ gvr_resource g @ '' for finalizer removal'') e)), w))
      | Inr items \<Rightarrow> (Items g items gs, w))"
| "strip_call D (Items g [] gs, w) = (Listing gs, w)"
| "strip_call D (Items g (item # items) gs, w) =
     (let retained = filterFinalizer (u_finalizers item) legacyTrainerFinalizer in
      if length retained = length (u_finalizers item) then (Items g items gs, w)
      else case dyn_update D g (u_namespace item) (item\<lparr>u_finalizers := retained\<rparr>) w of
             (Some e, w') \<Rightarrow>
               (Finished (Some (Wrap (''removing finalizer from '' @ gvr_resource g @ '' '' @
                  u_namespace item @ ''/'' @ u_name item) e)), w')
           | (None, w') \<Rightarrow> (Items g items gs, w'))"
| "strip_call D (Finished r, w) = (Finished r, w)"

fun delete_call :: "'w dynamic_client \<Rightarrow> sweep_pc \<times> 'w \<Rightarrow> sweep_pc \<times> 'w" where
  "delete_call D (Listing [], w) = (Finished None, w)"
| "delete_call D (Listing (g # gs), w) =
     (case dyn_list D g part_of_selector w of
        Inl e \<Rightarrow> (Listing gs, w)
      | Inr items \<Rightarrow> (Items g items gs, w))"
| "delete_call D (Items g [] gs, w) = (Listing gs, w)"
| "delete_call D (Items g (item # items) gs, w) =
     (if u_deleting item then (Items g items gs, w)
      else (Items g items gs, snd (dyn_delete D g (u_namespace item) (u_name item) w)))"
| "delete_call D (Finished r, w) = (Finished r, w)"

section \<open>Termination\<close>

fun returned :: "sweep_pc \<Rightarrow> bool" where
  "returned (Finished r) = True"
| "returned p = False"

fun sweep_rank :: "sweep_pc \<Rightarrow> nat \<times> nat" where
  "sweep_rank (Listing gs) = (2 * length gs + 1, 0)"
| "sweep_rank (Items g items gs) = (2 * length gs + 2, length items)"
| "sweep_rank (Finished r) = (0, 0)"

definition sweep_order :: "(sweep_pc \<times> sweep_pc) set" where
  "sweep_order = inv_image (less_than <*lex*> less_than) sweep_rank"

lemma wf_sweep_order: "wf sweep_order"
  by (simp add: sweep_order_def wf_lex_prod)

text \<open>
  A list call may return any number of objects, so no number of calls known at the start is
  enough; the number of resources left and then the number of objects left go down.
\<close>

interpretation stripping: descending_calls "strip_call D" returned sweep_order for D :: "'w dynamic_client"
proof
  fix p and w :: 'w
  show "\<not> returned p \<Longrightarrow> (fst (strip_call D (p, w)), p) \<in> sweep_order"
    by (cases "(D, p, w)" rule: strip_call.cases)
      (auto simp: sweep_order_def Let_def split: sum.split prod.split option.split)
  show "returned p \<Longrightarrow> strip_call D (p, w) = (p, w)" by (cases p) simp_all
qed (rule wf_sweep_order)

interpretation deleting: descending_calls "delete_call D" returned sweep_order for D :: "'w dynamic_client"
proof
  fix p and w :: 'w
  show "\<not> returned p \<Longrightarrow> (fst (delete_call D (p, w)), p) \<in> sweep_order"
    by (cases "(D, p, w)" rule: delete_call.cases) (auto simp: sweep_order_def split: sum.split)
  show "returned p \<Longrightarrow> delete_call D (p, w) = (p, w)" by (cases p) simp_all
qed (rule wf_sweep_order)

section \<open>Undisturbed runs\<close>

text \<open>With nobody else around, the calls add up to the routine.\<close>

fun resume :: "gvr list \<Rightarrow> goerr option \<times> 'w \<Rightarrow> sweep_pc \<times> 'w" where
  "resume gs (Some e, w) = (Finished (Some e), w)"
| "resume gs (None, w) = (Listing gs, w)"

lemma strip_call_items:
  "reaches (strip_call D) (Items g items gs, w) (resume gs (strip_items D g items w))"
proof (induction items arbitrary: w)
  case (Cons i items)
  show ?case
    by (rule reaches_call) (use Cons.IH in \<open>auto simp: Let_def split: prod.split option.split\<close>)
qed (rule reaches_call, simp)

lemma strip_call_resources:
  "strip_resources D gs w = (r, w') \<Longrightarrow> reaches (strip_call D) (Listing gs, w) (Finished r, w')"
proof (induction gs arbitrary: w)
  case (Cons g gs)
  show ?case
  proof (cases "dyn_list D g part_of_selector w")
    case (Inl e)
    with Cons show ?thesis by (intro reaches_call [of _ "(Listing (g # gs), w)"]) (auto split: if_splits)
  next
    case (Inr items)
    obtain r1 w1 where s: "strip_items D g items w = (r1, w1)" by fastforce
    with Cons Inr have "reaches (strip_call D) (resume gs (r1, w1)) (Finished r, w')"
      by (cases r1) auto
    with strip_call_items [of D g items gs w] s
    have "reaches (strip_call D) (Items g items gs, w) (Finished r, w')" by (auto intro: reaches_trans)
    with Inr show ?thesis by (intro reaches_call [of _ "(Listing (g # gs), w)"]) simp
  qed
qed (rule reaches_call, simp)

lemma delete_call_items:
  "reaches (delete_call D) (Items g items gs, w) (Listing gs, delete_items D g items w)"
proof (induction items arbitrary: w)
  case (Cons i items)
  show ?case by (rule reaches_call) (use Cons.IH in simp)
qed (rule reaches_call, simp)

lemma delete_call_resources:
  "reaches (delete_call D) (Listing gs, w) (Finished None, delete_resources D gs w)"
proof (induction gs arbitrary: w)
  case (Cons g gs)
  show ?case
    by (rule reaches_call)
      (use Cons.IH in \<open>auto split: sum.split intro: reaches_trans [OF delete_call_items]\<close>)
qed (rule reaches_call, simp)

section \<open>Sweeps that leave nothing behind\<close>

text \<open>
  \<open>at w g k\<close> says that an object the sweep has to deal with is stored under the key \<open>k\<close> of the
  resource \<open>g\<close>, \<open>todo i\<close> that the sweep acts on the listed object \<open>i\<close>. The list call shows a listed
  object for every such key; a call for an object deals with its key and adds no other. While
  nobody else adds such objects, none is left when the sweep returns success.
\<close>

definition none_added ::
  "('w \<Rightarrow> gvr \<Rightarrow> 'k \<Rightarrow> bool) \<Rightarrow> 'w \<Rightarrow> 'w \<Rightarrow> bool" where
  "none_added at w w' \<longleftrightarrow> (\<forall>g\<in>set runtime_gvrs. \<forall>k. at w' g k \<longrightarrow> at w g k)"

definition clear_but :: "(gvr \<Rightarrow> 'k \<Rightarrow> bool) \<Rightarrow> gvr set \<Rightarrow> bool" where
  "clear_but at G \<longleftrightarrow> (\<forall>g\<in>set runtime_gvrs - G. \<forall>k. \<not> at g k)"

fun pending ::
  "(unstructured \<Rightarrow> 'k) \<Rightarrow> ('w \<Rightarrow> gvr \<Rightarrow> 'k \<Rightarrow> bool) \<Rightarrow> (unstructured \<Rightarrow> bool) \<Rightarrow> sweep_pc \<times> 'w \<Rightarrow> bool" where
  "pending key at todo (Listing gs, w) =
     (set gs \<subseteq> set runtime_gvrs \<and> clear_but (at w) (set gs))"
| "pending key at todo (Items g items gs, w) =
     (set (g # gs) \<subseteq> set runtime_gvrs \<and> clear_but (at w) (set (g # gs)) \<and>
      (\<forall>k. at w g k \<longrightarrow> (\<exists>i\<in>set items. todo i \<and> key i = k)))"
| "pending key at todo (Finished r, w) = (r = None \<longrightarrow> clear_but (at w) {})"

lemma clear_but_added: "none_added at w w' \<Longrightarrow> clear_but (at w) G \<Longrightarrow> clear_but (at w') G"
  unfolding none_added_def clear_but_def by blast

lemma pending_others:
  assumes "none_added at w w'" and "pending key at todo (p, w)"
  shows "pending key at todo (p, w')"
proof (cases p)
  case (Items g items gs)
  with assms(1) have "at w g k" if "at w' g k" for k
    using that assms(2) unfolding none_added_def by simp
  with assms(2) clear_but_added [OF assms(1)] Items show ?thesis
    by simp
qed (use assms(2) clear_but_added [OF assms(1)] in auto)

locale clearing_sweep =
  fixes call :: "sweep_pc \<times> 'w \<Rightarrow> sweep_pc \<times> 'w"
    and key :: "unstructured \<Rightarrow> 'k"
    and at :: "'w \<Rightarrow> gvr \<Rightarrow> 'k \<Rightarrow> bool"
    and todo :: "unstructured \<Rightarrow> bool"
  assumes ends: "call (Listing [], w) = (Finished None, w)"
    and lists: "call (Listing (g # gs), w) = (p', w') \<Longrightarrow> (\<forall>g' k. at w' g' k \<longrightarrow> at w g' k) \<and>
      (p' = Listing gs \<and> (\<forall>k. \<not> at w' g k) \<or>
       (\<exists>items. p' = Items g items gs \<and>
          (\<forall>k. at w' g k \<longrightarrow> (\<exists>i\<in>set items. todo i \<and> key i = k))) \<or>
       (\<exists>e. p' = Finished (Some e)))"
    and goes_on: "call (Items g [] gs, w) = (Listing gs, w)"
    and deals: "call (Items g (i # items) gs, w) = (p', w') \<Longrightarrow>
      (\<exists>e. p' = Finished (Some e)) \<or> p' = Items g items gs \<and>
        (\<forall>g' k. at w' g' k \<longrightarrow> at w g' k \<and> \<not> (todo i \<and> g' = g \<and> k = key i))"
    and rests: "call (Finished r, w) = (Finished r, w)"
begin

lemma pending_listing:
  assumes "pending key at todo (Listing (g # gs), w)"
  shows "pending key at todo (call (Listing (g # gs), w))"
proof -
  obtain p' w' where c: "call (Listing (g # gs), w) = (p', w')" by fastforce
  from lists [OF c] have fewer: "at w' g' k \<Longrightarrow> at w g' k" for g' k by blast
  then have clear: "clear_but (at w') (set (g # gs))" using assms unfolding clear_but_def by (simp add: clear_but_def) blast
  from lists [OF c] consider "p' = Listing gs" "\<forall>k. \<not> at w' g k"
    | items where "p' = Items g items gs"
        "\<forall>k. at w' g k \<longrightarrow> (\<exists>i\<in>set items. todo i \<and> key i = k)"
    | e where "p' = Finished (Some e)"
    by blast
  then show ?thesis
    using assms c clear by cases (auto simp: clear_but_def)
qed

lemma pending_item:
  assumes "pending key at todo (Items g (i # items) gs, w)"
  shows "pending key at todo (call (Items g (i # items) gs, w))"
proof -
  obtain p' w' where c: "call (Items g (i # items) gs, w) = (p', w')" by fastforce
  from deals [OF c] show ?thesis
  proof
    assume d: "p' = Items g items gs \<and>
      (\<forall>g' k. at w' g' k \<longrightarrow> at w g' k \<and> \<not> (todo i \<and> g' = g \<and> k = key i))"
    then have fewer: "at w' g' k \<Longrightarrow> at w g' k" for g' k by blast
    have "clear_but (at w') (set (g # gs))"
      using assms fewer unfolding clear_but_def by (simp add: clear_but_def) blast
    moreover have "\<exists>j\<in>set items. todo j \<and> key j = k" if "at w' g k" for k
    proof -
      from d that have "at w g k" "\<not> (todo i \<and> k = key i)" by auto
      with assms show ?thesis by auto
    qed
    ultimately show ?thesis using assms d c by simp
  qed (use c in auto)
qed

lemma pending_call: "pending key at todo s \<Longrightarrow> pending key at todo (call s)"
proof (cases "(key, at, todo, s)" rule: pending.cases)
  case (1 _ _ _ gs w)
  assume "pending key at todo s"
  with 1 show ?thesis
    by (cases gs) (use pending_listing in \<open>auto simp: ends simp del: pending.simps(2)\<close>)
next
  case (2 _ _ _ g items gs w)
  assume p: "pending key at todo s"
  show ?thesis
  proof (cases items)
    case Nil
    with 2 p show ?thesis by (auto simp: goes_on clear_but_def)
  next
    case (Cons i items')
    with 2 p pending_item show ?thesis by (simp del: pending.simps)
  qed
qed (simp add: rests)

lemma pending_run:
  "interleaved call (none_added at) (Listing runtime_gvrs, w0) s \<Longrightarrow> pending key at todo s"
proof (induction rule: interleaved.induct)
  case start
  show ?case by (simp add: clear_but_def)
next
  case (own t)
  from own.IH show ?case by (rule pending_call)
next
  case (others p w w')
  then show ?case by (blast intro: pending_others)
qed

lemma clears:
  assumes "interleaved call (none_added at) (Listing runtime_gvrs, w0) (Finished None, w)"
    and "g \<in> set runtime_gvrs"
  shows "\<not> at w g k"
  using pending_run [OF assms(1)] assms(2) by (simp add: clear_but_def)

end

section \<open>What the API server promises when several clients write\<close>

text \<open>
  Every write gives the object the server's next revision as its resource version, and an update
  is carried out only when the version it was sent with is the one of the stored object
  (optimistic concurrency). \<open>version\<close> reads the resource version off an object, \<open>stamp\<close> is the
  server's bookkeeping on a write, \<open>revision\<close> the server's revision. As before a call that reports an error may or
  may not have been carried out.
\<close>

definition stored_at :: "contents \<Rightarrow> gvr \<Rightarrow> unstructured \<Rightarrow> bool" where
  "stored_at c g x \<longleftrightarrow> (\<exists>os. c g = Some os \<and> x \<in> set os)"

definition optimistic_laws ::
  "('w \<Rightarrow> contents) \<Rightarrow> ('w \<Rightarrow> nat) \<Rightarrow> (jmap \<Rightarrow> nat) \<Rightarrow> (nat \<Rightarrow> jmap \<Rightarrow> jmap) \<Rightarrow> 'w dynamic_client \<Rightarrow> bool" where
  "optimistic_laws content revision version stamp D \<longleftrightarrow>
     (\<forall>g w xs. dyn_list D g part_of_selector w = Inr xs \<longrightarrow>
        (\<exists>os. content w g = Some os \<and> xs = filter labelled os)) \<and>
     (\<forall>g w e. dyn_list D g part_of_selector w = Inl e \<and> is_not_found e \<longrightarrow> content w g = None) \<and>
     (\<forall>g ns ob w r w'. dyn_update D g ns ob w = (r, w') \<longrightarrow>
        r \<noteq> None \<and> content w' = content w \<and> revision w' = revision w \<or>
        (\<exists>x v. stored_at (content w) g x \<and> obj_key x = (ns, u_name ob) \<and>
           version (u_object x) = version (u_object ob) \<and> revision w < v \<and> v \<le> revision w' \<and>
           content w' = change_at g (ns, u_name ob)
             (\<lambda>_. stored (ob\<lparr>u_object := stamp v (u_object ob)\<rparr>)) (content w))) \<and>
     (\<forall>v m. version (stamp v m) = v)"

text \<open>What the other clients may do: anything, through the same server.\<close>

definition versions_kept :: "(jmap \<Rightarrow> nat) \<Rightarrow> contents \<Rightarrow> nat \<Rightarrow> bool" where
  "versions_kept version c n \<longleftrightarrow>
     distinct_objects c \<and> (\<forall>g x. stored_at c g x \<longrightarrow> version (u_object x) \<le> n)"

definition versions_move ::
  "('w \<Rightarrow> contents) \<Rightarrow> ('w \<Rightarrow> nat) \<Rightarrow> (jmap \<Rightarrow> nat) \<Rightarrow> 'w \<Rightarrow> 'w \<Rightarrow> bool" where
  "versions_move content revision version w w' \<longleftrightarrow>
     revision w \<le> revision w' \<and> versions_kept version (content w') (revision w') \<and>
     (\<forall>g x. stored_at (content w') g x \<longrightarrow>
        stored_at (content w) g x \<or> revision w < version (u_object x))"

text \<open>Somebody who gives the legacy finalizer to no further labelled training runtime.\<close>

definition legacy_at :: "contents \<Rightarrow> gvr \<Rightarrow> string \<times> string \<Rightarrow> bool" where
  "legacy_at c g k \<longleftrightarrow> (\<exists>x. stored_at c g x \<and> labelled x \<and> has_legacy x \<and> obj_key x = k)"

definition no_new_legacy :: "('w \<Rightarrow> contents) \<Rightarrow> 'w \<Rightarrow> 'w \<Rightarrow> bool" where
  "no_new_legacy content w w' \<longleftrightarrow>
     (\<forall>g\<in>set runtime_gvrs. \<forall>k. legacy_at (content w') g k \<longrightarrow> legacy_at (content w) g k)"

lemma stored_at_change:
  "stored_at (change_at g k f c) g' x \<longleftrightarrow>
     (if g' = g then (\<exists>y. stored_at c g y \<and> (if obj_key y = k then f y = Some x else y = x))
      else stored_at c g' x)"
  by (auto simp: stored_at_def change_at_def set_map_filter split: if_splits)

lemma list_lawD:
  assumes "optimistic_laws content revision version stamp D" and "dyn_list D g part_of_selector w = Inr xs"
  shows "x \<in> set xs \<longleftrightarrow> stored_at (content w) g x \<and> labelled x"
  using assms unfolding optimistic_laws_def stored_at_def by fastforce

lemma list_missingD:
  assumes "optimistic_laws content revision version stamp D"
    and "dyn_list D g part_of_selector w = Inl e" and "is_not_found e"
  shows "\<not> stored_at (content w) g x"
  using assms unfolding optimistic_laws_def stored_at_def by fastforce

lemma update_lawE:
  assumes "optimistic_laws content revision version stamp D" and "dyn_update D g ns ob w = (r, w')"
  obtains (untouched) "r \<noteq> None" "content w' = content w" "revision w' = revision w"
  | (written) x v where "stored_at (content w) g x" "obj_key x = (ns, u_name ob)"
      "version (u_object x) = version (u_object ob)" "revision w < v" "v \<le> revision w'"
      "content w' = change_at g (ns, u_name ob) (\<lambda>_. stored (ob\<lparr>u_object := stamp v (u_object ob)\<rparr>)) (content w)"
  using assms unfolding optimistic_laws_def by metis

section \<open>Nothing is written over\<close>

lemma distinct_change:
  assumes "distinct_objects c" and "\<And>x y. f x = Some y \<Longrightarrow> obj_key y = k"
  shows "distinct_objects (change_at g k f c)"
  using assms unfolding distinct_objects_def change_at_def
  by (auto intro!: distinct_map_filter split: if_splits)

text \<open>A write through the server is a move that the rely condition allows.\<close>

lemma update_moves:
  assumes "optimistic_laws content revision version stamp D" and "versions_kept version (content w) (revision w)"
    and "dyn_update D g (u_namespace ob) ob w = (r, w')"
  shows "versions_move content revision version w w'"
  using assms(1,3)
proof (cases rule: update_lawE)
  case untouched
  with assms(2) show ?thesis by (simp add: versions_move_def)
next
  case (written x v)
  have new: "version (stamp v m) = v" for m using assms(1) by (simp add: optimistic_laws_def)
  have "distinct_objects (content w')"
    using assms(2) unfolding written(6)
    by (intro distinct_change) (auto simp: versions_kept_def obj_key_def dest: key_stored)
  moreover have at: "stored_at (content w) g' y \<or> version (u_object y) = v" if "stored_at (content w') g' y" for g' y
    using that by (auto simp: written(6) stored_at_change new dest: key_stored split: if_splits)
  moreover have "version (u_object y) \<le> revision w'" if "stored_at (content w') g' y" for g' y
    using at [OF that] assms(2) written(4,5) by (fastforce simp: versions_kept_def)
  ultimately show ?thesis
    using written(4,5) unfolding versions_move_def versions_kept_def by fastforce
qed

lemma versions_move_refl:
  "versions_kept version (content w) (revision w) \<Longrightarrow> versions_move content revision version w w"
  by (simp add: versions_move_def)

lemma strip_call_moves:
  assumes "optimistic_laws content revision version stamp D" and "versions_kept version (content w) (revision w)"
    and "strip_call D (p, w) = (p', w')"
  shows "versions_move content revision version w w'"
proof (cases "w' = w")
  case True
  with assms(2) show ?thesis by (simp add: versions_move_refl)
next
  case False
  with assms(3) obtain g i "is" gs where "p = Items g (i # is) gs"
    by (cases "(D, p, w)" rule: strip_call.cases) (auto split: sum.splits if_splits)
  with False assms(3) obtain r where "dyn_update D g (u_namespace i)
      (i\<lparr>u_finalizers := filterFinalizer (u_finalizers i) legacyTrainerFinalizer\<rparr>) w = (r, w')"
    by (auto simp: Let_def split: if_splits prod.splits option.splits)
  with update_moves [OF assms(1,2), of g "i\<lparr>u_finalizers := filterFinalizer (u_finalizers i) legacyTrainerFinalizer\<rparr>"]
  show ?thesis by simp
qed

text \<open>
  The invariant: a stored object with the version of a listed one is the listed one, so what is
  known of the snapshot is known of the object an update replaces.
\<close>

definition snapshot_of :: "('w \<Rightarrow> contents) \<Rightarrow> ('w \<Rightarrow> nat) \<Rightarrow> (jmap \<Rightarrow> nat) \<Rightarrow> gvr \<Rightarrow> 'w \<Rightarrow> unstructured \<Rightarrow> bool" where
  "snapshot_of content revision version g w i \<longleftrightarrow>
     labelled i \<and> version (u_object i) \<le> revision w \<and>
     (\<forall>x. stored_at (content w) g x \<and> obj_key x = obj_key i \<and>
        version (u_object x) = version (u_object i) \<longrightarrow> x = i)"

fun snapshots_hold ::
  "('w \<Rightarrow> contents) \<Rightarrow> ('w \<Rightarrow> nat) \<Rightarrow> (jmap \<Rightarrow> nat) \<Rightarrow> sweep_pc \<times> 'w \<Rightarrow> bool" where
  "snapshots_hold content revision version (Listing gs, w) = (set gs \<subseteq> set runtime_gvrs)"
| "snapshots_hold content revision version (Items g items gs, w) =
     (g \<in> set runtime_gvrs \<and> set gs \<subseteq> set runtime_gvrs \<and>
      (\<forall>i\<in>set items. snapshot_of content revision version g w i))"
| "snapshots_hold content revision version (Finished r, w) = True"

lemma snapshot_moves:
  assumes "versions_move content revision version w w'" and "snapshot_of content revision version g w i"
  shows "snapshot_of content revision version g w' i"
  using assms unfolding versions_move_def snapshot_of_def by (metis le_trans linorder_not_le)

lemma snapshots_move:
  "versions_move content revision version w w' \<Longrightarrow> snapshots_hold content revision version (p, w) \<Longrightarrow>
     snapshots_hold content revision version (p, w')"
  by (cases p) (auto intro: snapshot_moves)

lemma listed_snapshot:
  assumes "optimistic_laws content revision version stamp D" and "versions_kept version (content w) (revision w)"
    and "dyn_list D g part_of_selector w = Inr items" and "i \<in> set items"
  shows "snapshot_of content revision version g w i"
proof -
  have i: "stored_at (content w) g i" "labelled i"
    using list_lawD [OF assms(1,3)] assms(4) by auto
  have "x = i" if "stored_at (content w) g x" "obj_key x = obj_key i" for x
    using that i(1) assms(2) unfolding versions_kept_def distinct_objects_def stored_at_def
    by (metis distinct_map inj_onD option.inject)
  with i assms(2) show ?thesis by (auto simp: snapshot_of_def versions_kept_def)
qed

lemma strip_call_snapshots:
  assumes "optimistic_laws content revision version stamp D" and "versions_kept version (content w) (revision w)"
    and "snapshots_hold content revision version (p, w)" and c: "strip_call D (p, w) = (p', w')"
  shows "snapshots_hold content revision version (p', w')"
proof -
  have "snapshots_hold content revision version (p', w)"
    using assms(3) c listed_snapshot [OF assms(1,2)]
    by (cases "(D, p, w)" rule: strip_call.cases)
      (auto simp: Let_def split: sum.splits if_splits prod.splits option.splits)
  with strip_call_moves [OF assms(1,2) c] show ?thesis by (rule snapshots_move)
qed

lemma interleaved_snapshots:
  assumes "optimistic_laws content revision version stamp D" and "versions_kept version (content w0) (revision w0)"
    and "interleaved (strip_call D) (versions_move content revision version) (Listing runtime_gvrs, w0) s"
  shows "versions_kept version (content (snd s)) (revision (snd s)) \<and> snapshots_hold content revision version s"
  using assms(3)
proof (induction rule: interleaved.induct)
  case (own t)
  obtain p w p' w' where t: "t = (p, w)" and c: "strip_call D t = (p', w')" by (metis prod.exhaust)
  with own have "versions_kept version (content w) (revision w)" "snapshots_hold content revision version (p, w)"
    by auto
  with strip_call_moves [OF assms(1), of w p p' w'] strip_call_snapshots [OF assms(1), of w p p' w'] c t
  show ?case by (simp add: versions_move_def)
next
  case (others p w w')
  then show ?case using snapshots_move [of content revision version w w' p] by (simp add: versions_move_def)
qed (simp add: assms(2))

section \<open>The legacy finalizer goes away\<close>

lemma no_new_legacy_alt: "no_new_legacy content = none_added (\<lambda>w. legacy_at (content w))"
  by (simp add: fun_eq_iff no_new_legacy_def none_added_def)

text \<open>An update that was carried out frees the object, and touches no other.\<close>

lemma stripping_frees:
  assumes "optimistic_laws content revision version stamp D"
    and "dyn_update D g (u_namespace i) (i\<lparr>u_finalizers := filterFinalizer (u_finalizers i) legacyTrainerFinalizer\<rparr>) w = (None, w')"
    and "legacy_at (content w') g' k"
  shows "legacy_at (content w) g' k \<and> \<not> (g' = g \<and> k = obj_key i)"
  using assms(1,2)
proof (cases rule: update_lawE)
  case (written x v)
  have "\<not> has_legacy y" if "stored (i\<lparr>u_finalizers := filterFinalizer (u_finalizers i) legacyTrainerFinalizer,
      u_object := m\<rparr>) = Some y" for y m
    using key_stored [OF that] by (simp add: has_legacy_def filterFinalizer_filter)
  with assms(3) show ?thesis
    by (auto simp: written(6) legacy_at_def stored_at_change obj_key_def split: if_splits)
qed simp

lemma strip_lists:
  assumes laws: "optimistic_laws content revision version stamp D"
    and "strip_call D (Listing (g # gs), w) = (p', w')"
  shows "(\<forall>g' k. legacy_at (content w') g' k \<longrightarrow> legacy_at (content w) g' k) \<and>
    (p' = Listing gs \<and> (\<forall>k. \<not> legacy_at (content w') g k) \<or>
     (\<exists>items. p' = Items g items gs \<and>
        (\<forall>k. legacy_at (content w') g k \<longrightarrow> (\<exists>i\<in>set items. has_legacy i \<and> obj_key i = k))) \<or>
     (\<exists>e. p' = Finished (Some e)))"
proof (cases "dyn_list D g part_of_selector w")
  case (Inl e)
  with list_missingD [OF laws Inl] assms(2) show ?thesis
    by (auto simp: legacy_at_def split: if_splits)
next
  case (Inr items)
  with list_lawD [OF laws Inr] assms(2) show ?thesis by (auto simp: legacy_at_def)
qed

lemma strip_deals:
  assumes laws: "optimistic_laws content revision version stamp D"
    and call: "strip_call D (Items g (i # items) gs, w) = (p', w')"
  shows "(\<exists>e. p' = Finished (Some e)) \<or> p' = Items g items gs \<and>
    (\<forall>g' k. legacy_at (content w') g' k \<longrightarrow>
       legacy_at (content w) g' k \<and> \<not> (has_legacy i \<and> g' = g \<and> k = obj_key i))"
proof (cases "has_legacy i")
  case False
  with call show ?thesis by (auto simp: filterFinalizer_length_iff has_legacy_def)
next
  case True
  let ?i = "i\<lparr>u_finalizers := filterFinalizer (u_finalizers i) legacyTrainerFinalizer\<rparr>"
  obtain r w1 where u: "dyn_update D g (u_namespace i) ?i w = (r, w1)" by fastforce
  show ?thesis
  proof (cases r)
    case None
    with True u call have "p' = Items g items gs" "w' = w1"
      by (auto simp: filterFinalizer_length_iff has_legacy_def)
    with stripping_frees [OF laws u [unfolded None]] show ?thesis by blast
  qed (use True u call in \<open>auto simp: filterFinalizer_length_iff has_legacy_def\<close>)
qed

lemma strip_clearing:
  "optimistic_laws content revision version stamp D \<Longrightarrow>
     clearing_sweep (strip_call D) obj_key (\<lambda>w. legacy_at (content w)) has_legacy"
  by unfold_locales (erule (1) strip_lists | erule (1) strip_deals | simp)+

section \<open>A server with these properties\<close>

definition object_version :: "jmap \<Rightarrow> nat" where
  "object_version m = (case map_of m ''resourceVersion'' of Some (JInt n) \<Rightarrow> nat n | _ \<Rightarrow> 0)"

definition stamp_version :: "nat \<Rightarrow> jmap \<Rightarrow> jmap" where
  "stamp_version v m = AList.update ''resourceVersion'' (JInt (int v)) m"

definition find_object :: "contents \<Rightarrow> gvr \<Rightarrow> string \<times> string \<Rightarrow> unstructured option" where
  "find_object c g k = (case c g of None \<Rightarrow> None | Some os \<Rightarrow> find (\<lambda>x. obj_key x = k) os)"

definition versioned_client :: "(nat \<times> contents) dynamic_client" where
  "versioned_client =
     \<lparr>dyn_list = (\<lambda>g sel (n, c). dyn_list mem_client g sel c),
      dyn_update = (\<lambda>g ns ob (n, c). case find_object c g (ns, u_name ob) of
        None \<Rightarrow> (Some (Status NotFound ''not found''), n, c)
      | Some x \<Rightarrow> if object_version (u_object x) \<noteq> object_version (u_object ob)
                  then (Some (Status Conflict ''the object has been modified''), n, c)
                  else (None, Suc n, change_at g (ns, u_name ob)
                    (\<lambda>_. stored (ob\<lparr>u_object := stamp_version (Suc n) (u_object ob)\<rparr>)) c)),
      dyn_delete = (\<lambda>g ns n (m, c). map_prod id (Pair m) (dyn_delete mem_client g ns n c))\<rparr>"

lemma version_stamp: "object_version (stamp_version v m) = v"
  by (simp add: object_version_def stamp_version_def update_conv)

lemma find_object_Some: "find_object c g k = Some x \<Longrightarrow> stored_at c g x \<and> obj_key x = k"
  by (auto simp: find_object_def stored_at_def find_Some_iff split: option.splits)

lemma versioned_client_laws: "optimistic_laws snd fst object_version stamp_version versioned_client"
proof -
  have "r \<noteq> None \<and> snd w' = snd w \<and> fst w' = fst w \<or>
      (\<exists>x v. stored_at (snd w) g x \<and> obj_key x = (ns, u_name ob) \<and>
        object_version (u_object x) = object_version (u_object ob) \<and> fst w < v \<and> v \<le> fst w' \<and>
        snd w' = change_at g (ns, u_name ob) (\<lambda>_. stored (ob\<lparr>u_object := stamp_version v (u_object ob)\<rparr>)) (snd w))"
    if "dyn_update versioned_client g ns ob w = (r, w')" for g ns ob w r w'
    using that find_object_Some [of "snd w" g "(ns, u_name ob)"]
    by (cases w) (auto simp: versioned_client_def split: option.splits if_splits, metis lessI order_refl)
  moreover have "dyn_list versioned_client g sel w = dyn_list mem_client g sel (snd w)" for g sel w
    by (cases w) (simp add: versioned_client_def)
  ultimately show ?thesis
    using mem_client_laws by (auto simp: optimistic_laws_def dynamic_laws_def version_stamp)
qed

interpretation versioned_strip: clearing_sweep "strip_call versioned_client" obj_key "\<lambda>w. legacy_at (snd w)"
    has_legacy
  by (rule strip_clearing [OF versioned_client_laws])

definition busy_world :: "nat \<times> contents" where
  "busy_world = (0, (\<lambda>_. None)(runtime_gvrs ! 0 \<mapsto>
     [sample_runtime ''torch'' [(PlatformPartOf, trainerPartOf)] [legacyTrainerFinalizer, ''x''] False]))"

text \<open>Somebody marks the runtime before it is listed.\<close>

definition somebody :: "nat \<Rightarrow> nat \<times> contents \<Rightarrow> nat \<times> contents" where
  "somebody i w = (if i = 0 then (1, (snd w)(runtime_gvrs ! 0 \<mapsto>
     [sample_runtime ''torch'' [(PlatformPartOf, trainerPartOf)] [legacyTrainerFinalizer, ''y''] True
        \<lparr>u_object := [(''resourceVersion'', JInt 1)]\<rparr>])) else w)"

lemma busy_kept: "versions_kept object_version (snd busy_world) (fst busy_world)"
  by (auto simp: versions_kept_def distinct_objects_def stored_at_def busy_world_def sample_runtime_def
      object_version_def split: if_splits)

lemma labelled_sample [simp]: "labelled (sample_runtime n [(PlatformPartOf, trainerPartOf)] fs b)"
  by (simp add: labelled_def sample_runtime_def)

lemma somebody_moves: "versions_move snd fst object_version busy_world (somebody 0 busy_world)"
  by (auto simp: versions_move_def versions_kept_def distinct_objects_def stored_at_def busy_world_def
      somebody_def sample_runtime_def object_version_def split: if_splits)

lemma somebody_no_legacy: "no_new_legacy snd busy_world (somebody 0 busy_world)"
  by (auto simp: no_new_legacy_def legacy_at_def stored_at_def busy_world_def somebody_def has_legacy_def
      obj_key_def labelled_def sample_runtime_def split: if_splits)

text \<open>The run: the first list already sees the change; the update is accepted.\<close>

definition marked_world :: "nat \<times> contents" where
  "marked_world = somebody 0 busy_world"

definition stripped_world :: "nat \<times> contents" where
  "stripped_world = (2, (snd marked_world)(runtime_gvrs ! 0 \<mapsto>
     [sample_runtime ''torch'' [(PlatformPartOf, trainerPartOf)] [''y''] True
        \<lparr>u_object := [(''resourceVersion'', JInt 2)]\<rparr>]))"

definition marked_torch :: unstructured where
  "marked_torch = sample_runtime ''torch'' [(PlatformPartOf, trainerPartOf)] [legacyTrainerFinalizer, ''y''] True
     \<lparr>u_object := [(''resourceVersion'', JInt 1)]\<rparr>"

lemma sample_calls_run:
  "strip_call versioned_client (Listing runtime_gvrs, marked_world) =
     (Items (runtime_gvrs ! 0) [marked_torch] [runtime_gvrs ! 1], marked_world)"
  "strip_call versioned_client (Items (runtime_gvrs ! 0) [marked_torch] [runtime_gvrs ! 1], marked_world) =
     (Items (runtime_gvrs ! 0) [] [runtime_gvrs ! 1], stripped_world)"
  "strip_call versioned_client (Listing [runtime_gvrs ! 1], stripped_world) = (Listing [], stripped_world)"
  by (simp add: versioned_client_def mem_client_def marked_world_def somebody_def runtime_gvrs_def
      labelled_def sample_runtime_def marked_torch_def)
    (simp add: versioned_client_def marked_world_def somebody_def sample_runtime_def legacyTrainerFinalizer_def
      find_object_def obj_key_def stripped_world_def change_at_def stored_def map_filter_simps
      stamp_version_def object_version_def fun_eq_iff marked_torch_def,
     simp add: versioned_client_def mem_client_def stripped_world_def marked_world_def somebody_def busy_world_def
      runtime_gvrs_def clusterTrainingRuntimeResource_def trainingRuntimeResource_def)

lemma sample_listed:
  assumes "rely busy_world (somebody 0 busy_world)"
  shows "interleaved (strip_call versioned_client) rely (Listing runtime_gvrs, busy_world)
    (Items (runtime_gvrs ! 0) [marked_torch] [runtime_gvrs ! 1], marked_world)"
proof -
  have "interleaved (strip_call versioned_client) rely (Listing runtime_gvrs, busy_world)
      (strip_call versioned_client (Listing runtime_gvrs, marked_world))"
    using assms unfolding marked_world_def by (blast intro: interleaved.intros)
  then show ?thesis unfolding sample_calls_run .
qed

section \<open>Properties\<close>

text \<open>
  Termination of the two sweeps over the training runtimes under interference: whatever other
  clients do to the cluster between any two API calls, and whatever the calls return,
  \<^verbatim>\<open>removeRuntimeFinalizers\<close> and \<^verbatim>\<open>cleanupTrainerResources\<close> return after finitely many calls, and when
  nobody interferes they return exactly the outcome of the routine run in one go.
\<close>

lemma runtime_sweeps_terminate:
  "(\<exists>n r. \<forall>m\<ge>n. fst (run_calls (strip_call D) env m (Listing runtime_gvrs, w)) = Finished r) \<and>
   (\<exists>n r. \<forall>m\<ge>n. fst (run_calls (delete_call D) env m (Listing runtime_gvrs, w)) = Finished r) \<and>
   (\<exists>n. run_calls (strip_call D) (\<lambda>i w. w) n (Listing runtime_gvrs, w) =
      (case removeRuntimeFinalizers D w of (r, w') \<Rightarrow> (Finished r, w'))) \<and>
   (\<exists>n. run_calls (delete_call D) (\<lambda>i w. w) n (Listing runtime_gvrs, w) =
      (Finished None, cleanupTrainerResources D w))"
proof -
  have ret: "returned p \<longleftrightarrow> (\<exists>r. p = Finished r)" for p by (cases p) auto
  obtain r w' where rw: "removeRuntimeFinalizers D w = (r, w')" by fastforce
  then have "reaches (strip_call D) (Listing runtime_gvrs, w) (Finished r, w')"
    by (simp add: removeRuntimeFinalizers_def strip_call_resources)
  with rw stripping.ends_for_good [of D env "(Listing runtime_gvrs, w)"]
    deleting.ends_for_good [of D env "(Listing runtime_gvrs, w)"] delete_call_resources [of D runtime_gvrs w]
  show ?thesis
    by (auto simp: ret run_calls_quiet reaches_def cleanupTrainerResources_def)
qed

lemma runtime_sweeps_terminate_witness:
  "\<exists>n r. fst (run_calls (strip_call versioned_client) somebody n (Listing runtime_gvrs, busy_world)) = Finished r"
  using runtime_sweeps_terminate [of versioned_client somebody busy_world] by blast

text \<open>
  C6: No lost update: while \<^verbatim>\<open>removeRuntimeFinalizers\<close> works through its snapshot, other clients may
  change the training runtimes at any time. Each call it makes either leaves all objects as they
  are or replaces one labelled training runtime by the object that is stored at that moment, not
  the one listed earlier, less the legacy finalizer: a label, another finalizer or a
  specification that somebody changed in the meantime is never reverted.
\<close>

theorem stripping_loses_no_update:
  assumes "optimistic_laws content revision version stamp D"
    and "versions_kept version (content w0) (revision w0)"
    and "interleaved (strip_call D) (versions_move content revision version) (Listing runtime_gvrs, w0) (p, w)"
    and "strip_call D (p, w) = (p', w')"
  shows "content w' = content w \<or>
    (\<exists>g\<in>set runtime_gvrs. \<exists>x v. stored_at (content w) g x \<and> labelled x \<and>
       legacyTrainerFinalizer \<in> set (u_finalizers x) \<and>
       content w' = change_at g (obj_key x)
         (\<lambda>_. stored (x\<lparr>u_finalizers := [f \<leftarrow> u_finalizers x. f \<noteq> legacyTrainerFinalizer],
                       u_object := stamp v (u_object x)\<rparr>)) (content w))"
proof (cases "content w' = content w")
  case False
  note hold = conjunct2 [OF interleaved_snapshots [OF assms(1-3)]]
  from False assms(4) obtain g i "is" gs where p: "p = Items g (i # is) gs"
    by (cases "(D, p, w)" rule: strip_call.cases) (auto split: sum.splits if_splits)
  let ?i = "i\<lparr>u_finalizers := filterFinalizer (u_finalizers i) legacyTrainerFinalizer\<rparr>"
  from False assms(4) p obtain r where u: "dyn_update D g (u_namespace i) ?i w = (r, w')"
    and leg: "legacyTrainerFinalizer \<in> set (u_finalizers i)"
    by (auto simp: Let_def filterFinalizer_length_iff split: if_splits prod.splits option.splits)
  have g: "g \<in> set runtime_gvrs" and snap: "snapshot_of content revision version g w i"
    using hold p by auto
  show ?thesis
    using assms(1) u
  proof (cases rule: update_lawE)
    case (written x v)
    with snap have "x = i" by (simp add: snapshot_of_def obj_key_def)
    with written snap leg g show ?thesis
      by (auto simp: snapshot_of_def obj_key_def filterFinalizer_filter intro!: disjI2 bexI [of _ g] exI [of _ i])
  qed (use False in simp)
qed simp

theorem stripping_loses_no_update_witness:
  "\<exists>g\<in>set runtime_gvrs. \<exists>x v. stored_at (snd marked_world) g x \<and> labelled x \<and>
     legacyTrainerFinalizer \<in> set (u_finalizers x) \<and>
     snd stripped_world = change_at g (obj_key x)
       (\<lambda>_. stored (x\<lparr>u_finalizers := [f \<leftarrow> u_finalizers x. f \<noteq> legacyTrainerFinalizer],
                     u_object := stamp_version v (u_object x)\<rparr>)) (snd marked_world)"
proof -
  have "snd stripped_world \<noteq> snd marked_world"
  proof
    assume "snd stripped_world = snd marked_world"
    from fun_cong [OF this, of "runtime_gvrs ! 0"] show False
      by (simp add: stripped_world_def marked_world_def somebody_def sample_runtime_def)
  qed
  with stripping_loses_no_update [OF versioned_client_laws busy_kept
      sample_listed [where rely = "versions_move snd fst object_version", OF somebody_moves] sample_calls_run(2)] show ?thesis by blast
qed

text \<open>
  C7: The legacy finalizer goes away although others write: as long as nobody gives it to further
  labelled training runtimes (the new control plane, deployed before, does not), a
  \<^verbatim>\<open>removeRuntimeFinalizers\<close> that returns success leaves no labelled training runtime with it, also
  among those created, changed or deleted while it ran.
\<close>

theorem stripping_complete_under_interference:
  assumes "optimistic_laws content revision version stamp D"
    and "interleaved (strip_call D) (no_new_legacy content) (Listing runtime_gvrs, w0) (Finished None, w)"
  shows "\<forall>g\<in>set runtime_gvrs. \<forall>os. content w g = Some os \<longrightarrow>
    (\<forall>x\<in>set os. labelled x \<longrightarrow> legacyTrainerFinalizer \<notin> set (u_finalizers x))"
proof -
  have "\<not> legacy_at (content w) g k" if "g \<in> set runtime_gvrs" for g k
    using clearing_sweep.clears [OF strip_clearing [OF assms(1)]
        assms(2) [unfolded no_new_legacy_alt] that] .
  then show ?thesis
    unfolding legacy_at_def has_legacy_def stored_at_def by blast
qed

theorem stripping_complete_under_interference_witness:
  "interleaved (strip_call versioned_client) (no_new_legacy snd) (Listing runtime_gvrs, busy_world)
     (Finished None, stripped_world) \<and>
   (\<exists>x. snd stripped_world (runtime_gvrs ! 0) = Some [x] \<and> labelled x \<and>
      legacyTrainerFinalizer \<notin> set (u_finalizers x))"
proof -
  have calls: "(strip_call versioned_client ^^ 4) (Items (runtime_gvrs ! 0) [marked_torch] [runtime_gvrs ! 1], marked_world) =
      (Finished None, stripped_world)"
    by (simp add: numeral_eq_Suc sample_calls_run [unfolded One_nat_def] del: strip_call.simps(2,4))
  have own: "interleaved (strip_call versioned_client) rely s t \<Longrightarrow>
      interleaved (strip_call versioned_client) rely s ((strip_call versioned_client ^^ n) t)" for rely s t n
    by (induction n) (simp_all add: interleaved.own)
  have run: "interleaved (strip_call versioned_client) (no_new_legacy snd) (Listing runtime_gvrs, busy_world)
     (Finished None, stripped_world)"
    using own [OF sample_listed [where rely = "no_new_legacy snd", OF somebody_no_legacy], of 4] unfolding calls .
  have "runtime_gvrs ! 0 \<in> set runtime_gvrs" by (simp add: runtime_gvrs_def)
  moreover obtain x where "snd stripped_world (runtime_gvrs ! 0) = Some [x]" "labelled x"
    by (simp add: stripped_world_def labelled_def sample_runtime_def)
  ultimately show ?thesis
    using run stripping_complete_under_interference [OF versioned_client_laws run] by auto
qed

end
