(* ===== verification/Teardown_Interleaving.thy ===== *)
theory Teardown_Interleaving
  imports Runtime_Interleaving Reconciler
begin

text \<open>
  The finalizer \<^verbatim>\<open>cleanup\<close> (internal/controller/trainer_controller.go) one API call at a time: the
  removal of the legacy finalizers, the deletion of the training runtimes and the collector, while
  others change the cluster between the calls; and the log lines with which the deletion skips a
  resource it cannot list and an object it cannot delete.
\<close>

section \<open>The calls\<close>

datatype teardown_pc =
    Stripping sweep_pc
  | Deleting sweep_pc
  | Collecting
  | Finalized "goerr option"

fun teardown_call ::
  "('w, 'v) operator_env \<Rightarrow> Trainer \<Rightarrow> teardown_pc \<times> 'w \<Rightarrow> teardown_pc \<times> 'w" where
  "teardown_call E trainer (Stripping p, w) =
     (case p of
        Finished (Some e) \<Rightarrow> (Finalized (Some e), w)
      | Finished None \<Rightarrow> (Deleting (Listing runtime_gvrs), w)
      | _ \<Rightarrow> map_prod Stripping id (strip_call (oe_dynamic E) (p, w)))"
| "teardown_call E trainer (Deleting p, w) =
     (if returned p then (Collecting, w)
      else map_prod Deleting id (delete_call (oe_dynamic E) (p, w)))"
| "teardown_call E trainer (Collecting, w) =
     map_prod Finalized id
       (oe_collect E False (resolveNamespace trainer) [clusterTrainingRuntimeGVK, trainingRuntimeGVK]
          trainer w)"
| "teardown_call E trainer (Finalized r, w) = (Finalized r, w)"

section \<open>It ends\<close>

fun finalized :: "teardown_pc \<Rightarrow> bool" where
  "finalized (Finalized r) = True"
| "finalized _ = False"

fun teardown_rank :: "teardown_pc \<Rightarrow> nat \<times> nat \<times> nat" where
  "teardown_rank (Stripping p) = (3, sweep_rank p)"
| "teardown_rank (Deleting p) = (2, sweep_rank p)"
| "teardown_rank Collecting = (1, 0, 0)"
| "teardown_rank (Finalized r) = (0, 0, 0)"

definition teardown_order :: "(teardown_pc \<times> teardown_pc) set" where
  "teardown_order = inv_image (less_than <*lex*> less_than <*lex*> less_than) teardown_rank"

lemma sweep_orderD:
  "(p, q) \<in> sweep_order \<Longrightarrow> (sweep_rank p, sweep_rank q) \<in> less_than <*lex*> less_than"
  by (simp add: sweep_order_def)

lemma teardown_call_descends:
  assumes "\<not> finalized p"
  shows "(fst (teardown_call E trainer (p, w)), p) \<in> teardown_order"
proof (cases p)
  case (Stripping q)
  show ?thesis
  proof (cases "returned q")
    case True
    then show ?thesis using Stripping
      by (cases q) (auto simp: teardown_order_def split: option.split)
  next
    case False
    then have "teardown_call E trainer (p, w) =
        map_prod Stripping id (strip_call (oe_dynamic E) (q, w))"
      using Stripping by (cases q) auto
    with sweep_orderD [OF stripping.descends [OF False, of "oe_dynamic E" w]] Stripping
    show ?thesis by (auto simp: teardown_order_def)
  qed
next
  case (Deleting q)
  show ?thesis
  proof (cases "returned q")
    case False
    with sweep_orderD [OF deleting.descends [OF False, of "oe_dynamic E" w]] Deleting
    show ?thesis by (auto simp: teardown_order_def)
  qed (use Deleting in \<open>simp add: teardown_order_def\<close>)
qed (use assms in \<open>simp_all add: teardown_order_def\<close>)

interpretation teardown: descending_calls "teardown_call E trainer" finalized teardown_order
  for E :: "('w, 'v) operator_env" and trainer
proof
  fix p and w :: 'w
  show "wf teardown_order" by (simp add: teardown_order_def wf_lex_prod)
  show "(fst (teardown_call E trainer (p, w)), p) \<in> teardown_order" if "\<not> finalized p"
    using that by (rule teardown_call_descends)
  show "teardown_call E trainer (p, w) = (p, w)" if "finalized p"
    using that by (cases p) simp_all
qed

section \<open>Undisturbed it is the finalizer\<close>

lemma reaches_lift:
  assumes "reaches f (p, w) (q, w')"
    and "\<And>p w. \<not> returned p \<Longrightarrow> g (A p, w) = map_prod A id (f (p, w))"
    and "\<And>p w. returned p \<Longrightarrow> f (p, w) = (p, w)"
  shows "reaches g (A p, w) (A q, w')"
proof -
  have "reaches g (A p, w) (map_prod A id ((f ^^ n) (p, w)))" for n
  proof (induction n arbitrary: p w)
    case (Suc n)
    show ?case
    proof (cases "returned p")
      case True
      then have "(f ^^ Suc n) (p, w) = (p, w)" by (induction n) (simp_all add: assms(3))
      then show ?thesis by simp
    next
      case False
      obtain p1 w1 where c: "f (p, w) = (p1, w1)" by fastforce
      with Suc [of p1 w1] have "reaches g (g (A p, w)) (map_prod A id ((f ^^ n) (f (p, w))))"
        by (simp add: assms(2) [OF False] id_def)
      then show ?thesis by (simp only: funpow_Suc_right comp_apply) (rule reaches_call)
    qed
  qed simp
  moreover obtain n where "(f ^^ n) (p, w) = (q, w')" using assms(1) by (auto simp: reaches_def)
  ultimately show ?thesis by (metis map_prod_simp id_apply)
qed

lemma strip_goes_on:
  "\<not> returned p \<Longrightarrow> teardown_call E trainer (Stripping p, w) =
     map_prod Stripping id (strip_call (oe_dynamic E) (p, w))"
  by (cases p) simp_all

lemma delete_goes_on:
  "\<not> returned p \<Longrightarrow> teardown_call E trainer (Deleting p, w) =
     map_prod Deleting id (delete_call (oe_dynamic E) (p, w))"
  by simp

lemma teardown_strips:
  assumes "removeRuntimeFinalizers (oe_dynamic E) w = (r, w')"
  shows "reaches (teardown_call E trainer) (Stripping (Listing runtime_gvrs), w)
    (Stripping (Finished r), w')"
  using strip_call_resources [OF assms [unfolded removeRuntimeFinalizers_def]]
    strip_goes_on stripping.stays
  by (rule reaches_lift)

lemma teardown_deletes:
  "reaches (teardown_call E trainer) (Deleting (Listing runtime_gvrs), w)
    (Deleting (Finished None), cleanupTrainerResources (oe_dynamic E) w)"
  unfolding cleanupTrainerResources_def
  using delete_call_resources delete_goes_on deleting.stays by (rule reaches_lift)

lemma teardown_undisturbed:
  "reaches (teardown_call E (Instance (st_req s))) (Stripping (Listing runtime_gvrs), st_cluster s)
     (case cleanup E s of (r, s') \<Rightarrow> (Finalized r, st_cluster s'))"
proof -
  let ?call = "teardown_call E (Instance (st_req s))" and ?D = "oe_dynamic E"
  obtain r1 w1 where strip: "removeRuntimeFinalizers ?D (st_cluster s) = (r1, w1)" by fastforce
  note first = teardown_strips [OF strip, of "Instance (st_req s)"]
  show ?thesis
  proof (cases r1)
    case (Some e)
    then have "cleanup E s = (Some e, s\<lparr>st_cluster := w1\<rparr>)" using strip by (simp add: cleanup_def)
    moreover have "reaches ?call (Stripping (Finished r1), w1) (Finalized (Some e), w1)"
      by (rule reaches_call) (simp add: Some)
    ultimately show ?thesis using reaches_trans [OF first] by simp
  next
    case None
    let ?w2 = "cleanupTrainerResources ?D w1"
    have strips: "reaches ?call (Stripping (Finished r1), w1) (Deleting (Listing runtime_gvrs), w1)"
      by (rule reaches_call) (simp add: None)
    have one: "?call (Deleting (Finished None), ?w2) = (Collecting, ?w2)" by simp
    have collects: "reaches ?call (Deleting (Finished None), ?w2) (?call (Collecting, ?w2))"
      by (rule reaches_call, unfold one, rule reaches_call, rule reaches_refl)
    note reaches_trans [OF first reaches_trans [OF strips reaches_trans [OF teardown_deletes collects]]]
    moreover have "?call (Collecting, ?w2) =
        (case cleanup E s of (r, s') \<Rightarrow> (Finalized r, st_cluster s'))"
      using strip None by (simp add: cleanup_def Let_def split: prod.splits)
    ultimately show ?thesis by simp
  qed
qed

lemma reaches_interleaved: "reaches call s t \<Longrightarrow> interleaved call rely s t"
  by (auto simp: reaches_def funpow_interleaved)

lemma teardown_reaches_collector:
  assumes "removeRuntimeFinalizers (oe_dynamic E) w = (None, w')"
  shows "reaches (teardown_call E trainer) (Stripping (Listing runtime_gvrs), w)
    (Collecting, cleanupTrainerResources (oe_dynamic E) w')"
proof -
  have s: "reaches (teardown_call E trainer) (Stripping (Finished None), w') (Deleting (Listing runtime_gvrs), w')"
    by (rule reaches_call) simp
  have d: "reaches (teardown_call E trainer) (Deleting (Finished None), u) (Collecting, u)" for u
    by (rule reaches_call) simp
  from reaches_trans [OF teardown_strips [OF assms] reaches_trans [OF s reaches_trans [OF teardown_deletes d]]]
  show ?thesis .
qed

text \<open>
  C9: The finalizer ends under interference: whatever others do to the cluster between its API
  calls and whatever the calls return, \<^verbatim>\<open>cleanup\<close> returns after finitely many calls; and when
  nobody interferes it returns the outcome and leaves the cluster of the routine run in one go.
\<close>

theorem teardown_terminates:
  "(\<exists>n r. \<forall>m\<ge>n. fst (run_calls (teardown_call E trainer) env m (Stripping (Listing runtime_gvrs), w)) =
      Finalized r) \<and>
   (\<exists>n. run_calls (teardown_call E (Instance (st_req s))) (\<lambda>i w. w) n
        (Stripping (Listing runtime_gvrs), st_cluster s) =
      (case cleanup E s of (r, s') \<Rightarrow> (Finalized r, st_cluster s')))"
proof -
  have fin: "finalized p \<longleftrightarrow> (\<exists>r. p = Finalized r)" for p by (cases p) auto
  show ?thesis
    using teardown.ends_for_good [of E trainer env "(Stripping (Listing runtime_gvrs), w)"]
      teardown_undisturbed [of E s]
    unfolding fin run_calls_quiet reaches_def by blast
qed

theorem teardown_terminates_witness:
  "\<exists>n r. fst (run_calls (teardown_call idle_env (Instance (st_req idle_state))) (\<lambda>i w. w) n
     (Stripping (Listing runtime_gvrs), sample_runtimes)) = Finalized r"
  using teardown_terminates [of idle_env "Instance (st_req idle_state)" "\<lambda>i w. w" sample_runtimes idle_state]
  by blast

section \<open>What the deletion skips\<close>

text \<open>
  The two log lines of \<^verbatim>\<open>cleanupTrainerResources\<close>, with the resource and the name they print: a resource
  that cannot be listed, for whatever reason, and an object whose deletion fails with anything but
  a missing object. The call is skipped and the routine goes on.
\<close>

datatype skip_entry =
    Cannot_list gvr
  | Failed_to_delete gvr string

fun delete_log :: "'w dynamic_client \<Rightarrow> sweep_pc \<times> 'w \<Rightarrow> skip_entry list" where
  "delete_log D (Listing (g # gs), w) =
     (case dyn_list D g part_of_selector w of Inl e \<Rightarrow> [Cannot_list g] | Inr items \<Rightarrow> [])"
| "delete_log D (Items g (item # items) gs, w) =
     (if u_deleting item then []
      else case fst (dyn_delete D g (u_namespace item) (u_name item) w) of
             Some e \<Rightarrow> (if \<not> is_not_found e then [Failed_to_delete g (u_name item)] else [])
           | None \<Rightarrow> [])"
| "delete_log D (p, w) = []"

fun teardown_log :: "('w, 'v) operator_env \<Rightarrow> teardown_pc \<times> 'w \<Rightarrow> skip_entry list" where
  "teardown_log E (Deleting p, w) = delete_log (oe_dynamic E) (p, w)"
| "teardown_log E (p, w) = []"

text \<open>The calls with the log.\<close>

fun logged_delete ::
  "'w dynamic_client \<Rightarrow> sweep_pc \<times> 'w \<times> skip_entry list \<Rightarrow> sweep_pc \<times> 'w \<times> skip_entry list" where
  "logged_delete D (p, w, l) = (case delete_call D (p, w) of (p', w') \<Rightarrow> (p', w', l @ delete_log D (p, w)))"

fun logged_call ::
  "('w, 'v) operator_env \<Rightarrow> Trainer \<Rightarrow> teardown_pc \<times> 'w \<times> skip_entry list \<Rightarrow> teardown_pc \<times> 'w \<times> skip_entry list" where
  "logged_call E trainer (p, w, l) =
     (case teardown_call E trainer (p, w) of (p', w') \<Rightarrow> (p', w', l @ teardown_log E (p, w)))"

text \<open>The log is written only: a run without it is a run with it.\<close>

lemma reaches_logged:
  assumes "reaches (teardown_call E trainer) (p, w) (p', w')"
  shows "\<exists>l'. reaches (logged_call E trainer) (p, w, l) (p', w', l')"
proof -
  have "\<exists>l'. (logged_call E trainer ^^ n) (p, w, l) = (q, v, l')" if "(teardown_call E trainer ^^ n) (p, w) = (q, v)" for n q v
    using that
  proof (induction n arbitrary: q v)
    case (Suc n)
    obtain q1 v1 where "(teardown_call E trainer ^^ n) (p, w) = (q1, v1)" by fastforce
    with Suc.IH [OF this] Suc.prems show ?case by auto
  qed simp
  with assms show ?thesis unfolding reaches_def by metis
qed

section \<open>What the collector finds\<close>

text \<open>
  What the API server promises of a deletion by name: it marks the object stored under that name,
  with whatever book-keeping (\<open>bump\<close>) the server does on the rest of the object; a call that reports an
  error may or may not have been carried out, and one that reports a missing object has found none.
\<close>

definition delete_laws :: "('w \<Rightarrow> contents) \<Rightarrow> 'w dynamic_client \<Rightarrow> bool" where
  "delete_laws content D \<longleftrightarrow>
     (\<forall>g ns n w r w'. dyn_delete D g ns n w = (r, w') \<longrightarrow>
        (\<exists>bump. content w' = change_at g (ns, n)
           (\<lambda>x. stored (x\<lparr>u_deleting := True, u_object := bump (u_object x)\<rparr>)) (content w)) \<or>
        r \<noteq> None \<and> content w' = content w) \<and>
     (\<forall>g ns n w e w'. dyn_delete D g ns n w = (Some e, w') \<and> is_not_found e \<longrightarrow>
        content w' = content w \<and> (\<forall>x. stored_at (content w) g x \<longrightarrow> obj_key x \<noteq> (ns, n)))"

text \<open>A labelled training runtime that is not being deleted, and one of which the log says nothing.\<close>

definition live_at :: "contents \<Rightarrow> gvr \<Rightarrow> string \<times> string \<Rightarrow> bool" where
  "live_at c g k \<longleftrightarrow> (\<exists>x. stored_at c g x \<and> labelled x \<and> \<not> u_deleting x \<and> obj_key x = k)"

definition live_left :: "('w \<Rightarrow> contents) \<Rightarrow> 'w \<times> skip_entry list \<Rightarrow> gvr \<Rightarrow> string \<times> string \<Rightarrow> bool" where
  "live_left content s g k \<longleftrightarrow> live_at (content (fst s)) g k \<and>
     Cannot_list g \<notin> set (snd s) \<and> Failed_to_delete g (snd k) \<notin> set (snd s)"

text \<open>Others give the legacy finalizer to no labelled runtime and add no live labelled runtime.\<close>

definition no_new_work :: "('w \<Rightarrow> contents) \<Rightarrow> 'w \<Rightarrow> 'w \<Rightarrow> bool" where
  "no_new_work content w w' \<longleftrightarrow>
     (\<forall>g\<in>set runtime_gvrs. \<forall>k. (legacy_at (content w') g k \<longrightarrow> legacy_at (content w) g k) \<and>
        (live_at (content w') g k \<longrightarrow> live_at (content w) g k))"

definition others_work :: "('w \<Rightarrow> contents) \<Rightarrow> 'w \<times> skip_entry list \<Rightarrow> 'w \<times> skip_entry list \<Rightarrow> bool" where
  "others_work content s s' \<longleftrightarrow> no_new_work content (fst s) (fst s') \<and> snd s' = snd s"

lemma others_workD:
  assumes "others_work content (w, l) (w', l')"
  shows "l' = l" and "none_added (\<lambda>w. legacy_at (content w)) w w'"
    and "none_added (live_left content) (w, l) (w', l')"
  using assms unfolding others_work_def no_new_work_def none_added_def live_left_def by simp_all

lemma delete_lawE:
  assumes "delete_laws content D" and "dyn_delete D g ns n w = (r, w')"
  obtains (carried_out) bump where "content w' = change_at g (ns, n)
      (\<lambda>x. stored (x\<lparr>u_deleting := True, u_object := bump (u_object x)\<rparr>)) (content w)"
    | (untouched) "r \<noteq> None" "content w' = content w"
  using assms unfolding delete_laws_def by blast

lemma stored_deleting:
  assumes "stored (y\<lparr>u_deleting := True, u_object := m\<rparr>) = Some x"
  shows "u_deleting x" and "labelled x = labelled y" and "has_legacy x = has_legacy y"
    and "obj_key x = obj_key y"
  by (simp_all add: key_stored [OF assms] labelled_def has_legacy_def obj_key_def)

text \<open>A deletion leaves no further live runtime and no further runtime with the legacy finalizer.\<close>

lemma deletion_fewer:
  assumes "delete_laws content D" and "dyn_delete D g ns n w = (r, w')"
  shows "live_at (content w') g' k \<Longrightarrow> live_at (content w) g' k"
    and "legacy_at (content w') g' k \<Longrightarrow> legacy_at (content w) g' k"
  using assms
  by (cases rule: delete_lawE;
      auto simp: live_at_def legacy_at_def stored_at_change split: if_splits dest: stored_deleting;
      metis stored_deleting(2-4))+

text \<open>A runtime that stays live under the name of a deletion is one whose deletion was refused.\<close>

lemma deletion_deals:
  assumes "delete_laws content D" and "dyn_delete D g ns n w = (r, w')" and "live_at (content w') g (ns, n)"
  shows "\<exists>e. r = Some e \<and> \<not> is_not_found e"
  using assms(1,2)
proof (cases rule: delete_lawE)
  case carried_out
  with assms(3) show ?thesis
    by (auto simp: live_at_def stored_at_change split: if_splits dest: stored_deleting)
next
  case untouched
  then obtain e where r: "r = Some e" by auto
  have "\<not> is_not_found e"
  proof
    assume "is_not_found e"
    with assms(1,2) r have "\<forall>x. stored_at (content w) g x \<longrightarrow> obj_key x \<noteq> (ns, n)"
      unfolding delete_laws_def by blast
    with untouched assms(3) show False by (auto simp: live_at_def)
  qed
  with r show ?thesis by blast
qed

text \<open>
  The deletion names the object and nothing else of what was listed: an object that took the place
  of the listed one in the meantime is deleted as well, labelled or not.
\<close>

lemma deletion_takes_replacement:
  assumes "delete_laws content D" and "dyn_delete D g (u_namespace i) (u_name i) w = (None, w')"
    and "stored_at (content w') g y" and "obj_key y = obj_key i"
  shows "u_deleting y"
  using assms(1,2)
proof (cases rule: delete_lawE)
  case carried_out
  with assms(3,4) show ?thesis
    by (auto simp: stored_at_change obj_key_def [of i] split: if_splits dest: stored_deleting)
qed simp

lemma delete_clearing:
  assumes laws: "optimistic_laws content revision version stamp D" "delete_laws content D"
  shows "clearing_sweep (logged_delete D) obj_key (live_left content) (\<lambda>i. \<not> u_deleting i)"
proof
  fix g gs s p' s'
  assume c: "logged_delete D (Listing (g # gs), s) = (p', s')"
  obtain w l where s: "s = (w, l)" by fastforce
  show "(\<forall>g' k. live_left content s' g' k \<longrightarrow> live_left content s g' k) \<and>
    (p' = Listing gs \<and> (\<forall>k. \<not> live_left content s' g k) \<or>
      (\<exists>items. p' = Items g items gs \<and>
        (\<forall>k. live_left content s' g k \<longrightarrow> (\<exists>i\<in>set items. \<not> u_deleting i \<and> obj_key i = k))) \<or>
      (\<exists>e. p' = Finished (Some e)))"
  proof (cases "dyn_list D g part_of_selector w")
    case (Inl e)
    with c s show ?thesis by (auto simp: live_left_def)
  next
    case (Inr items)
    then have "\<exists>i\<in>set items. \<not> u_deleting i \<and> obj_key i = k" if "live_at (content w) g k" for k
      using that list_lawD [OF laws(1) Inr] unfolding live_at_def by blast
    moreover have "s' = s" "p' = Items g items gs" using Inr c s by auto
    ultimately show ?thesis using s by (auto simp: live_left_def)
  qed
next
  fix g i items gs s p' s'
  assume c: "logged_delete D (Items g (i # items) gs, s) = (p', s')"
  obtain w l where s: "s = (w, l)" by fastforce
  obtain r w' where d: "dyn_delete D g (u_namespace i) (u_name i) w = (r, w')" by fastforce
  have "live_left content s g' k \<and> \<not> (\<not> u_deleting i \<and> g' = g \<and> k = obj_key i)"
    if left: "live_left content s' g' k" for g' k
  proof (cases "u_deleting i")
    case True
    with c s left show ?thesis by simp
  next
    case False
    with c s d have s': "fst s' = w'" "set l \<subseteq> set (snd s')"
      "\<And>e. r = Some e \<Longrightarrow> \<not> is_not_found e \<Longrightarrow> Failed_to_delete g (u_name i) \<in> set (snd s')" by auto
    with left s deletion_fewer(1) [OF laws(2) d, of g' k] have "live_left content s g' k"
      unfolding live_left_def by auto
    moreover have "\<not> (g' = g \<and> k = obj_key i)"
      using left s' deletion_deals [OF laws(2) d] unfolding live_left_def obj_key_def by fastforce
    ultimately show ?thesis by blast
  qed
  moreover have "p' = Items g items gs" using c s by (auto split: if_splits)
  ultimately show "(\<exists>e. p' = Finished (Some e)) \<or> p' = Items g items gs \<and>
      (\<forall>g' k. live_left content s' g' k \<longrightarrow> live_left content s g' k \<and>
         \<not> (\<not> u_deleting i \<and> g' = g \<and> k = obj_key i))"
    by blast
qed (auto split: prod.splits)

text \<open>The invariant of the whole finalizer.\<close>

fun teardown_pending :: "('w \<Rightarrow> contents) \<Rightarrow> teardown_pc \<times> 'w \<times> skip_entry list \<Rightarrow> bool" where
  "teardown_pending content (Stripping p, w, l) =
     pending obj_key (\<lambda>w. legacy_at (content w)) has_legacy (p, w)"
| "teardown_pending content (Deleting p, w, l) =
     ((\<forall>e. p \<noteq> Finished (Some e)) \<and> clear_but (legacy_at (content w)) {} \<and>
      pending obj_key (live_left content) (\<lambda>i. \<not> u_deleting i) (p, w, l))"
| "teardown_pending content (Collecting, w, l) =
     (clear_but (legacy_at (content w)) {} \<and> clear_but (live_left content (w, l)) {})"
| "teardown_pending content (Finalized r, w, l) = True"

lemma teardown_pending_others:
  assumes "others_work content (w, l) (w', l')" and "teardown_pending content (p, w, l)"
  shows "teardown_pending content (p, w', l')"
  using assms(2) pending_others [OF others_workD(2) [OF assms(1)]]
    pending_others [OF others_workD(3) [OF assms(1)]]
    clear_but_added [OF others_workD(2) [OF assms(1)]]
    clear_but_added [OF others_workD(3) [OF assms(1)]]
  by (cases p) auto

lemma delete_call_keeps_stripped:
  assumes "delete_laws content D" and "delete_call D (p, w) = (p', w')"
    and "clear_but (legacy_at (content w)) {}"
  shows "clear_but (legacy_at (content w')) {}"
proof (cases "w' = w")
  case False
  with assms(2) obtain g i "is" gs where "p = Items g (i # is) gs"
    by (cases "(D, p, w)" rule: delete_call.cases) (auto split: sum.splits if_splits)
  with False assms(2) obtain r where "dyn_delete D g (u_namespace i) (u_name i) w = (r, w')"
    by (auto split: if_splits) (metis surjective_pairing)
  with deletion_fewer(2) [OF assms(1)] assms(3) show ?thesis
    unfolding clear_but_def by blast
qed (use assms(3) in simp)

lemma delete_call_no_error:
  "delete_call D (p, w) = (p', w') \<Longrightarrow> \<forall>e. p \<noteq> Finished (Some e) \<Longrightarrow> p' \<noteq> Finished (Some e)"
  by (cases "(D, p, w)" rule: delete_call.cases) (auto split: sum.splits if_splits)

lemma teardown_pending_call:
  assumes laws: "optimistic_laws content revision version stamp (oe_dynamic E)" "delete_laws content (oe_dynamic E)"
    and pend: "teardown_pending content (p, w, l)"
  shows "teardown_pending content (logged_call E trainer (p, w, l))"
proof (cases p)
  case (Stripping q)
  show ?thesis
  proof (cases "returned q")
    case True
    with Stripping pend show ?thesis
      by (cases q) (auto simp: clear_but_def split: option.split)
  next
    case False
    obtain q' w' where c: "strip_call (oe_dynamic E) (q, w) = (q', w')" by fastforce
    with clearing_sweep.pending_call [OF strip_clearing [OF laws(1)], of "(q, w)"] pend
    have "teardown_pending content (Stripping q', w', l)" using Stripping by simp
    with Stripping strip_goes_on [OF False, of E trainer w] c show ?thesis by simp
  qed
next
  case (Deleting q)
  show ?thesis
  proof (cases "returned q")
    case True
    with Deleting pend show ?thesis by (cases q) auto
  next
    case False
    obtain q' w' where c: "delete_call (oe_dynamic E) (q, w) = (q', w')" by fastforce
    with clearing_sweep.pending_call [OF delete_clearing [OF laws], of "(q, w, l)"] pend
      delete_call_keeps_stripped [OF laws(2) c] delete_call_no_error [OF c]
    have "teardown_pending content (Deleting q', w', l @ delete_log (oe_dynamic E) (q, w))" using Deleting by simp
    with Deleting delete_goes_on [OF False, of E trainer w] c show ?thesis by simp
  qed
qed (simp_all split: prod.split add: map_prod_def)

lemma teardown_pending_run:
  assumes laws: "optimistic_laws content revision version stamp (oe_dynamic E)" "delete_laws content (oe_dynamic E)"
    and "interleaved (logged_call E trainer) (others_work content)
           (Stripping (Listing runtime_gvrs), w0, []) s"
  shows "teardown_pending content s"
  using assms(3)
proof (induction rule: interleaved.induct)
  case start
  show ?case by (simp add: clear_but_def)
next
  case (own t)
  obtain p w l where t: "t = (p, w, l)" by (cases t)
  from teardown_pending_call [OF laws] own.IH show ?case unfolding t .
next
  case (others p s s')
  then show ?case by (cases s; cases s') (auto intro: teardown_pending_others)
qed

text \<open>
  C8: The finalizer does its work under interference, but for what it says in the log: others may
  change the cluster at will between its API calls, except that they give the legacy finalizer to
  no labelled training runtime and add no live labelled runtime, and any call may fail, carried out
  or not. When the collector starts, no labelled training runtime carries the legacy finalizer,
  and every one that is left is being deleted, or the log of this very run has a line that its
  resource could not be listed or that its deletion failed. Asked of the server are optimistic
  concurrency, that a deletion it reports as done marks the object, and that what it reports as not
  found is absent. So with no such line nothing of the
  operand's keeps a training runtime from disappearing, and with one the runtime may stay.
\<close>

theorem teardown_under_interference:
  assumes "optimistic_laws content revision version stamp (oe_dynamic E)" and "delete_laws content (oe_dynamic E)"
    and "interleaved (logged_call E trainer) (others_work content)
           (Stripping (Listing runtime_gvrs), w0, []) (Collecting, w, entries)"
  shows "\<forall>g\<in>set runtime_gvrs. \<forall>os. content w g = Some os \<longrightarrow>
    (\<forall>x\<in>set os. labelled x \<longrightarrow> legacyTrainerFinalizer \<notin> set (u_finalizers x) \<and>
       (u_deleting x \<or> Cannot_list g \<in> set entries \<or> Failed_to_delete g (u_name x) \<in> set entries))"
proof -
  have clear: "clear_but (legacy_at (content w)) {}" "clear_but (live_left content (w, entries)) {}"
    using teardown_pending_run [OF assms] by simp_all
  have "\<not> has_legacy x \<and> (u_deleting x \<or> Cannot_list g \<in> set entries \<or> Failed_to_delete g (u_name x) \<in> set entries)"
    if "g \<in> set runtime_gvrs" "stored_at (content w) g x" "labelled x" for g x
  proof -
    from clear that(1) have "\<not> legacy_at (content w) g (obj_key x)" "\<not> live_left content (w, entries) g (obj_key x)"
      unfolding clear_but_def by blast+
    with that(2,3) show ?thesis unfolding legacy_at_def live_left_def live_at_def by (auto simp: obj_key_def)
  qed
  then show ?thesis unfolding has_legacy_def stored_at_def by blast
qed

text \<open>The versioned server keeps these promises, and so does one that refuses every deletion.\<close>

lemma versioned_client_deletes: "delete_laws snd versioned_client"
proof -
  have same: "(\<lambda>x. stored (x\<lparr>u_deleting := True, u_object := id (u_object x)\<rparr>)) = (\<lambda>x. stored (x\<lparr>u_deleting := True\<rparr>))"
    by (simp add: fun_eq_iff)
  have "(\<exists>bump. snd w' = change_at g (ns, n) (\<lambda>x. stored (x\<lparr>u_deleting := True, u_object := bump (u_object x)\<rparr>)) (snd w)) \<or>
      r \<noteq> None \<and> snd w' = snd w" if "dyn_delete versioned_client g ns n w = (r, w')" for g ns n w r w'
    using that same
    by (cases w) (auto simp: versioned_client_def mem_client_def split: option.splits if_splits intro: exI [of _ id])
  moreover have "snd w' = snd w \<and> (\<forall>x. stored_at (snd w) g x \<longrightarrow> obj_key x \<noteq> (ns, n))"
    if "dyn_delete versioned_client g ns n w = (Some e, w')" for g ns n w e w'
    using that by (cases w) (auto simp: versioned_client_def mem_client_def stored_at_def image_iff split: option.splits if_splits)
  ultimately show ?thesis unfolding delete_laws_def by blast
qed

interpretation versioned_delete: clearing_sweep "logged_delete versioned_client" obj_key
    "live_left snd" "\<lambda>i. \<not> u_deleting i"
  by (rule delete_clearing [OF versioned_client_laws versioned_client_deletes])

definition refusing_client :: "(nat \<times> contents) dynamic_client" where
  "refusing_client = versioned_client\<lparr>dyn_delete := (\<lambda>g ns n w. (Some (goerr.Status Forbidden n), w))\<rparr>"

lemma refusing_client_laws:
  "optimistic_laws snd fst object_version stamp_version refusing_client" "delete_laws snd refusing_client"
  using versioned_client_laws
  by (simp_all add: refusing_client_def optimistic_laws_def delete_laws_def is_not_found_def)

text \<open>Freed from the legacy finalizer, and not deleted.\<close>

definition freed_world :: "nat \<times> contents" where
  "freed_world = (1, (\<lambda>_. None)(runtime_gvrs ! 0 \<mapsto>
     [sample_runtime ''torch'' [(PlatformPartOf, trainerPartOf)] [''x''] False
        \<lparr>u_object := [(''resourceVersion'', JInt 1)]\<rparr>]))"

lemma swept_run: "removeRuntimeFinalizers refusing_client busy_world = (None, freed_world)"
  by (simp add: removeRuntimeFinalizers_def runtime_gvrs_def refusing_client_def versioned_client_def mem_client_def
      busy_world_def sample_runtime_def labelled_def legacyTrainerFinalizer_def find_object_def obj_key_def change_at_def
      stored_def map_filter_simps stamp_version_def object_version_def clusterTrainingRuntimeResource_def
      trainingRuntimeResource_def fun_eq_iff freed_world_def)

lemma nothing_deleted: "cleanupTrainerResources refusing_client w = w"
proof -
  have items: "delete_items refusing_client g items w = w" for g items
    by (induction items) (simp_all add: refusing_client_def)
  have "delete_resources refusing_client gs w = w" for gs
    by (induction gs) (simp_all add: items split: sum.split)
  then show ?thesis by (simp add: cleanupTrainerResources_def)
qed

theorem teardown_under_interference_witness:
  "\<exists>entries. interleaved (logged_call (idle_with refusing_client) (Instance empty_request)) (others_work snd)
       (Stripping (Listing runtime_gvrs), busy_world, []) (Collecting, freed_world, entries) \<and>
     (\<exists>x. snd freed_world (runtime_gvrs ! 0) = Some [x] \<and> labelled x \<and> \<not> u_deleting x \<and>
        legacyTrainerFinalizer \<notin> set (u_finalizers x) \<and>
        (Cannot_list (runtime_gvrs ! 0) \<in> set entries \<or> Failed_to_delete (runtime_gvrs ! 0) (u_name x) \<in> set entries))"
proof -
  let ?E = "idle_with refusing_client" and ?t = "Instance empty_request"
  have dyn: "oe_dynamic ?E = refusing_client" by (simp add: idle_with_def)
  have "reaches (teardown_call ?E ?t) (Stripping (Listing runtime_gvrs), busy_world) (Collecting, freed_world)"
    using teardown_reaches_collector [of ?E busy_world freed_world ?t]
    unfolding dyn by (simp add: swept_run nothing_deleted)
  from reaches_logged [OF this, of "[]"] obtain entries where
    run: "interleaved (logged_call ?E ?t) (others_work snd) (Stripping (Listing runtime_gvrs), busy_world, [])
      (Collecting, freed_world, entries)"
    by (blast intro: reaches_interleaved)
  have "runtime_gvrs ! 0 \<in> set runtime_gvrs" by (simp add: runtime_gvrs_def)
  moreover obtain x where x: "snd freed_world (runtime_gvrs ! 0) = Some [x]" "labelled x" "\<not> u_deleting x"
    by (simp add: freed_world_def labelled_def sample_runtime_def)
  ultimately have "legacyTrainerFinalizer \<notin> set (u_finalizers x) \<and>
      (Cannot_list (runtime_gvrs ! 0) \<in> set entries \<or> Failed_to_delete (runtime_gvrs ! 0) (u_name x) \<in> set entries)"
    using teardown_under_interference [of snd fst object_version stamp_version ?E, unfolded dyn,
        OF refusing_client_laws run]
    by auto
  with run x show ?thesis by blast
qed

end
