(* ===== verification/Namespace_Race.thy ===== *)
theory Namespace_Race
  imports Reconciler Interleaving
begin

text \<open>
  \<^verbatim>\<open>ensureNamespace\<close> (internal/controller/trainer_controller.go) one API call at a time: between
  the lookup and the creation somebody else may create the namespace.
\<close>

section \<open>The calls\<close>

datatype namespace_pc = Looking | Making | Ensured "goerr option"

fun namespace_call ::
  "'w typed_client \<Rightarrow> request \<Rightarrow> namespace_pc \<times> 'w \<Rightarrow> namespace_pc \<times> 'w" where
  "namespace_call C rr (Looking, w) =
     (case get_namespace C (resolveNamespace (Instance rr)) w of
        Inr ns \<Rightarrow> (Ensured None, w)
      | Inl e \<Rightarrow>
         (if \<not> is_not_found e then (Ensured (Some (Wrap ''failed to check namespace'' e)), w)
          else (Making, w)))"
| "namespace_call C rr (Making, w) =
     (case create_namespace C \<lparr>ns_name = resolveNamespace (Instance rr),
             ns_labels = [(PlatformPartOf, trainerPartOf)]\<rparr> w of
        (Some e, w') \<Rightarrow>
          (if \<not> is_already_exists e then (Ensured (Some (Wrap ''failed to create namespace'' e)), w')
           else (Ensured None, w'))
      | (None, w') \<Rightarrow> (Ensured None, w'))"
| "namespace_call C rr (Ensured r, w) = (Ensured r, w)"

fun ensured :: "namespace_pc \<Rightarrow> bool" where
  "ensured (Ensured r) = True"
| "ensured p = False"

fun namespace_rank :: "namespace_pc \<Rightarrow> nat" where
  "namespace_rank Looking = 2"
| "namespace_rank Making = 1"
| "namespace_rank (Ensured r) = 0"

interpretation namespace_calls: descending_calls "namespace_call C rr" ensured "measure namespace_rank"
  for C :: "'w typed_client" and rr
proof
  fix p and w :: 'w
  show "(fst (namespace_call C rr (p, w)), p) \<in> measure namespace_rank" if "\<not> ensured p"
    using that by (cases p) (auto split: sum.split prod.split option.split)
  show "namespace_call C rr (p, w) = (p, w)" if "ensured p"
    using that by (cases p) simp_all
qed simp

lemma namespace_call_undisturbed:
  "run_calls (namespace_call C rr) (\<lambda>i w. w) 2 (Looking, w) =
     (case ensureNamespace C rr w of (r, w') \<Rightarrow> (Ensured r, w'))"
  by (auto simp: run_calls_quiet numeral_2_eq_2 ensureNamespace_def Let_def
      split: sum.split prod.split option.split)

section \<open>Others may create it\<close>

text \<open>
  The server refuses to create what exists, and never loses a namespace by answering; it answers
  when a lookup fails only for what is missing and a creation only for what exists. Others create
  and change namespaces but delete none.
\<close>

definition creation_guarded :: "('w \<Rightarrow> string \<Rightarrow> namespace_obj option) \<Rightarrow> 'w typed_client \<Rightarrow> bool" where
  "creation_guarded stored_ns C \<longleftrightarrow> namespace_laws stored_ns C \<and>
     (\<forall>ob w w'. create_namespace C ob w = (None, w') \<longrightarrow> stored_ns w (ns_name ob) = None) \<and>
     (\<forall>ob w e w'. create_namespace C ob w = (Some e, w') \<longrightarrow>
        (\<forall>x. stored_ns w (ns_name ob) = Some x \<longrightarrow> stored_ns w' (ns_name ob) = Some x))"

definition namespaces_answered :: "'w typed_client \<Rightarrow> bool" where
  "namespaces_answered C \<longleftrightarrow>
     (\<forall>n w e. get_namespace C n w = Inl e \<longrightarrow> is_not_found e) \<and>
     (\<forall>ob w e w'. create_namespace C ob w = (Some e, w') \<longrightarrow> is_already_exists e)"

definition namespaces_stay :: "('w \<Rightarrow> string \<Rightarrow> namespace_obj option) \<Rightarrow> 'w \<Rightarrow> 'w \<Rightarrow> bool" where
  "namespaces_stay stored_ns w w' \<longleftrightarrow> (\<forall>k. stored_ns w k \<noteq> None \<longrightarrow> stored_ns w' k \<noteq> None)"

fun namespace_found ::
  "('w \<Rightarrow> string \<Rightarrow> namespace_obj option) \<Rightarrow> request \<Rightarrow> namespace_pc \<times> 'w \<Rightarrow> bool" where
  "namespace_found stored_ns rr (Ensured r, w) =
     (r = None \<longrightarrow> stored_ns w (resolveNamespace (Instance rr)) \<noteq> None)"
| "namespace_found stored_ns rr (p, w) = True"

lemma namespace_lawsD:
  assumes "namespace_laws stored_ns C"
  shows "get_namespace C n w = Inr ob \<Longrightarrow> stored_ns w n = Some ob"
    and "create_namespace C ob' w = (None, w') \<Longrightarrow> stored_ns w' (ns_name ob') = Some ob'"
    and "create_namespace C ob' w = (Some e, w') \<Longrightarrow> is_already_exists e \<Longrightarrow>
           stored_ns w' (ns_name ob') \<noteq> None"
  using assms unfolding namespace_laws_def by (metis fun_upd_same)+

lemma namespace_found_call:
  assumes "namespace_laws stored_ns C" and "namespace_found stored_ns rr (p, w)"
  shows "namespace_found stored_ns rr (namespace_call C rr (p, w))"
proof (cases p)
  case Looking
  then show ?thesis
    by (auto split: sum.split simp: namespace_lawsD(1) [OF assms(1)])
next
  case Making
  let ?ob = "\<lparr>ns_name = resolveNamespace (Instance rr), ns_labels = [(PlatformPartOf, trainerPartOf)]\<rparr>"
  obtain r w' where c: "create_namespace C ?ob w = (r, w')" by fastforce
  with Making namespace_lawsD(2,3) [OF assms(1), of ?ob w] show ?thesis
    by (cases r) auto
qed (use assms(2) in simp)

lemma namespace_found_run:
  assumes "namespace_laws stored_ns C"
    and "interleaved (namespace_call C rr) (namespaces_stay stored_ns) (Looking, w0) s"
  shows "namespace_found stored_ns rr s"
  using assms(2)
proof (induction rule: interleaved.induct)
  case (own t)
  then show ?case using namespace_found_call [OF assms(1)] by (metis prod.collapse)
next
  case (others p w w')
  then show ?case by (cases p) (auto simp: namespaces_stay_def)
qed simp

lemma namespace_never_fails:
  assumes "namespaces_answered C" and "interleaved (namespace_call C rr) rely (Looking, w0) s"
  shows "fst s \<noteq> Ensured (Some e)"
  using assms(2)
proof (induction rule: interleaved.induct)
  case (own t)
  have "get_namespace C n w = Inl e' \<Longrightarrow> is_not_found e'"
    and "create_namespace C ob w = (Some e', w') \<Longrightarrow> is_already_exists e'" for n ob w e' w'
    using assms(1) unfolding namespaces_answered_def by blast+
  with own.IH show ?case
    by (cases "(C, rr, t)" rule: namespace_call.cases) (auto split: sum.split prod.split option.split)
qed simp_all

text \<open>A call of its own never takes away or overwrites a namespace, its own included.\<close>

lemma namespace_call_keeps:
  assumes "creation_guarded stored_ns C" and "stored_ns w k = Some x"
  shows "stored_ns (snd (namespace_call C rr (p, w))) k = Some x"
proof (cases p)
  case Looking
  with assms(2) show ?thesis by (auto split: sum.split)
next
  case Making
  let ?ob = "\<lparr>ns_name = resolveNamespace (Instance rr), ns_labels = [(PlatformPartOf, trainerPartOf)]\<rparr>"
  obtain r w' where c: "create_namespace C ?ob w = (r, w')" by fastforce
  have "stored_ns w' k = Some x"
  proof (cases r)
    case None
    with c assms(1) have "stored_ns w (ns_name ?ob) = None"
      and "stored_ns w' = (stored_ns w)(ns_name ?ob \<mapsto> ?ob)"
      unfolding creation_guarded_def namespace_laws_def by blast+
    with assms(2) show ?thesis by auto
  next
    case (Some e)
    show ?thesis
    proof (cases "k = ns_name ?ob")
      case True
      with Some c assms show ?thesis unfolding creation_guarded_def by blast
    next
      case False
      with Some c assms have "stored_ns w' k = stored_ns w k"
        unfolding creation_guarded_def namespace_laws_def by blast
      with assms(2) show ?thesis by simp
    qed
  qed
  with Making c show ?thesis by (auto split: option.split)
qed (use assms(2) in simp)

text \<open>
  C36: \<^verbatim>\<open>ensureNamespace\<close> under a race: while others create and change namespaces between its API
  calls, but delete none, the application namespace exists when it returns success; a call of its
  own never removes or overwrites a namespace; and with an API server that answers it never
  fails, also when somebody creates the namespace between its lookup and its creation.
\<close>

theorem ensureNamespace_under_race:
  assumes "creation_guarded stored_ns C"
    and "interleaved (namespace_call C rr) (namespaces_stay stored_ns) (Looking, w0) (p, w)"
  shows "(p = Ensured None \<longrightarrow> stored_ns w (resolveNamespace (Instance rr)) \<noteq> None) \<and>
    (\<forall>k x. stored_ns w k = Some x \<longrightarrow>
       stored_ns (snd (namespace_call C rr (p, w))) k = Some x) \<and>
    (namespaces_answered C \<longrightarrow> (\<forall>e. p \<noteq> Ensured (Some e)))"
proof -
  have "namespace_laws stored_ns C" using assms(1) by (simp add: creation_guarded_def)
  from namespace_found_run [OF this assms(2)] namespace_call_keeps [OF assms(1)]
    namespace_never_fails [OF _ assms(2)]
  show ?thesis by auto
qed

lemma map_client_guarded: "creation_guarded id map_client" "namespaces_answered map_client"
  using map_client_laws
  by (auto simp: creation_guarded_def namespaces_answered_def map_client_def split: option.splits if_splits)

text \<open>Somebody creates the namespace after the lookup; the creation is refused and this is a success.\<close>

theorem ensureNamespace_under_race_witness:
  "let other = \<lparr>ns_name = defaultNamespace, ns_labels = []\<rparr>;
       s = namespace_call map_client empty_request (Looking, \<lambda>_. None)
   in fst s = Making \<and>
      namespace_call map_client empty_request (Making, (snd s)(defaultNamespace \<mapsto> other)) =
        (Ensured None, (snd s)(defaultNamespace \<mapsto> other)) \<and>
      interleaved (namespace_call map_client empty_request) (namespaces_stay id) (Looking, \<lambda>_. None)
        (Ensured None, (snd s)(defaultNamespace \<mapsto> other)) \<and>
      ((snd s)(defaultNamespace \<mapsto> other)) (resolveNamespace (Instance empty_request)) \<noteq> None"
proof -
  let ?other = "\<lparr>ns_name = defaultNamespace, ns_labels = []\<rparr>"
  let ?call = "namespace_call map_client empty_request"
  have n: "resolveNamespace (Instance empty_request) = defaultNamespace"
    by (simp add: empty_request_def resolveNamespace_def)
  have first: "?call (Looking, \<lambda>_. None) = (Making, \<lambda>_. None)"
    by (simp add: map_client_def)
  have second: "?call (Making, [defaultNamespace \<mapsto> ?other]) = (Ensured None, [defaultNamespace \<mapsto> ?other])"
    by (simp add: map_client_def n)
  have "interleaved ?call (namespaces_stay id) (Looking, \<lambda>_. None) (Making, \<lambda>_. None)"
    using interleaved.own [OF interleaved.start, of ?call "namespaces_stay id" "(Looking, \<lambda>_. None)"]
    unfolding first .
  then have "interleaved ?call (namespaces_stay id) (Looking, \<lambda>_. None) (Making, [defaultNamespace \<mapsto> ?other])"
    by (rule interleaved.others) (simp add: namespaces_stay_def)
  then have run: "interleaved ?call (namespaces_stay id) (Looking, \<lambda>_. None)
      (Ensured None, [defaultNamespace \<mapsto> ?other])"
    using interleaved.own second by metis
  have "id [defaultNamespace \<mapsto> ?other] (resolveNamespace (Instance empty_request)) \<noteq> None"
    using ensureNamespace_under_race [OF map_client_guarded(1) run] by blast
  with run show ?thesis unfolding Let_def first second snd_conv by (simp add: n)
qed

end
