(* ===== verification/Spec2Isabelle.thy ===== *)
theory Spec2Isabelle
  imports Startup Lifecycle Deep_Copy Release_Slices Rbac TLS_Lifecycle Teardown_Interleaving Namespace_Race
    Render_Crash
begin

text \<open>
  A verification of the trainer operator, a Kubernetes operator in Go that installs the Kubeflow
  Trainer on a cluster from manifest templates. This root theory holds the overview and the
  properties that span components.

  \<^bold>\<open>The program.\<close> The process (cmd/main.go) registers its API types, parses its flags, resolves the cluster's
  TLS profile, builds a manager and its reconciler and runs it. A reconcile of the single Trainer object (api/v1alpha1) is a list of actions
  run in order until one fails: check the JobSet dependencies, ensure the namespace, update the
  release status, render the manifests, deploy them (with a recovery from immutable fields), report the
  deployments, strip legacy finalizers and collect garbage; deleting the object runs \<^verbatim>\<open>cleanup\<close>. Rendering
  copies each template into a work directory, rewrites its \<^verbatim>\<open>params.env\<close>, runs kustomize and puts the
  translated TLS profile into the operand's configuration.

  \<^bold>\<open>Theories and sources.\<close>
  \<^item> Go_Prelude: Go errors, the string routines and maps of the standard library, shared lemmas.
  \<^item> Go_FS: the file system and the \<^verbatim>\<open>os\<close> calls, each of which may fail (\<open>io_env\<close>).
  \<^item> File_Invariants: the contract \<open>fs_kept\<close> of a property of the files that writes below a directory
    cannot break, met by the order of directories and by what is seen outside the directory;
    every writing routine is shown to keep it in its own theory.
  \<^item> Go_Memory: heaps, slices, maps and pointers; the contract \<open>deep_copier\<close> of a deep copy, which
    \<open>map_copier\<close>, \<open>slice_copier\<close> and \<open>pointer_copier\<close> carry to maps, slices and pointers.
  \<^item> Sha256: \<^verbatim>\<open>crypto/sha256\<close> and \<^verbatim>\<open>encoding/hex\<close>, computed on 32-bit words.
  \<^item> Kube_Api: objects, and the clients and helpers of other packages as records of functions.
  \<^item> Trainer_Types (api/v1alpha1/trainer_types.go): the Trainer object, its accessors, the request.
  \<^item> Deep_Copy (api/v1alpha1/zz_generated.deepcopy.go): the generated copies on that memory; from the copies
    of other packages (\<open>foreign_copiers\<close>) every routine is a deep copy.
  \<^item> Api_Scheme (api/v1alpha1/groupversion_info.go, \<^verbatim>\<open>init\<close> of cmd/main.go): the registration of the API types.
  \<^item> Work_Dir (internal/controller/manifests.go): \<^verbatim>\<open>copyFile\<close>, \<^verbatim>\<open>copyDir\<close>, \<^verbatim>\<open>ensureWorkDir\<close>. A copy that
    succeeds shows exactly the template without its links; a copy that failed at a file is
    taken for complete by every later call.
  \<^item> Params (internal/controller/params.go): the \<^verbatim>\<open>params.env\<close> codec, its atomic rewrite and the
    overrides, for every order in which Go iterates over a map; the codec is the interface
    \<open>params_codec\<close>.
  \<^item> Dependencies (internal/controller/dependencies.go and \<^verbatim>\<open>checkDependencies\<close>): when the dependencies
    count as met, and which condition is set.
  \<^item> Release_Status (\<^verbatim>\<open>updateReleases\<close> and what it calls): the release list as a \<open>keyed_store\<close>, the
    platform version on every path, and that a repeated update changes nothing.
  \<^item> Release_Slices: \<^verbatim>\<open>appendOrUpdateRelease\<close>, \<^verbatim>\<open>SetConditions\<close> and \<^verbatim>\<open>SetReleaseStatus\<close> on slices with arrays and
    capacities, as a refinement of the lists of Release_Status and Trainer_Types.
  \<^item> Runtimes (\<^verbatim>\<open>removeRuntimeFinalizers\<close>, \<^verbatim>\<open>cleanupTrainerResources\<close>): the two loops as instances of
    \<open>snapshot_sweep\<close>; what changes on the API server under any failures, and what is reached
    when it answers.
  \<^item> Operand_TLS (internal/tls/operand.go): the translation of a TLS profile, with \<^verbatim>\<open>strconv.ParseInt\<close> at
    32 bits and 16-bit suite identifiers.
  \<^item> TLS_Profile (internal/tls/profile.go and metrics.go): the resolution of the profile, the watcher that
    restarts the process, the metrics server's options.
  \<^item> Manifests (internal/controller/manifests.go): \<^verbatim>\<open>renderOverlay\<close>, \<^verbatim>\<open>filterConfigMaps\<close>,
    \<^verbatim>\<open>applyOperandTLSOptions\<close>.
  \<^item> Rendering (\<^verbatim>\<open>renderManifests\<close>, \<^verbatim>\<open>renderResourceSet\<close>): what a rendering adds to the request, and what
    kustomize sees, from the template to the overlay.
  \<^item> Reconciler (the other actions, \<^verbatim>\<open>cleanup\<close>, \<^verbatim>\<open>NewReconciler\<close>): an action is a function on a state of
    cluster, files, request and release; the contract \<open>request_action\<close> is interpreted for each.
  \<^item> Lifecycle: reconciles, finalizer runs, changes from outside and restarts of a process that was
    killed at any moment (\<open>left_by_kill\<close>) in any order, as a step
    relation; others change the cluster also between the actions of a reconcile (\<open>disturbed_run\<close>), and
    a reconcile may be cut short there. Even so the deploy action is reached only when everything is
    ready. The Trainer fetched for a run is any, so a status update may be lost and the object be
    deleted and created again, and every run has an environment of its own. Invariants (\<open>kept_by\<close>) concern
    where the release comes from, when the status shows it, and the files.
  \<^item> Rbac (the RBAC markers of internal/controller/trainer_controller.go): the operator's permissions, which
    suffice for the calls the controller makes itself (not those inside other packages, the collector
    included) and are scoped to the objects it manages.
  \<^item> Command_Line (cmd/main.go): the flags and \<^verbatim>\<open>flag.Parse\<close>.
  \<^item> Startup (cmd/main.go): \<^verbatim>\<open>main\<close> and the whole process with every way it can end.
  \<^item> Interleaving: a routine that makes one call at a time among others that change the shared world
    between its calls (\<open>interleaved\<close>, \<open>run_calls\<close>); the contract \<open>descending_calls\<close> of a routine that ends
    whatever the others do.
  \<^item> Runtime_Interleaving: the two loops of Runtimes call by call. They end under any interference, add up
    to the routines without it, never write over a concurrent change, and remove the legacy
    finalizer although others write; \<open>clearing_sweep\<close> is the contract of a sweep that leaves nothing
    behind while nobody adds to its work.
  \<^item> Teardown_Interleaving: \<^verbatim>\<open>cleanup\<close> call by call, both sweeps (each a \<open>clearing_sweep\<close>) and the
    collector. It ends under any interference, is \<open>cleanup\<close> without it, and starts the collector
    only when the work of both sweeps is done, whatever the others change, except for what
    the deletion skipped and wrote to the log (\<open>delete_log\<close>).
  \<^item> Namespace_Race: \<^verbatim>\<open>ensureNamespace\<close> call by call, while others create namespaces.
  \<^item> Params_Crash: \<^verbatim>\<open>writeParams\<close> one system call at a time, with its buffered writer, killed at any
    moment. Every run that ends is one of \<open>writeParams\<close>; a killed one leaves the old file or the new
    one, and the call made again makes good what was lost.
  \<^item> TLS_Lifecycle: start, watch, shutdown and restart of the process while the cluster changes; its TLS
    settings converge to what the cluster asks for when the manager runs without an error of its own,
    and a process whose start or manager fails does not stay up.
  \<^item> Render_Stability: renderings one after the other, from the files the earlier ones left; they return
    the same resources.
  \<^item> Render_Crash: what a killed rendering leaves (\<open>killed_rendering\<close>); renderings one after the other of
    which some are killed (\<open>worked\<close>): what they leave can be rendered again (\<open>renderable\<close>), with the
    same resources. A killed write leaves what a failing one can leave, so the invariants of
    File_Invariants hold under kills too.

  \<^bold>\<open>Code outside the repository.\<close> Kubernetes clients, the platform framework and utilities, kustomize,
  the YAML codec, the cipher tables and library-go are arguments of the definitions that call them.
  A theorem that needs their documented behaviour names it as a hypothesis: \<open>dynamic_laws\<close> and
  \<open>dynamic_available\<close> (API server), \<open>namespace_laws\<close>, \<open>read_after_write\<close>, \<open>yaml_roundtrip\<close>, \<open>suite_tables_ok\<close>,
  \<open>watcher_contract\<close>, \<open>runs_in_order\<close>, \<open>framework_keeps\<close> and \<open>framework_without_files\<close> (framework), \<open>metadata_names_ok\<close> (component metadata), \<open>scheme_laws\<close>,
  \<open>foreign_copiers\<close>, \<open>optimistic_laws\<close>, \<open>delete_laws\<close> and \<open>creation_guarded\<close> (concurrent clients of the API
  server), \<open>registers_watcher\<close> (manager) and
  \<open>reads_work_tree\<close> (kustomize); each has a concrete instance in
  the witness of the theorem.

  \<^bold>\<open>Bounds.\<close> All recursions are structural or carry a termination proof; there is no fuel, and
  \<open>run_calls\<close> counts calls only to say how many are enough. The scanner's
  64 KiB line limit, the 32-bit range of curve identifiers and the 16-bit suite identifiers are
  those of the code.

  \<^bold>\<open>Not modelled.\<close> Logging and contexts with their timeouts; file modes; the flags that other packages
  register (an argument); the rendered YAML itself; the loss of files that were written but not
  synced when a node goes down; the tests.
\<close>

section \<open>From the cluster's TLS policy to the operand\<close>

text \<open>An operand ConfigMap among the changed items was one before the change.\<close>

lemma config_was_config:
  assumes "operand_outcome U Y opts h items items'" and "i < length items"
    and "operand_config U (items' ! i) = Some doc"
  shows "\<exists>raw. operand_config U (items ! i) = Some raw"
proof (cases "operand_config U (items ! i)")
  case None
  note out = mp [OF spec [OF conjunct2 [OF assms(1) [unfolded operand_outcome_def]], of i] assms(2)]
  show ?thesis
  proof (cases "operand_deployment (items ! i) \<and> (\<exists>item\<in>set items. operand_config U item \<noteq> None)")
    case True
    with outcome_deployment [OF assms(1,2)] obtain object where "items' ! i = (items ! i)\<lparr>u_object := object\<rparr>"
      by blast
    with True assms(3) config_not_deployment show ?thesis by fastforce
  next
    case False
    with out None assms(3) show ?thesis by simp
  qed
qed simp

lemma configs_carry_tls:
  assumes "read_after_write U" and "yaml_roundtrip Y"
    and "applyOperandTLSOptions T U Y items profile = (None, items')"
    and "x \<in> set items'" and "operand_config U x = Some doc"
  shows "\<exists>opts cfg. TranslateProfile T profile = Inr opts \<and> Unmarshal Y doc = Inr (Some cfg) \<and>
    map_of cfg ''tls'' = Some (TLSOptionsValue Y opts)"
proof -
  from operand_effect [OF assms(3)] obtain opts h where opts: "TranslateProfile T profile = Inr opts"
    and outcome: "operand_outcome U Y opts h items items'" by blast
  then have "length items' = length items" by (simp add: operand_outcome_def)
  with assms(4) obtain i where i: "i < length items" "x = items' ! i"
    by (auto simp: in_set_conv_nth)
  with config_was_config [OF outcome] assms(5) obtain raw where raw: "operand_config U (items ! i) = Some raw"
    by blast
  from outcome_config [OF outcome i(1) raw] obtain out ob where
    out: "merged_config Y opts raw = Inr out"
    and set: "SetNestedField U (u_object (items ! i)) (JStr out) [''data'', operandConfigKey] = Inr ob"
    and item: "items' ! i = (items ! i)\<lparr>u_object := ob\<rparr>" by blast
  from operand_config_set [OF assms(1) raw set] item i assms(5) have "doc = out" by simp
  with merged_config_read [OF assms(2) out] opts show ?thesis by auto
qed

text \<open>
  C1: The cluster's TLS policy reaches the operand, from start-up to the rendered objects. When the
  process has started its manager and a later reconcile renders the manifests, every operand
  configuration it renders has as its \<^verbatim>\<open>tls\<close> section the translation of the profile in force at
  start-up: the cluster's own profile when its adherence policy asks for it to be honoured, the
  Intermediate profile otherwise.
\<close>

theorem cluster_tls_policy_reaches_operand:
  assumes "started (main S fl w fs) = Some (mgr, cfg, plan)"
    and "renderManifests P (oe_render (su_operator S)) cfg w' fs' rr = (None, fs'', rr')"
    and "read_after_write (re_unstructured (oe_render (su_operator S)))"
    and "yaml_roundtrip (re_yaml (oe_render (su_operator S)))"
  shows "\<exists>loaded trainer rest. LoadWithAdherence (su_tls S) w = Inr loaded \<and>
    Resources rr' = Resources rr @ trainer @ rest \<and>
    (\<forall>x\<in>set trainer. \<forall>doc. operand_config (re_unstructured (oe_render (su_operator S))) x = Some doc \<longrightarrow>
       (\<exists>opts c. TranslateProfile (re_tables (oe_render (su_operator S)))
            (if ShouldHonorClusterTLSProfile (su_tls S) (loaded_AdherencePolicy loaded)
             then loaded_Spec loaded else TLSProfileIntermediate (su_tls S)) = Inr opts \<and>
          Unmarshal (re_yaml (oe_render (su_operator S))) doc = Inr (Some c) \<and>
          map_of c ''tls'' = Some (TLSOptionsValue (re_yaml (oe_render (su_operator S))) opts))) \<and>
    (\<forall>x\<in>set rest. GetKind x \<noteq> ''ConfigMap'')"
proof -
  from main_started [OF assms(1)] obtain tls where tls: "Resolve (su_tls S) w = Inr tls"
    and cfg: "cfg = reconciler_config (res_EffectiveProfile tls)" by blast
  from tls obtain loaded where loaded: "LoadWithAdherence (su_tls S) w = Inr loaded"
    and eff: "TLSProfile cfg = (if ShouldHonorClusterTLSProfile (su_tls S) (loaded_AdherencePolicy loaded)
             then loaded_Spec loaded else TLSProfileIntermediate (su_tls S))"
    by (auto simp: cfg reconciler_config_def elim!: Resolve_cases)
  from rendered_sets [OF assms(2)] obtain trainer rest rendered where
    rr': "Resources rr' = Resources rr @ trainer @ rest" "\<forall>x\<in>set rest. GetKind x \<noteq> ''ConfigMap''"
    and app: "applyOperandTLSOptions (re_tables (oe_render (su_operator S)))
      (re_unstructured (oe_render (su_operator S))) (re_yaml (oe_render (su_operator S))) rendered
      (TLSProfile cfg) = (None, trainer)" by blast
  have "\<exists>opts c. TranslateProfile (re_tables (oe_render (su_operator S)))
        (if ShouldHonorClusterTLSProfile (su_tls S) (loaded_AdherencePolicy loaded)
         then loaded_Spec loaded else TLSProfileIntermediate (su_tls S)) = Inr opts \<and>
      Unmarshal (re_yaml (oe_render (su_operator S))) doc = Inr (Some c) \<and>
      map_of c ''tls'' = Some (TLSOptionsValue (re_yaml (oe_render (su_operator S))) opts)"
    if "x \<in> set trainer" "operand_config (re_unstructured (oe_render (su_operator S))) x = Some doc" for x doc
    using configs_carry_tls [OF assms(3,4) app that] unfolding eff .
  with loaded rr' show ?thesis by blast
qed

theorem cluster_tls_policy_reaches_operand_witness:
  "\<exists>trainer rest. sample_rendered @ filterConfigMaps sample_items = trainer @ rest \<and>
    (\<forall>x\<in>set trainer. \<forall>doc. operand_config mem_unstructured x = Some doc \<longrightarrow>
       (\<exists>opts c. TranslateProfile sample_tables sample_profile = Inr opts \<and>
          Unmarshal sample_yaml doc = Inr (Some c) \<and>
          map_of c ''tls'' = Some (TLSOptionsValue sample_yaml opts))) \<and>
    (\<forall>x\<in>set rest. GetKind x \<noteq> ''ConfigMap'')"
proof -
  let ?cfg = "reconciler_config sample_profile"
  have env: "oe_render (su_operator sample_startup) = sample_render_env"
    "re_unstructured sample_render_env = mem_unstructured" "re_yaml sample_render_env = sample_yaml"
    "re_tables sample_render_env = sample_tables"
    by (simp_all add: sample_startup_def ready_env_def idle_with_def sample_render_env_def)
  obtain plan where st: "started (main sample_startup default_flags sample_runtimes image_files) = Some (1, ?cfg, plan)"
    using sample_start by blast
  have ren: "renderManifests sample_platform (oe_render (su_operator sample_startup)) ?cfg () started_fs empty_request =
     (None, started_fs, empty_request\<lparr>Resources := Resources empty_request @ sample_rendered @
        filterConfigMaps sample_items, Generated := True\<rparr>)"
    unfolding env by (rule sample_render_started)
  have "LoadWithAdherence (su_tls sample_startup) sample_runtimes = Inr (sample_loaded sample_profile)"
    "ShouldHonorClusterTLSProfile (su_tls sample_startup) a" for a
    by (simp_all add: sample_startup_def)
  moreover have "loaded_Spec (sample_loaded sample_profile) = sample_profile" by (simp add: sample_loaded_def)
  ultimately show ?thesis
    using cluster_tls_policy_reaches_operand [OF st ren] mem_unstructured_laws sample_yaml_laws
    by (simp add: env empty_request_resources)
qed

section \<open>From the image to the first rendering\<close>

lemma started_files:
  assumes "started (main S fl w fs) = Some (mgr, cfg, plan)" and "ordered fs"
  shows "ordered (exit_files (main S fl w fs))"
    and "fs_view (exit_files (main S fl w fs)) workDir = Inr VDir"
    and "fs_view (exit_files (main S fl w fs)) (workDir @ [x]) = fs_view fs (workDir @ [x])"
    and "fs_view (exit_files (main S fl w fs)) (manifestsPath @ p) = fs_view fs (manifestsPath @ p)"
    and "\<exists>es. fs_get (exit_files (main S fl w fs)) manifestsPath = Inr (Dir es)"
proof -
  let ?fs = "exit_files (main S fl w fs)"
  from main_started [OF assms(1)] have "os_mkdir_all (re_io (oe_render (su_operator S))) workDir fs = Inr ?fs"
    and dir: "check_template (re_io (oe_render (su_operator S))) ''manifests'' manifestsPath fs = None" by blast+
  note mk = os_mkdir_all_Inr [OF this(1)]
  show "ordered ?fs" by (rule ordered_mkdir_all [OF assms(2) mk])
  show "fs_view ?fs workDir = Inr VDir" by (rule fs_view_mkdir_all_same [OF mk])
  show "fs_view ?fs (workDir @ [x]) = fs_view fs (workDir @ [x])" by (rule fs_view_mkdir_all_below [OF mk])
  have beside: "fs_view ?fs (manifestsPath @ q) = fs_view fs (manifestsPath @ q)" for q
    by (rule fs_view_mkdir_all_parallel [OF mk]) (metis parallel_below parallel_commute templates_apart(1))
  then show "fs_view ?fs (manifestsPath @ p) = fs_view fs (manifestsPath @ p)" .
  show "\<exists>es. fs_get ?fs manifestsPath = Inr (Dir es)"
    using beside [of "[]"] check_template_None [OF dir] by (simp add: fs_view_dir_iff)
qed

text \<open>
  C12: The first rendering of a started process uses the templates of its image. When \<^verbatim>\<open>main\<close> has started the
  manager in a container whose work directory holds no manifests yet and no system call fails, the
  first rendering of the trainer manifests copies the template into the work directory and runs kustomize
  on an overlay whose parameter file is the one in the image with the application namespace, and
  the controller image of the environment when it is set; the configured TLS profile is applied to
  exactly what kustomize returned. All the conditions on paths and directories that rendering relies on
  are established by \<^verbatim>\<open>main\<close> itself.
\<close>

theorem first_rendering_uses_image:
  assumes st: "started (main S fl w fs) = Some (mgr, cfg, plan)" and "ordered fs"
    and io: "re_io (oe_render (su_operator S)) = no_faults" and iter: "iterates (re_iter (oe_render (su_operator S)))"
    and fresh: "fs_view fs (workDir @ [''manifests'']) = Inl ENOENT"
    and par: "fs_view fs (manifestsPath @ [defaultOverlay, ''params.env'']) = Inr (VFile content)"
      "fs_view fs (manifestsPath @ [defaultOverlay, ''params.env.tmp'']) = Inl ENOENT"
      "parse_params content = Inr params"
    and env: "\<forall>(k, ev)\<in>set trainerImageParamMap. re_getenv (oe_render (su_operator S)) ev \<noteq> [] \<longrightarrow>
      ok_entry (k, re_getenv (oe_render (su_operator S)) ev)"
    and ns: "ns \<noteq> []" "ok_entry (paramOperatorNamespace, ns)"
  shows "let E = oe_render (su_operator S); dir = workDir @ [''manifests''] @ [defaultOverlay] in \<exists>fs' new.
    readParams no_faults (dir @ [''params.env'']) fs' = Inr new \<and>
    (\<forall>k. map_of new k = (if k = paramOperatorNamespace then Some ns
       else case map_of trainerImageParamMap k of
         Some ev \<Rightarrow> if re_getenv E ev \<noteq> [] then Some (re_getenv E ev) else map_of params k
       | None \<Rightarrow> map_of params k)) \<and>
    renderResourceSet E cfg (manifests_set cfg ns) (exit_files (main S fl w fs)) =
      (case re_kustomize E dir [WithLabel PlatformPartOf trainerPartOf, WithNamespace ns] fs' of
         Inl e \<Rightarrow> (Inl (Wrap ''rendering manifests'' (Wrap ''rendering kustomize overlay'' e)), fs')
       | Inr items \<Rightarrow>
          (case applyOperandTLSOptions (re_tables E) (re_unstructured E) (re_yaml E) items (TLSProfile cfg) of
             (Some e, out) \<Rightarrow> (Inl (Wrap ''applying operand TLS options to manifests'' e), fs')
           | (None, out) \<Rightarrow> (Inr out, fs')))"
proof -
  let ?fs = "exit_files (main S fl w fs)"
  note files = started_files [OF st assms(2)]
  obtain tls where cfg: "cfg = reconciler_config tls" using main_started [OF st] by blast
  then have paths: "ManifestsPath cfg = manifestsPath" "WorkDir cfg = workDir" by (simp_all add: reconciler_config_def)
  from files(5) obtain es where es: "fs_get ?fs manifestsPath = Inr (Dir es)" by blast
  then have wf: "wf_tree (Dir es)" by (rule ordered_wf(1) [OF ordered_get [OF files(1)]])
  have view: "fs_view (Dir es) p = fs_view fs (manifestsPath @ p)" for p
    using files(4) [of p] es by (simp add: fs_view_def fs_get_append)
  have pruned: "fs_view (prune (Dir es)) [defaultOverlay, ''params.env''] = Inr (VFile content)"
    "fs_view (prune (Dir es)) [defaultOverlay, ''params.env.tmp''] = Inl ENOENT"
    using prune_view [OF wf trans [OF view par(1)]] prune_view [OF wf trans [OF view par(2)]] by blast+
  have vacant: "vacant (workDir @ [''manifests'']) ?fs" using files(3) fresh by (simp add: vacant_def)
  obtain fs0 where fs0: "mkdir_all (workDir @ [''manifests'']) ?fs = Inr fs0"
    using mkdir_all_defined [OF files(2)] files(3) fresh by metis
  have apart: "manifestsPath \<parallel> workDir @ [''manifests'']"
    using templates_apart(1) by (metis parallel_below parallel_commute)
  show ?thesis
    unfolding Let_def
    by (rule overlay_from_template [unfolded Let_def, where m = cfg, unfolded paths,
          OF io iter apart es wf vacant fs0 pruned par(3) env ns])
qed

text \<open>A container whose image holds a parameter file in the overlay of the trainer manifests.\<close>

definition fresh_image :: fnode where
  "fresh_image = Dir [(''opt'', Dir [(''imagestreams-template'', Dir []),
     (''manifests-template'', Dir [(''rhoai'', Dir [(''params.env'',
        File (''odh-kubeflow-trainer-controller-image=default'' @ [newline] @ ''ns=x''))])]),
     (''runtimes-template'', Dir [])])]"

lemma fresh_start:
  "\<exists>plan. started (main sample_startup default_flags sample_runtimes fresh_image) =
     Some (1, reconciler_config sample_profile, plan)"
  by (simp add: main_def sample_startup_def ready_env_def idle_with_def sample_render_env_def Resolve_def
      sample_loaded_def fresh_image_def check_template_def os_stat_def manifestsPath_def runtimesPath_def
      imageStreamsPath_def workDir_def os_mkdir_all_def NewReconciler_def SetupWatcher_def Let_def
      split: sum.splits)

theorem first_rendering_uses_image_witness:
  "\<exists>fs' new. readParams no_faults (workDir @ [''manifests'', ''rhoai'', ''params.env'']) fs' = Inr new \<and>
     map_of new paramOperatorNamespace = Some ''apps'' \<and> map_of new ''ns'' = Some ''x'' \<and>
     renderResourceSet sample_render_env (reconciler_config sample_profile)
       (manifests_set (reconciler_config sample_profile) ''apps'')
       (exit_files (main sample_startup default_flags sample_runtimes fresh_image)) = (Inr sample_rendered, fs')"
proof -
  obtain plan where st: "started (main sample_startup default_flags sample_runtimes fresh_image) =
     Some (1, reconciler_config sample_profile, plan)" using fresh_start by blast
  have E: "oe_render (su_operator sample_startup) = sample_render_env"
    by (simp add: sample_startup_def ready_env_def idle_with_def)
  have "ordered fresh_image" by (simp add: fresh_image_def)
  note first = first_rendering_uses_image [OF st this, where ns = "''apps''", unfolded E, OF _ _ _ _ _ image_fs_text]
  have "re_io sample_render_env = no_faults" "iterates (re_iter sample_render_env)"
    "fs_view fresh_image (workDir @ [''manifests'']) = Inl ENOENT"
    "fs_view fresh_image (manifestsPath @ [defaultOverlay, ''params.env'']) =
       Inr (VFile (''odh-kubeflow-trainer-controller-image=default'' @ [newline] @ ''ns=x''))"
    "fs_view fresh_image (manifestsPath @ [defaultOverlay, ''params.env.tmp'']) = Inl ENOENT"
    "\<forall>(k, ev)\<in>set trainerImageParamMap. re_getenv sample_render_env ev \<noteq> [] \<longrightarrow> ok_entry (k, re_getenv sample_render_env ev)"
    "''apps'' \<noteq> []" "ok_entry (paramOperatorNamespace, ''apps'')"
    by (simp_all add: sample_render_env_def fresh_image_def workDir_def manifestsPath_def defaultOverlay_def
        trainerImageParamMap_def sample_env_def imageParamControllerImage_def paramOperatorNamespace_def ok_entry_eval)
  from first [OF this] obtain fs' new where
    new: "readParams no_faults (workDir @ [''manifests''] @ [defaultOverlay] @ [''params.env'']) fs' = Inr new"
    and keys: "map_of new paramOperatorNamespace = Some ''apps''" "map_of new ''ns'' = Some ''x''"
    and out: "renderResourceSet sample_render_env (reconciler_config sample_profile)
       (manifests_set (reconciler_config sample_profile) ''apps'')
       (exit_files (main sample_startup default_flags sample_runtimes fresh_image)) = (Inr sample_rendered, fs')"
    by (auto simp: Let_def sample_apply sample_render_env_def reconciler_config_def trainerImageParamMap_def
        paramOperatorNamespace_def imageParamControllerImage_def)
  then show ?thesis by (intro exI [of _ fs'] exI [of _ new]) (simp add: defaultOverlay_def)
qed

end
